(* ===== verification/Prelude.thy ===== *)
theory Prelude
  imports Main "HOL-Library.Word"
begin

text \<open>
  The shared base of the development: C values (bytes, pointers), the fault-or-result
  programs in which every C function is written, their weakest preconditions, and the
  generic lemmas on linked lists and byte lists that the components use.

  A C function is a program \<open>'s \<Rightarrow> fault + 'a \<times> 's\<close>: it reads and updates the state and
  returns a value, or it stops with a fault. A fault is what the C program must never do
  (a failed \<^verbatim>\<open>assert\<close>, a NULL or dangling pointer, an access outside an object); the
  ordinary failures of the code (\<^verbatim>\<open>return -1\<close>, \<^verbatim>\<open>return NULL\<close>) are return values.
\<close>

section \<open>C values\<close>

type_synonym byte = "8 word"

text \<open>A pointer to a heap object; 0 is the null pointer.\<close>

type_synonym ptr = nat

abbreviation NULL :: ptr where
  "NULL \<equiv> 0"

text \<open>The ways a run of the program can go wrong.\<close>

datatype fault =
    Assert_failed   \<comment> \<open>\<^verbatim>\<open>assert(e)\<close> with e false (asserts are on unless NDEBUG is set)\<close>
  | Null_deref      \<comment> \<open>access through NULL\<close>
  | Bad_pointer     \<comment> \<open>access to an object that is not allocated\<close>
  | Out_of_bounds   \<comment> \<open>access outside the bytes of an object\<close>
  | Div_by_zero     \<comment> \<open>\<^verbatim>\<open>x % 0\<close>\<close>

section \<open>Programs\<close>

type_synonym ('s, 'a) prog = "'s \<Rightarrow> fault + 'a \<times> 's"

definition ret :: "'a \<Rightarrow> ('s, 'a) prog" where
  "ret a = (\<lambda>s. Inr (a, s))"

definition bnd :: "('s, 'a) prog \<Rightarrow> ('a \<Rightarrow> ('s, 'b) prog) \<Rightarrow> ('s, 'b) prog" where
  "bnd m f = (\<lambda>s. case m s of Inl e \<Rightarrow> Inl e | Inr (a, s') \<Rightarrow> f a s')"

definition throwf :: "fault \<Rightarrow> ('s, 'a) prog" where
  "throwf e = (\<lambda>s. Inl e)"

definition gets :: "('s \<Rightarrow> 'a) \<Rightarrow> ('s, 'a) prog" where
  "gets f = (\<lambda>s. Inr (f s, s))"

definition modify :: "('s \<Rightarrow> 's) \<Rightarrow> ('s, unit) prog" where
  "modify f = (\<lambda>s. Inr ((), f s))"

definition c_assert :: "bool \<Rightarrow> ('s, unit) prog" where
  "c_assert b = (if b then ret () else throwf Assert_failed)"

text \<open>Read the object at \<open>p\<close> of the heap \<open>h\<close>.\<close>

definition load :: "('s \<Rightarrow> ptr \<rightharpoonup> 'a) \<Rightarrow> ptr \<Rightarrow> ('s, 'a) prog" where
  "load h p = (\<lambda>s. if p = NULL then Inl Null_deref
     else case h s p of None \<Rightarrow> Inl Bad_pointer | Some v \<Rightarrow> Inr (v, s))"

text \<open>Ask the environment: an external call answers and moves the external state.\<close>

definition ext_call :: "('s \<Rightarrow> 'w) \<Rightarrow> ('w \<Rightarrow> 's \<Rightarrow> 's) \<Rightarrow> ('w \<Rightarrow> 'a \<times> 'w) \<Rightarrow> ('s, 'a) prog" where
  "ext_call sel upd f = (\<lambda>s. let (a, w) = f (sel s) in Inr (a, upd w s))"

named_theorems exec_simps \<open>one-step evaluation of programs\<close>
named_theorems wp_simps \<open>weakest preconditions of programs\<close>

lemma exec_prims [exec_simps]:
  "ret a s = Inr (a, s)"
  "bnd m f s = (case m s of Inl e \<Rightarrow> Inl e | Inr (a, s') \<Rightarrow> f a s')"
  "throwf e s = Inl e"
  "gets g s = Inr (g s, s)"
  "modify u s = Inr ((), u s)"
  "c_assert b = (if b then ret () else throwf Assert_failed)"
  "ext_call sel upd h s = (let (a, w) = h (sel s) in Inr (a, upd w s))"
  by (simp_all add: ret_def bnd_def throwf_def gets_def modify_def c_assert_def ext_call_def)

lemma exec_load [exec_simps]:
  "load h p s = (if p = NULL then Inl Null_deref
     else case h s p of None \<Rightarrow> Inl Bad_pointer | Some v \<Rightarrow> Inr (v, s))"
  by (simp add: load_def)

lemma bnd_assoc: "bnd (bnd m f) g = bnd m (\<lambda>x. bnd (f x) g)"
  by (simp add: bnd_def fun_eq_iff split: sum.splits)

lemma bnd_ret: "bnd (ret a) f = f a"
  by (simp add: bnd_def ret_def fun_eq_iff)

lemma c_assert_True [simp]: "bnd (c_assert True) f = f ()"
  by (simp add: fun_eq_iff exec_simps)

section \<open>Weakest preconditions\<close>

text \<open>\<open>wp m Q s\<close>: from \<open>s\<close> the program \<open>m\<close> does not fault and its result satisfies \<open>Q\<close>.\<close>

definition wp :: "('s, 'a) prog \<Rightarrow> ('a \<Rightarrow> 's \<Rightarrow> bool) \<Rightarrow> 's \<Rightarrow> bool" where
  "wp m Q s = (case m s of Inl e \<Rightarrow> False | Inr (a, s') \<Rightarrow> Q a s')"

lemma wp_ret [wp_simps]: "wp (ret a) Q = Q a"
  by (simp add: wp_def exec_simps fun_eq_iff)

lemma wp_bnd [wp_simps]: "wp (bnd m f) Q = wp m (\<lambda>a. wp (f a) Q)"
  by (simp add: wp_def exec_simps fun_eq_iff split: sum.splits prod.splits)

lemma wp_throwf [wp_simps]: "wp (throwf e) Q = (\<lambda>s. False)"
  by (simp add: wp_def exec_simps fun_eq_iff)

lemma wp_gets [wp_simps]: "wp (gets g) Q = (\<lambda>s. Q (g s) s)"
  by (simp add: wp_def exec_simps fun_eq_iff)

lemma wp_modify [wp_simps]: "wp (modify u) Q = (\<lambda>s. Q () (u s))"
  by (simp add: wp_def exec_simps fun_eq_iff)

lemma wp_c_assert [wp_simps]: "wp (c_assert b) Q = (\<lambda>s. b \<and> Q () s)"
  by (simp add: c_assert_def wp_ret wp_throwf fun_eq_iff)

lemma wp_load [wp_simps]:
  "wp (load h p) Q = (\<lambda>s. p \<noteq> NULL \<and> (\<exists>v. h s p = Some v \<and> Q v s))"
  by (simp add: wp_def exec_simps fun_eq_iff split: option.splits)

lemma wp_ext_call [wp_simps]:
  "wp (ext_call sel upd f) Q = (\<lambda>s. case f (sel s) of (a, w) \<Rightarrow> Q a (upd w s))"
  by (simp add: wp_def exec_simps fun_eq_iff split: prod.splits)

lemma wp_if [wp_simps]:
  "wp (if b then m else n) Q = (\<lambda>s. if b then wp m Q s else wp n Q s)"
  by (simp add: fun_eq_iff)

lemma wp_Let [wp_simps]: "wp (Let x f) Q = (\<lambda>s. let y = x in wp (f y) Q s)"
  by (simp add: Let_def)

lemma wp_case_prod [wp_simps]: "wp (case_prod f x) Q = (\<lambda>s. case x of (a, b) \<Rightarrow> wp (f a b) Q s)"
  by (simp add: fun_eq_iff split: prod.splits)

lemma wp_case_option [wp_simps]:
  "wp (case x of None \<Rightarrow> m | Some a \<Rightarrow> f a) Q = (\<lambda>s. case x of None \<Rightarrow> wp m Q s | Some a \<Rightarrow> wp (f a) Q s)"
  by (simp add: fun_eq_iff split: option.splits)

lemma wp_conseq:
  "wp m Q s \<Longrightarrow> (\<And>a s'. Q a s' \<Longrightarrow> R a s') \<Longrightarrow> wp m R s"
  by (auto simp: wp_def split: sum.splits)

lemma wp_bndI: "wp m R s \<Longrightarrow> (\<And>a s'. R a s' \<Longrightarrow> wp (f a) Q s') \<Longrightarrow> wp (bnd m f) Q s"
  unfolding wp_bnd by (rule wp_conseq)

lemma wp_skipI: "wp m (\<lambda>_ s'. s' = s) s \<Longrightarrow> (\<And>a. wp (f a) Q s) \<Longrightarrow> wp (bnd m f) Q s"
  by (erule wp_bndI) simp

lemma wp_loadI: "h s p = Some v \<Longrightarrow> p \<noteq> NULL \<Longrightarrow> wp (f v) Q s \<Longrightarrow> wp (bnd (load h p) f) Q s"
  by (simp add: wp_bnd wp_load)

lemma wp_InrI: "m s = Inr (a, s') \<Longrightarrow> Q a s' \<Longrightarrow> wp m Q s"
  by (simp add: wp_def)

lemma wp_InrD: "wp m Q s \<Longrightarrow> \<exists>a s'. m s = Inr (a, s') \<and> Q a s'"
  by (auto simp: wp_def split: sum.splits)

lemma wp_iff: "wp m Q s \<longleftrightarrow> (\<exists>a s'. m s = Inr (a, s') \<and> Q a s')"
  by (auto simp: wp_def split: sum.splits)

lemma wp_result: "wp m Q s \<Longrightarrow> m s = Inr (a, s') \<Longrightarrow> Q a s'"
  by (simp add: wp_def)

lemma wp_conj: "wp m Q s \<Longrightarrow> wp m R s \<Longrightarrow> wp m (\<lambda>a s'. Q a s' \<and> R a s') s"
  by (auto simp: wp_def split: sum.splits)

section \<open>Partial correctness\<close>

text \<open>\<open>wlp m Q s\<close> holds when every result of \<open>m\<close> satisfies \<open>Q\<close>; faults are ruled out elsewhere.\<close>

definition wlp :: "('s, 'a) prog \<Rightarrow> ('a \<Rightarrow> 's \<Rightarrow> bool) \<Rightarrow> 's \<Rightarrow> bool" where
  "wlp m Q s \<longleftrightarrow> (\<forall>a s'. m s = Inr (a, s') \<longrightarrow> Q a s')"

lemma wlp_bndI: "wlp m R s \<Longrightarrow> (\<And>a s'. R a s' \<Longrightarrow> wlp (f a) Q s') \<Longrightarrow> wlp (bnd m f) Q s"
  by (auto simp: wlp_def bnd_def split: sum.splits)

lemma wlp_prims:
  "wlp (ret a) Q s = Q a s" "wlp (c_assert b) R s = (b \<longrightarrow> R () s)" "wlp (throwf e) Q s"
  by (auto simp: wlp_def exec_simps)

lemma wlp_loadI: "h s p = Some v \<Longrightarrow> wlp (f v) Q s \<Longrightarrow> wlp (bnd (load h p) f) Q s"
  by (auto simp: wlp_def exec_simps split: if_splits)

lemma wlp_conseq: "wlp m Q s \<Longrightarrow> (\<And>a s'. Q a s' \<Longrightarrow> R a s') \<Longrightarrow> wlp m R s"
  by (auto simp: wlp_def)

lemma wp_wlp: "wp m Q s \<Longrightarrow> wlp m R s \<Longrightarrow> wp m (\<lambda>a s'. Q a s' \<and> R a s') s"
  by (auto simp: wp_def wlp_def split: sum.splits)

lemma wp_imp_wlp: "wp m Q s \<Longrightarrow> wlp m Q s"
  by (auto simp: wp_def wlp_def)

lemma wlp_conjI: "wlp m Q s \<Longrightarrow> wlp m R s \<Longrightarrow> wlp m (\<lambda>a s'. Q a s' \<and> R a s') s"
  by (simp add: wlp_def)

section \<open>Linked lists in a heap\<close>

text \<open>
  \<open>chain nx p ps\<close>: following the next-pointers \<open>nx\<close> from \<open>p\<close> visits exactly the cells
  \<open>ps\<close> and ends at NULL.
\<close>

fun chain :: "(ptr \<rightharpoonup> ptr) \<Rightarrow> ptr \<Rightarrow> ptr list \<Rightarrow> bool" where
  "chain nx p [] = (p = NULL)"
| "chain nx p (x # xs) = (p = x \<and> x \<noteq> NULL \<and> (\<exists>q. nx x = Some q \<and> chain nx q xs))"

lemma chain_NULL [simp]: "chain nx NULL xs = (xs = [])"
  by (cases xs) auto

lemma chain_upd [simp]: "u \<notin> set xs \<Longrightarrow> chain (nx(u := v)) p xs = chain nx p xs"
  by (induction xs arbitrary: p) auto

lemma chain_cong: "(\<And>x. x \<in> set xs \<Longrightarrow> nx x = nx' x) \<Longrightarrow> chain nx p xs = chain nx' p xs"
  by (induction xs arbitrary: p) auto

lemma chain_unique: "chain nx p xs \<Longrightarrow> chain nx p ys \<Longrightarrow> xs = ys"
proof (induction xs arbitrary: p ys)
  case (Cons x xs)
  then show ?case by (cases ys) auto
qed simp

lemma chain_append: "chain nx p (xs @ ys) \<Longrightarrow> \<exists>q. chain nx q ys"
  by (induction xs arbitrary: p) auto

lemma chain_not_in_tail: "chain nx x (x # xs) \<Longrightarrow> x \<notin> set xs"
proof
  assume c: "chain nx x (x # xs)" and "x \<in> set xs"
  then obtain us vs where split: "xs = us @ x # vs" by (meson split_list)
  from c have "chain nx x ((x # us) @ x # vs)" by (simp add: split)
  then obtain q where "chain nx q (x # vs)" by (blast dest: chain_append)
  then have "chain nx x (x # vs)" by simp
  with c have "x # xs = x # vs" by (rule chain_unique)
  then show False by (simp add: split)
qed

lemma chain_distinct: "chain nx p xs \<Longrightarrow> distinct xs"
proof (induction xs arbitrary: p)
  case (Cons x xs)
  then have "x \<notin> set xs" by (metis chain.simps(2) chain_not_in_tail)
  with Cons show ?case by auto
qed simp

lemma chain_dom: "chain nx p xs \<Longrightarrow> set xs \<subseteq> dom nx"
  by (induction xs arbitrary: p) auto

lemma chain_nonnull: "chain nx p xs \<Longrightarrow> NULL \<notin> set xs"
  by (induction xs arbitrary: p) auto

text \<open>Linking a new cell \<open>z\<close> behind the last cell \<open>y\<close>.\<close>

lemma chain_snoc:
  assumes "chain nx p (xs @ [y])" and "z \<notin> set (xs @ [y])" and "z \<noteq> NULL" and "nx z = Some NULL"
  shows "chain (nx(y \<mapsto> z)) p (xs @ [y, z])"
  using assms
proof (induction xs arbitrary: p)
  case Nil
  then show ?case by auto
next
  case (Cons x xs)
  from Cons.prems(1) have "distinct (x # xs @ [y])" by (metis append_Cons chain_distinct)
  with Cons show ?case by auto
qed

lemma chain_length_bound:
  assumes "chain nx p xs" and "\<And>x. x \<in> dom nx \<Longrightarrow> x < n"
  shows "length xs \<le> n"
proof -
  have "set xs \<subseteq> {..<n}" using chain_dom [OF assms(1)] assms(2) by auto
  then have "card (set xs) \<le> n" by (metis card_lessThan card_mono finite_lessThan)
  then show ?thesis by (simp add: distinct_card [OF chain_distinct [OF assms(1)]])
qed

section \<open>Bytes in memory\<close>

text \<open>Overwrite \<open>length bs\<close> bytes of \<open>m\<close> from offset \<open>off\<close>.\<close>

definition overwrite :: "nat \<Rightarrow> 'a list \<Rightarrow> 'a list \<Rightarrow> 'a list" where
  "overwrite off bs m = take off m @ bs @ drop (off + length bs) m"

lemma length_overwrite [simp]:
  "off + length bs \<le> length m \<Longrightarrow> length (overwrite off bs m) = length m"
  by (simp add: overwrite_def)

lemma take_drop_overwrite [simp]:
  "off \<le> length m \<Longrightarrow> take (length bs) (drop off (overwrite off bs m)) = bs"
  by (simp add: overwrite_def)

lemma overwrite_0 [simp]: "overwrite 0 bs m = bs @ drop (length bs) m"
  by (simp add: overwrite_def)

lemma overwrite_outside:
  "i < off \<or> off + length bs \<le> i \<Longrightarrow> i < length m \<Longrightarrow> off + length bs \<le> length m
    \<Longrightarrow> overwrite off bs m ! i = m ! i"
  by (auto simp: overwrite_def nth_append)

end
