(* ===== verification/Machine.thy ===== *)
theory Machine
  imports Prelude
begin

text \<open>
  The world outside \<^verbatim>\<open>src/\<close>: what the program sees of liburing and the kernel, of libc and
  the system calls, and of OpenSSL. None of that code is part of the repository, so each
  library is a record of functions over an opaque external state (\<open>'k\<close> for kernel and libc,
  \<open>'t\<close> for OpenSSL) and every operation that calls it takes that record as an argument.
  What the code relies on is stated as named predicates over those records.

  The state keeps a trace of the calls that hand something to the outside or take it back
  (newest first). Two functions read the ownership off the trace: \<open>inflight\<close>, the submission
  entries whose completion the program has not seen yet (\<open>outstanding\<close> their user data), and
  \<open>provided\<close>, the buffers it has given to the buffer ring and not got back.
\<close>

unbundle bit_operations_syntax

section \<open>Memory the kernel reads and writes\<close>

text \<open>
  A data pointer: into the \<^verbatim>\<open>buf\<close> array or the \<^verbatim>\<open>addr\<close> field of a \<^verbatim>\<open>buf_addr_t\<close>, or an
  offset into the \<^verbatim>\<open>br_bufs\<close> block of an io-uring context.
\<close>

datatype mptr = MNull | MBuf ptr | MAddr ptr | MRing ptr nat

text \<open>\<^verbatim>\<open>struct iovec\<close> and \<^verbatim>\<open>struct msghdr\<close>; \<open>msg_iov\<close> is the operation whose \<^verbatim>\<open>iov\<close> it points to.\<close>

record iovec =
  iov_base :: mptr
  iov_len :: nat

record msghdr =
  msg_name :: mptr
  msg_namelen :: nat
  msg_iov :: ptr
  msg_iovlen :: nat

section \<open>Submission and completion entries\<close>

text \<open>A prepared submission entry with its user data (the operation's address).\<close>

datatype sqe =
    Sqe_recvmsg_multishot int ptr int ptr  \<comment> \<open>fd, owner of the msghdr, buffer group, user data\<close>
  | Sqe_recvmsg int msghdr iovec ptr
  | Sqe_sendmsg int msghdr iovec ptr
  | Sqe_read int mptr nat ptr
  | Sqe_write int mptr nat ptr

fun sqe_user_data :: "sqe \<Rightarrow> ptr" where
  "sqe_user_data (Sqe_recvmsg_multishot _ _ _ u) = u"
| "sqe_user_data (Sqe_recvmsg _ _ _ u) = u"
| "sqe_user_data (Sqe_sendmsg _ _ _ u) = u"
| "sqe_user_data (Sqe_read _ _ _ u) = u"
| "sqe_user_data (Sqe_write _ _ _ u) = u"

text \<open>
  A completion entry, with the bytes the kernel has written into user memory for it.
\<close>

record cqe =
  cqe_data :: ptr
  cqe_res :: int
  cqe_flags :: "32 word"
  cqe_writes :: "(mptr \<times> byte list) list"

definition IORING_CQE_F_BUFFER :: "32 word" where
  "IORING_CQE_F_BUFFER = 1"

definition IORING_CQE_F_MORE :: "32 word" where
  "IORING_CQE_F_MORE = 2"

definition IORING_CQE_BUFFER_SHIFT :: nat where
  "IORING_CQE_BUFFER_SHIFT = 16"

definition has_buffer :: "32 word \<Rightarrow> bool" where
  "has_buffer f \<longleftrightarrow> f AND IORING_CQE_F_BUFFER \<noteq> 0"

definition has_more :: "32 word \<Rightarrow> bool" where
  "has_more f \<longleftrightarrow> f AND IORING_CQE_F_MORE \<noteq> 0"

definition buffer_id :: "32 word \<Rightarrow> nat" where
  "buffer_id f = unat (drop_bit IORING_CQE_BUFFER_SHIFT f)"

section \<open>The trace\<close>

datatype event =
    Ev_prep sqe                   \<comment> \<open>an entry prepared with its user data\<close>
  | Ev_submit int                 \<comment> \<open>\<^verbatim>\<open>io_uring_submit\<close> and its result\<close>
  | Ev_cqe ptr "32 word"          \<comment> \<open>a completion taken off the queue: user data, flags\<close>
  | Ev_br_add nat nat nat         \<comment> \<open>\<^verbatim>\<open>io_uring_buf_ring_add\<close>: buffer id, byte offset, slot offset\<close>
  | Ev_br_advance nat
  | Ev_br_free
  | Ev_queue_exit
  | Ev_free ptr                   \<comment> \<open>\<^verbatim>\<open>free\<close> of a heap object\<close>
  | Ev_open int                   \<comment> \<open>a new descriptor (\<^verbatim>\<open>open\<close>, \<^verbatim>\<open>socket\<close>)\<close>
  | Ev_close int
  | Ev_ssl_write ptr "byte list"  \<comment> \<open>plaintext handed to \<^verbatim>\<open>SSL_write\<close>\<close>
  | Ev_ssl_read ptr "byte list"   \<comment> \<open>plaintext got from \<^verbatim>\<open>SSL_read\<close>\<close>
  | Ev_bio_write ptr "byte list"
  | Ev_bio_read ptr "byte list"
  | Ev_ssl_ctx_new ptr            \<comment> \<open>a new OpenSSL object, and its release\<close>
  | Ev_ssl_new ptr
  | Ev_bio_new ptr
  | Ev_ssl_ctx_free ptr
  | Ev_ssl_free ptr
  | Ev_bio_free ptr
  | Ev_set_bio ptr ptr ptr        \<comment> \<open>\<^verbatim>\<open>SSL_set_bio\<close>: the SSL object takes both BIOs\<close>
  | Ev_set_state ptr bool         \<comment> \<open>accept (True) or connect state\<close>

text \<open>
  The submission entries the kernel still works on: every prepared entry until its last
  completion (the one without \<^verbatim>\<open>IORING_CQE_F_MORE\<close>) has been taken off the queue.
\<close>

fun remove_sqe :: "ptr \<Rightarrow> sqe list \<Rightarrow> sqe list" where
  "remove_sqe p [] = []"
| "remove_sqe p (e # es) = (if sqe_user_data e = p then es else e # remove_sqe p es)"

fun inflight :: "event list \<Rightarrow> sqe list" where
  "inflight [] = []"
| "inflight (Ev_prep e # tr) = e # inflight tr"
| "inflight (Ev_cqe p f # tr) = (if has_more f then inflight tr else remove_sqe p (inflight tr))"
| "inflight (_ # tr) = inflight tr"

definition outstanding :: "event list \<Rightarrow> ptr list" where
  "outstanding tr = map sqe_user_data (inflight tr)"

fun provided :: "event list \<Rightarrow> nat list" where
  "provided [] = []"
| "provided (Ev_br_add b _ _ # tr) = b # provided tr"
| "provided (Ev_cqe p f # tr) =
     (if has_buffer f then remove1 (buffer_id f) (provided tr) else provided tr)"
| "provided (_ # tr) = provided tr"

text \<open>The descriptors the program has open.\<close>

fun open_fds :: "event list \<Rightarrow> int list" where
  "open_fds [] = []"
| "open_fds (Ev_open fd # tr) = fd # open_fds tr"
| "open_fds (Ev_close fd # tr) = remove1 fd (open_fds tr)"
| "open_fds (_ # tr) = open_fds tr"

text \<open>
  The OpenSSL objects the program has to release; BIOs attached to an SSL object belong to it.
\<close>

fun tls_live :: "event list \<Rightarrow> ptr list" where
  "tls_live [] = []"
| "tls_live (Ev_ssl_ctx_new p # tr) = p # tls_live tr"
| "tls_live (Ev_ssl_new p # tr) = p # tls_live tr"
| "tls_live (Ev_bio_new p # tr) = p # tls_live tr"
| "tls_live (Ev_ssl_ctx_free p # tr) = remove1 p (tls_live tr)"
| "tls_live (Ev_ssl_free p # tr) = remove1 p (tls_live tr)"
| "tls_live (Ev_bio_free p # tr) = remove1 p (tls_live tr)"
| "tls_live (Ev_set_bio p r w # tr) = remove1 r (remove1 w (tls_live tr))"
| "tls_live (_ # tr) = tls_live tr"

lemma map_remove_sqe: "map sqe_user_data (remove_sqe p es) = remove1 p (map sqe_user_data es)"
  by (induction es) auto

lemma set_remove_sqe: "set (remove_sqe p es) \<subseteq> set es"
  by (induction es) auto

lemma remove_sqe_gone:
  "distinct (map sqe_user_data es) \<Longrightarrow> set (remove_sqe p es) = {e \<in> set es. sqe_user_data e \<noteq> p}"
proof (induction es)
  case (Cons a es)
  then show ?case by (auto split: if_splits) (metis image_eqI)
qed simp

lemma outstanding_prep [simp]: "outstanding (Ev_prep e # tr) = sqe_user_data e # outstanding tr"
  by (simp add: outstanding_def)

lemma outstanding_cqe [simp]:
  "outstanding (Ev_cqe p f # tr) = (if has_more f then outstanding tr else remove1 p (outstanding tr))"
  by (simp add: outstanding_def map_remove_sqe)

lemma buffer_id_bound: "buffer_id f < 65536"
proof -
  have "unat f < 2 ^ 32"
    using unsigned_less [of f] by simp
  then have "unat f div 2 ^ 16 < 2 ^ 16"
    by (simp add: less_mult_imp_div_less)
  then show ?thesis
    by (simp add: buffer_id_def IORING_CQE_BUFFER_SHIFT_def drop_bit_eq_div unat_div)
qed

section \<open>liburing\<close>

text \<open>
  \<open>get_sqe\<close> says whether an entry was free; \<open>wait_cqe_timeout\<close> and \<open>peek_cqe\<close> return the
  result code and the entry; the \<open>recvmsg_*\<close> accessors read the layout of a multishot
  recvmsg buffer (offsets from its start).
\<close>

record 'k liburing =
  queue_init_params :: "int \<Rightarrow> int \<Rightarrow> 'k \<Rightarrow> int \<times> 'k"
  setup_buf_ring :: "int \<Rightarrow> int \<Rightarrow> 'k \<Rightarrow> bool \<times> 'k"
  buf_ring_add :: "nat \<Rightarrow> nat \<Rightarrow> nat \<Rightarrow> 'k \<Rightarrow> 'k"
  buf_ring_advance :: "nat \<Rightarrow> 'k \<Rightarrow> 'k"
  free_buf_ring :: "int \<Rightarrow> int \<Rightarrow> 'k \<Rightarrow> int \<times> 'k"
  get_sqe :: "'k \<Rightarrow> bool \<times> 'k"
  prep :: "sqe \<Rightarrow> 'k \<Rightarrow> 'k"
  submit :: "'k \<Rightarrow> int \<times> 'k"
  wait_cqe_timeout :: "'k \<Rightarrow> (int \<times> cqe) \<times> 'k"
  peek_cqe :: "'k \<Rightarrow> (int \<times> cqe) \<times> 'k"
  cqe_seen :: "'k \<Rightarrow> 'k"
  queue_exit :: "'k \<Rightarrow> 'k"
  recvmsg_validate :: "byte list \<Rightarrow> int \<Rightarrow> msghdr \<Rightarrow> bool"
  recvmsg_name :: "byte list \<Rightarrow> nat option"
  recvmsg_namelen :: "byte list \<Rightarrow> nat"
  recvmsg_payload :: "byte list \<Rightarrow> msghdr \<Rightarrow> nat option"
  recvmsg_payload_length :: "byte list \<Rightarrow> int \<Rightarrow> msghdr \<Rightarrow> int"

text \<open>\<^verbatim>\<open>ETIME\<close> and \<^verbatim>\<open>EAGAIN\<close> of Linux.\<close>

definition ETIME :: int where
  "ETIME = 62"

definition EAGAIN :: int where
  "EAGAIN = 11"

section \<open>libc and system calls\<close>

text \<open>
  Interface requests made with \<^verbatim>\<open>ioctl\<close>: the interface name and the value of the union. The
  kernel answers with a result and may fill in name and flags.
\<close>

datatype ifreq =
    TUNSETIFF string "16 word"
  | SIOCSIFADDR string "byte list"
  | SIOCSIFNETMASK string "byte list"
  | SIOCSIFMTU string int
  | SIOCGIFFLAGS string
  | SIOCSIFFLAGS string "16 word"

record ifreply =
  ifr_rc :: int
  ifr_name :: string
  ifr_flags :: "16 word"

text \<open>
  \<open>sys_socket\<close> and \<open>sys_open_tun\<close> return a descriptor, \<open>sys_getaddrinfo\<close> a result code and an address,
  \<open>sys_fopen\<close> whether the file could be opened. \<open>inet_pton4\<close> parses a dotted address, \<open>sig_running\<close> is the
  flag the signal handler clears, \<open>sys_time\<close> the clock.
\<close>

record 'k posix =
  calloc_ok :: "'k \<Rightarrow> bool \<times> 'k"
  memalign_ok :: "'k \<Rightarrow> bool \<times> 'k"
  sig_running :: "'k \<Rightarrow> bool"
  sys_socket :: "'k \<Rightarrow> int \<times> 'k"
  sys_bind :: "int \<Rightarrow> byte list \<Rightarrow> 'k \<Rightarrow> int \<times> 'k"
  sys_getfl :: "int \<Rightarrow> 'k \<Rightarrow> int \<times> 'k"
  sys_setfl :: "int \<Rightarrow> int \<Rightarrow> 'k \<Rightarrow> int \<times> 'k"
  sys_setsockopt :: "int \<Rightarrow> int \<Rightarrow> int \<Rightarrow> 'k \<Rightarrow> int \<times> 'k"
  sys_close :: "int \<Rightarrow> 'k \<Rightarrow> 'k"
  sys_getaddrinfo :: "string \<Rightarrow> string \<Rightarrow> 'k \<Rightarrow> (int \<times> byte list) \<times> 'k"
  inet_pton4 :: "string \<Rightarrow> byte list option"
  sys_open_tun :: "'k \<Rightarrow> int \<times> 'k"
  sys_ioctl :: "int \<Rightarrow> ifreq \<Rightarrow> 'k \<Rightarrow> ifreply \<times> 'k"
  sys_fopen :: "string \<Rightarrow> 'k \<Rightarrow> bool \<times> 'k"
  sys_fprintf :: "string \<Rightarrow> 'k \<Rightarrow> int \<times> 'k"
  sys_fclose :: "'k \<Rightarrow> 'k"
  sys_time :: "'k \<Rightarrow> int \<times> 'k"

section \<open>The base state\<close>

text \<open>External state, trace, and the next unused heap address.\<close>

record 'k base_state =
  kw :: 'k
  trace :: "event list"
  next_addr :: ptr

definition log_ev :: "event \<Rightarrow> (('k, 'z) base_state_scheme, unit) prog" where
  "log_ev e = modify (\<lambda>s. s\<lparr>trace := e # trace s\<rparr>)"

definition kcall :: "('k \<Rightarrow> 'a \<times> 'k) \<Rightarrow> (('k, 'z) base_state_scheme, 'a) prog" where
  "kcall f = ext_call kw (\<lambda>w s. s\<lparr>kw := w\<rparr>) f"

definition kdo :: "('k \<Rightarrow> 'k) \<Rightarrow> (('k, 'z) base_state_scheme, unit) prog" where
  "kdo f = modify (\<lambda>s. s\<lparr>kw := f (kw s)\<rparr>)"

lemma exec_base [exec_simps]:
  "log_ev e s = Inr ((), s\<lparr>trace := e # trace s\<rparr>)"
  "kcall f s = (let (a, w) = f (kw s) in Inr (a, s\<lparr>kw := w\<rparr>))"
  "kdo g s = Inr ((), s\<lparr>kw := g (kw s)\<rparr>)"
  by (simp_all add: log_ev_def kcall_def kdo_def exec_simps)

lemma wp_base [wp_simps]:
  "wp (log_ev e) Q = (\<lambda>s. Q () (s\<lparr>trace := e # trace s\<rparr>))"
  "wp (kcall f) P = (\<lambda>s. case f (kw s) of (a, w) \<Rightarrow> P a (s\<lparr>kw := w\<rparr>))"
  "wp (kdo g) R = (\<lambda>s. R () (s\<lparr>kw := g (kw s)\<rparr>))"
  by (simp_all add: log_ev_def kcall_def kdo_def wp_simps)

end
