(* ===== verification/Uring_Pool.thy ===== *)
theory Uring_Pool
  imports Machine
begin

text \<open>
  \<^verbatim>\<open>include/iouring.h\<close> (the structures) and the two free pools of \<^verbatim>\<open>src/iouring.c\<close>: the pool of
  I/O operations and the pool of data-and-address buffers, both singly linked lists through
  the \<^verbatim>\<open>next\<close> field of the pooled objects. Each C structure is a record, each kind of object
  has its own heap. The contract the two pools share is the locale \<open>free_pool\<close> (a LIFO of
  cells), their construction and destruction loops are \<open>pool_builder\<close> and \<open>pool_destroyer\<close>;
  both pools interpret all three.
\<close>

section \<open>Structures and state\<close>

definition BUF_SIZE :: nat where
  "BUF_SIZE = 1600"

text \<open>\<^verbatim>\<open>sizeof(struct sockaddr_storage)\<close> on Linux.\<close>

definition SOCKADDR_STORAGE :: nat where
  "SOCKADDR_STORAGE = 128"

definition DO_NOT_FREE :: int where
  "DO_NOT_FREE = -2"

definition OP_TYPE_TUN_READ :: int where
  "OP_TYPE_TUN_READ = 1"

definition OP_TYPE_TUN_WRITE :: int where
  "OP_TYPE_TUN_WRITE = 2"

definition OP_TYPE_UDP_RECV :: int where
  "OP_TYPE_UDP_RECV = 3"

definition OP_TYPE_UDP_SEND :: int where
  "OP_TYPE_UDP_SEND = 4"

lemmas op_type_defs =
  OP_TYPE_TUN_READ_def OP_TYPE_TUN_WRITE_def OP_TYPE_UDP_RECV_def OP_TYPE_UDP_SEND_def

record buf_addr =
  ba_buf :: "byte list"
  ba_addr :: "byte list"
  ba_next :: ptr

record io_op =
  op_type :: int
  op_fd :: int
  is_multi :: bool
  op_buffer :: mptr
  data_len :: int
  buf_idx :: int
  op_buf_addr :: ptr
  op_msg :: msghdr
  op_iov :: iovec
  op_addr :: mptr
  op_addr_len :: nat
  op_next :: ptr

record iouring_config =
  sq_depth :: int
  cq_depth :: int
  br_gid :: int
  br_n_bufs :: int
  n_io_ops :: int
  n_initial_recv_ops :: int
  n_initial_read_ops :: int

text \<open>\<open>br_bufs\<close> is the block of ring buffers (\<open>None\<close> for NULL), \<open>br\<close> whether the ring exists.\<close>

record iouring_ctx =
  config :: iouring_config
  io_op_pool :: ptr
  buf_addr_pool :: ptr
  br_bufs :: "byte list option"
  br :: bool
  multi_recv_rearmed :: int

record 'k uring_state = "'k base_state" +
  ctx_heap :: "ptr \<rightharpoonup> iouring_ctx"
  op_heap :: "ptr \<rightharpoonup> io_op"
  buf_heap :: "ptr \<rightharpoonup> buf_addr"

text \<open>What \<^verbatim>\<open>calloc\<close> returns: every field zero.\<close>

definition zero_op :: io_op where
  "zero_op = \<lparr>op_type = 0, op_fd = 0, is_multi = False, op_buffer = MNull, data_len = 0,
     buf_idx = 0, op_buf_addr = NULL,
     op_msg = \<lparr>msg_name = MNull, msg_namelen = 0, msg_iov = NULL, msg_iovlen = 0\<rparr>,
     op_iov = \<lparr>iov_base = MNull, iov_len = 0\<rparr>, op_addr = MNull, op_addr_len = 0, op_next = NULL\<rparr>"

definition zero_buf_addr :: buf_addr where
  "zero_buf_addr = \<lparr>ba_buf = replicate BUF_SIZE 0, ba_addr = replicate SOCKADDR_STORAGE 0,
     ba_next = NULL\<rparr>"

section \<open>Heap primitives\<close>

definition upd_ctx :: "ptr \<Rightarrow> (iouring_ctx \<Rightarrow> iouring_ctx) \<Rightarrow> (('k, 'z) uring_state_scheme, unit) prog" where
  "upd_ctx p f = bnd (load ctx_heap p) (\<lambda>c. modify (\<lambda>s. s\<lparr>ctx_heap := (ctx_heap s)(p \<mapsto> f c)\<rparr>))"

definition upd_op :: "ptr \<Rightarrow> (io_op \<Rightarrow> io_op) \<Rightarrow> (('k, 'z) uring_state_scheme, unit) prog" where
  "upd_op p f = bnd (load op_heap p) (\<lambda>r. modify (\<lambda>s. s\<lparr>op_heap := (op_heap s)(p \<mapsto> f r)\<rparr>))"

definition upd_buf :: "ptr \<Rightarrow> (buf_addr \<Rightarrow> buf_addr) \<Rightarrow> (('k, 'z) uring_state_scheme, unit) prog" where
  "upd_buf p f = bnd (load buf_heap p) (\<lambda>r. modify (\<lambda>s. s\<lparr>buf_heap := (buf_heap s)(p \<mapsto> f r)\<rparr>))"

text \<open>\<^verbatim>\<open>calloc(1, sizeof(...))\<close>: NULL, or a fresh zeroed object.\<close>

definition calloc_op :: "'k posix \<Rightarrow> (('k, 'z) uring_state_scheme, ptr) prog" where
  "calloc_op P = bnd (kcall (calloc_ok P)) (\<lambda>ok. if \<not> ok then ret NULL else
     bnd (gets next_addr) (\<lambda>a.
     bnd (modify (\<lambda>s. s\<lparr>next_addr := Suc a, op_heap := (op_heap s)(a \<mapsto> zero_op)\<rparr>)) (\<lambda>_.
     ret a)))"

definition calloc_buf_addr :: "'k posix \<Rightarrow> (('k, 'z) uring_state_scheme, ptr) prog" where
  "calloc_buf_addr P = bnd (kcall (calloc_ok P)) (\<lambda>ok. if \<not> ok then ret NULL else
     bnd (gets next_addr) (\<lambda>a.
     bnd (modify (\<lambda>s. s\<lparr>next_addr := Suc a, buf_heap := (buf_heap s)(a \<mapsto> zero_buf_addr)\<rparr>)) (\<lambda>_.
     ret a)))"

text \<open>\<^verbatim>\<open>free(p)\<close>; \<^verbatim>\<open>free(NULL)\<close> does nothing.\<close>

definition free_op :: "ptr \<Rightarrow> (('k, 'z) uring_state_scheme, unit) prog" where
  "free_op p = (if p = NULL then ret () else
     bnd (load op_heap p) (\<lambda>_.
     bnd (modify (\<lambda>s. s\<lparr>op_heap := (op_heap s)(p := None)\<rparr>)) (\<lambda>_.
     log_ev (Ev_free p))))"

definition free_buf_addr :: "ptr \<Rightarrow> (('k, 'z) uring_state_scheme, unit) prog" where
  "free_buf_addr p = (if p = NULL then ret () else
     bnd (load buf_heap p) (\<lambda>_.
     bnd (modify (\<lambda>s. s\<lparr>buf_heap := (buf_heap s)(p := None)\<rparr>)) (\<lambda>_.
     log_ev (Ev_free p))))"

lemma wp_upd [wp_simps]:
  "wp (upd_ctx p f) Q = (\<lambda>s. p \<noteq> NULL \<and> (\<exists>c. ctx_heap s p = Some c \<and> Q () (s\<lparr>ctx_heap := (ctx_heap s)(p \<mapsto> f c)\<rparr>)))"
  "wp (upd_op p g) Q = (\<lambda>s. p \<noteq> NULL \<and> (\<exists>c. op_heap s p = Some c \<and> Q () (s\<lparr>op_heap := (op_heap s)(p \<mapsto> g c)\<rparr>)))"
  "wp (upd_buf p h) Q = (\<lambda>s. p \<noteq> NULL \<and> (\<exists>c. buf_heap s p = Some c \<and> Q () (s\<lparr>buf_heap := (buf_heap s)(p \<mapsto> h c)\<rparr>)))"
  by (simp_all add: upd_ctx_def upd_op_def upd_buf_def wp_simps)

lemmas exec_upd [exec_simps] =
  fun_cong [OF upd_ctx_def] fun_cong [OF upd_op_def] fun_cong [OF upd_buf_def]
  calloc_op_def calloc_buf_addr_def free_op_def free_buf_addr_def

section \<open>The operation pool\<close>

fun iouring_alloc_io_op_pool_loop ::
  "'k posix \<Rightarrow> ptr \<Rightarrow> nat \<Rightarrow> ptr \<Rightarrow> (('k, 'z) uring_state_scheme, int) prog" where
  "iouring_alloc_io_op_pool_loop P ctx 0 prev = ret 0"
| "iouring_alloc_io_op_pool_loop P ctx (Suc n) prev =
     bnd (calloc_op P) (\<lambda>op.
     if op = NULL then ret (-1) else
     bnd (if prev \<noteq> NULL then upd_op prev (\<lambda>r. r\<lparr>op_next := op\<rparr>)
          else upd_ctx ctx (\<lambda>c. c\<lparr>io_op_pool := op\<rparr>)) (\<lambda>_.
     iouring_alloc_io_op_pool_loop P ctx n op))"

definition iouring_alloc_io_op_pool ::
  "'k posix \<Rightarrow> ptr \<Rightarrow> int \<Rightarrow> (('k, 'z) uring_state_scheme, int) prog" where
  "iouring_alloc_io_op_pool P ctx n_ops = iouring_alloc_io_op_pool_loop P ctx (nat n_ops) NULL"

text \<open>
  The freeing loops run at most once per allocated object, so the number of addresses handed
  out so far bounds them; past that bound every object is gone and the pointer dangles.
\<close>

fun iouring_free_io_op_pool_loop :: "nat \<Rightarrow> ptr \<Rightarrow> (('k, 'z) uring_state_scheme, unit) prog" where
  "iouring_free_io_op_pool_loop 0 op = (if op = NULL then ret () else throwf Bad_pointer)"
| "iouring_free_io_op_pool_loop (Suc n) op =
     (if op = NULL then ret () else
      bnd (load op_heap op) (\<lambda>r.
      bnd (free_op op) (\<lambda>_.
      iouring_free_io_op_pool_loop n (op_next r))))"

definition iouring_free_io_op_pool :: "ptr \<Rightarrow> (('k, 'z) uring_state_scheme, unit) prog" where
  "iouring_free_io_op_pool ctx =
     bnd (load ctx_heap ctx) (\<lambda>c.
     bnd (gets next_addr) (\<lambda>n.
     bnd (iouring_free_io_op_pool_loop n (io_op_pool c)) (\<lambda>_.
     upd_ctx ctx (\<lambda>c. c\<lparr>io_op_pool := NULL\<rparr>))))"

definition iouring_get_io_op :: "ptr \<Rightarrow> (('k, 'z) uring_state_scheme, ptr) prog" where
  "iouring_get_io_op ctx =
     bnd (load ctx_heap ctx) (\<lambda>c.
     let op = io_op_pool c in
     if op = NULL then ret NULL else
     bnd (load op_heap op) (\<lambda>r.
     bnd (upd_ctx ctx (\<lambda>c. c\<lparr>io_op_pool := op_next r\<rparr>)) (\<lambda>_.
     bnd (upd_op op (\<lambda>_. zero_op)) (\<lambda>_.
     bnd (upd_op op (\<lambda>r. r\<lparr>buf_idx := -1\<rparr>)) (\<lambda>_.
     ret op)))))"

definition iouring_put_io_op :: "ptr \<Rightarrow> ptr \<Rightarrow> (('k, 'z) uring_state_scheme, unit) prog" where
  "iouring_put_io_op ctx op =
     bnd (load ctx_heap ctx) (\<lambda>c.
     bnd (upd_op op (\<lambda>r. r\<lparr>op_next := io_op_pool c\<rparr>)) (\<lambda>_.
     upd_ctx ctx (\<lambda>c. c\<lparr>io_op_pool := op\<rparr>)))"

section \<open>The buffer pool\<close>

fun iouring_alloc_buf_addr_pool_loop ::
  "'k posix \<Rightarrow> ptr \<Rightarrow> nat \<Rightarrow> ptr \<Rightarrow> (('k, 'z) uring_state_scheme, int) prog" where
  "iouring_alloc_buf_addr_pool_loop P ctx 0 prev = ret 0"
| "iouring_alloc_buf_addr_pool_loop P ctx (Suc n) prev =
     bnd (calloc_buf_addr P) (\<lambda>buf_addr.
     if buf_addr = NULL then ret (-1) else
     bnd (if prev \<noteq> NULL then upd_buf prev (\<lambda>r. r\<lparr>ba_next := buf_addr\<rparr>)
          else upd_ctx ctx (\<lambda>c. c\<lparr>buf_addr_pool := buf_addr\<rparr>)) (\<lambda>_.
     iouring_alloc_buf_addr_pool_loop P ctx n buf_addr))"

definition iouring_alloc_buf_addr_pool ::
  "'k posix \<Rightarrow> ptr \<Rightarrow> int \<Rightarrow> (('k, 'z) uring_state_scheme, int) prog" where
  "iouring_alloc_buf_addr_pool P ctx n_bufs = iouring_alloc_buf_addr_pool_loop P ctx (nat n_bufs) NULL"

fun iouring_free_buf_addr_pool_loop :: "nat \<Rightarrow> ptr \<Rightarrow> (('k, 'z) uring_state_scheme, unit) prog" where
  "iouring_free_buf_addr_pool_loop 0 buf_addr = (if buf_addr = NULL then ret () else throwf Bad_pointer)"
| "iouring_free_buf_addr_pool_loop (Suc n) buf_addr =
     (if buf_addr = NULL then ret () else
      bnd (load buf_heap buf_addr) (\<lambda>r.
      bnd (free_buf_addr buf_addr) (\<lambda>_.
      iouring_free_buf_addr_pool_loop n (ba_next r))))"

definition iouring_free_buf_addr_pool :: "ptr \<Rightarrow> (('k, 'z) uring_state_scheme, unit) prog" where
  "iouring_free_buf_addr_pool ctx =
     bnd (load ctx_heap ctx) (\<lambda>c.
     bnd (gets next_addr) (\<lambda>n.
     bnd (iouring_free_buf_addr_pool_loop n (buf_addr_pool c)) (\<lambda>_.
     upd_ctx ctx (\<lambda>c. c\<lparr>buf_addr_pool := NULL\<rparr>))))"

definition iouring_get_buf_addr :: "ptr \<Rightarrow> (('k, 'z) uring_state_scheme, ptr) prog" where
  "iouring_get_buf_addr ctx =
     bnd (load ctx_heap ctx) (\<lambda>c.
     let buf_addr = buf_addr_pool c in
     if buf_addr = NULL then ret NULL else
     bnd (load buf_heap buf_addr) (\<lambda>r.
     bnd (upd_ctx ctx (\<lambda>c. c\<lparr>buf_addr_pool := ba_next r\<rparr>)) (\<lambda>_.
     bnd (upd_buf buf_addr (\<lambda>r. r\<lparr>ba_next := NULL\<rparr>)) (\<lambda>_.
     ret buf_addr))))"

definition iouring_put_buf_addr :: "ptr \<Rightarrow> ptr \<Rightarrow> (('k, 'z) uring_state_scheme, unit) prog" where
  "iouring_put_buf_addr ctx buf_addr =
     bnd (load ctx_heap ctx) (\<lambda>c.
     bnd (upd_buf buf_addr (\<lambda>r. r\<lparr>ba_next := buf_addr_pool c\<rparr>)) (\<lambda>_.
     upd_ctx ctx (\<lambda>c. c\<lparr>buf_addr_pool := buf_addr\<rparr>)))"

section \<open>The contract of a free pool\<close>

text \<open>
  A pool is a linked list of cells: \<open>nx\<close> reads the next-pointers of the allocated cells,
  \<open>head\<close> the first free cell. \<open>get\<close> unlinks the first cell and clears its next-pointer, or
  answers NULL; \<open>put\<close> links a cell in front.
\<close>

locale free_pool =
  fixes ok :: "'s \<Rightarrow> bool" and nx :: "'s \<Rightarrow> ptr \<rightharpoonup> ptr" and head :: "'s \<Rightarrow> ptr"
    and get :: "('s, ptr) prog" and put :: "ptr \<Rightarrow> ('s, unit) prog"
  assumes get_none: "ok s \<Longrightarrow> head s = NULL \<Longrightarrow> get s = Inr (NULL, s)"
    and get_some: "ok s \<Longrightarrow> head s = p \<Longrightarrow> p \<noteq> NULL \<Longrightarrow> nx s p = Some q \<Longrightarrow>
      wp get (\<lambda>r s'. r = p \<and> ok s' \<and> head s' = q \<and> nx s' = (nx s)(p \<mapsto> NULL)) s"
    and put_cell: "ok s \<Longrightarrow> p \<noteq> NULL \<Longrightarrow> nx s p \<noteq> None \<Longrightarrow>
      wp (put p) (\<lambda>_ s'. ok s' \<and> head s' = p \<and> nx s' = (nx s)(p \<mapsto> head s)) s"
begin

lemma get_empty: "ok s \<Longrightarrow> chain (nx s) (head s) [] \<Longrightarrow> get s = Inr (NULL, s)"
  by (simp add: get_none)

text \<open>\<open>get\<close> takes the first cell of the list.\<close>

lemma get_chain:
  assumes "ok s" and "chain (nx s) (head s) (p # ps)"
  shows "wp get (\<lambda>r s'. r = p \<and> ok s' \<and> chain (nx s') (head s') ps \<and> dom (nx s') = dom (nx s)) s"
proof -
  from assms(2) obtain q where q: "head s = p" "p \<noteq> NULL" "nx s p = Some q" "chain (nx s) q ps"
    by auto
  from assms(2) have "p \<notin> set ps" by (metis chain.simps(2) chain_not_in_tail)
  with q have c: "chain ((nx s)(p \<mapsto> NULL)) q ps" by simp
  show ?thesis
    by (rule wp_conseq [OF get_some [OF assms(1) q(1-3)]]) (use q c in auto)
qed

text \<open>\<open>put\<close> puts a cell that is not in the list in front of it.\<close>

lemma put_chain:
  assumes "ok s" and "chain (nx s) (head s) ps" and "p \<noteq> NULL" and "p \<in> dom (nx s)" and "p \<notin> set ps"
  shows "wp (put p) (\<lambda>_ s'. ok s' \<and> chain (nx s') (head s') (p # ps) \<and> dom (nx s') = dom (nx s)) s"
proof -
  from assms(4) have "nx s p \<noteq> None" by auto
  from put_cell [OF assms(1) assms(3) this] show ?thesis
    by (rule wp_conseq) (use assms in auto)
qed

text \<open>A cell that is put back is the next one handed out, and the list is as before.\<close>

lemma put_get:
  assumes "ok s" and "chain (nx s) (head s) ps" and "p \<noteq> NULL" and "p \<in> dom (nx s)" and "p \<notin> set ps"
  shows "wp (bnd (put p) (\<lambda>_. get)) (\<lambda>r s'. r = p \<and> ok s' \<and> chain (nx s') (head s') ps) s"
  unfolding wp_bnd
proof (rule wp_conseq [OF put_chain [OF assms]])
  fix s'
  assume "ok s' \<and> chain (nx s') (head s') (p # ps) \<and> dom (nx s') = dom (nx s)"
  then show "wp get (\<lambda>r s'. r = p \<and> ok s' \<and> chain (nx s') (head s') ps) s'"
    by (intro wp_conseq [OF get_chain]) auto
qed

end

text \<open>
  The construction loop: allocate a cell, link it behind the previous one (the first one
  becomes the head), go on; stop with -1 when memory runs out.
\<close>

locale pool_builder =
  fixes ok :: "'s \<Rightarrow> bool" and nx :: "'s \<Rightarrow> ptr \<rightharpoonup> ptr" and head :: "'s \<Rightarrow> ptr" and fresh :: "'s \<Rightarrow> ptr"
    and alloc :: "('s, ptr) prog" and link_first :: "ptr \<Rightarrow> ('s, unit) prog"
    and link_after :: "ptr \<Rightarrow> ptr \<Rightarrow> ('s, unit) prog" and loop :: "nat \<Rightarrow> ptr \<Rightarrow> ('s, int) prog"
  assumes loop_0: "loop 0 prev = ret 0"
    and loop_Suc: "loop (Suc n) prev = bnd alloc (\<lambda>p. if p = NULL then ret (-1) else
      bnd (if prev \<noteq> NULL then link_after prev p else link_first p) (\<lambda>_. loop n p))"
    and alloc_cell: "ok s \<Longrightarrow> wp alloc (\<lambda>p s'. ok s' \<and> head s' = head s \<and>
      (p = NULL \<and> nx s' = nx s \<and> fresh s' = fresh s \<or>
       p = fresh s \<and> nx s' = (nx s)(p \<mapsto> NULL) \<and> fresh s' = Suc p)) s"
    and link_first: "ok s \<Longrightarrow> wp (link_first p) (\<lambda>_ s'. ok s' \<and> head s' = p \<and> nx s' = nx s \<and>
      fresh s' = fresh s) s"
    and link_after: "ok s \<Longrightarrow> prev \<noteq> NULL \<Longrightarrow> nx s prev \<noteq> None \<Longrightarrow> wp (link_after prev p)
      (\<lambda>_ s'. ok s' \<and> head s' = head s \<and> nx s' = (nx s)(prev \<mapsto> p) \<and> fresh s' = fresh s) s"
begin

text \<open>One round of the loop appends one cell to the \<open>k\<close> cells built so far.\<close>

lemma build_step:
  assumes "ok s" and "a \<noteq> NULL" and "chain (nx s) (head s) [a..<a + k]" and "fresh s = Suc (a + k)"
    and "nx s (a + k) = Some NULL" and "prev = (if k = 0 then NULL else a + k - 1)"
  shows "wp (if prev \<noteq> NULL then link_after prev (a + k) else link_first (a + k))
    (\<lambda>_ s'. ok s' \<and> chain (nx s') (head s') [a..<a + Suc k] \<and> fresh s' = a + Suc k \<and> dom (nx s') = dom (nx s)) s"
proof (cases k)
  case 0
  then show ?thesis using assms
    by (auto intro!: wp_conseq [OF link_first [OF assms(1)]])
next
  case (Suc j)
  from assms Suc have c: "chain (nx s) (head s) ([a..<a + j] @ [a + j])" by simp
  have "a + j \<in> dom (nx s)" using chain_dom [OF c] by auto
  then have d: "nx s prev \<noteq> None" "prev \<noteq> NULL" using assms Suc by auto
  have c': "chain ((nx s)(a + j \<mapsto> a + k)) (head s) ([a..<a + j] @ [a + j, a + k])"
    by (rule chain_snoc [OF c]) (use assms Suc in auto)
  have "wp (link_after prev (a + k))
      (\<lambda>_ s'. ok s' \<and> chain (nx s') (head s') [a..<a + Suc k] \<and> fresh s' = a + Suc k \<and> dom (nx s') = dom (nx s)) s"
    by (rule wp_conseq [OF link_after [OF assms(1) d(2) d(1)]]) (use c' assms Suc d in auto)
  then show ?thesis using d(2) by simp
qed

lemma build_loop:
  assumes "ok s" and "a \<noteq> NULL" and "chain (nx s) (head s) [a..<a + k]" and "fresh s = a + k"
    and "prev = (if k = 0 then NULL else a + k - 1)"
  shows "wp (loop n prev) (\<lambda>r s'. ok s' \<and> (\<exists>m \<le> n. chain (nx s') (head s') [a..<a + k + m] \<and>
    fresh s' = a + k + m \<and> dom (nx s') = dom (nx s) \<union> {a + k..<a + k + m} \<and>
    (r = 0 \<and> m = n \<or> r = -1 \<and> m < n))) s"
  using assms
proof (induction n arbitrary: s k prev)
  case 0
  then show ?case by (simp add: loop_0 wp_simps)
next
  case (Suc n)
  let ?post = "\<lambda>r s'. ok s' \<and> (\<exists>m \<le> Suc n. chain (nx s') (head s') [a..<a + k + m] \<and>
    fresh s' = a + k + m \<and> dom (nx s') = dom (nx s) \<union> {a + k..<a + k + m} \<and>
    (r = 0 \<and> m = Suc n \<or> r = -1 \<and> m < Suc n))"
  show ?case
    unfolding loop_Suc wp_bnd
  proof (rule wp_conseq [OF alloc_cell [OF Suc.prems(1)]], goal_cases)
    case (1 p s1)
    show ?case
    proof (cases "p = NULL")
      case True
      with 1 Suc.prems show ?thesis by (auto simp: wp_simps)
    next
      case False
      with 1 Suc.prems have p: "p = a + k" and ok1: "ok s1" and h: "head s1 = head s"
        and n1: "nx s1 = (nx s)(a + k \<mapsto> NULL)" and f: "fresh s1 = Suc (a + k)" by auto
      have c1: "chain (nx s1) (head s1) [a..<a + k]" using Suc.prems(3) by (simp add: n1 h)
      have "nx s1 (a + k) = Some NULL" by (simp add: n1)
      note step = build_step [OF ok1 Suc.prems(2) c1 f this Suc.prems(5)]
      have rest: "wp (loop n (a + k)) ?post s2"
        if s2: "ok s2 \<and> chain (nx s2) (head s2) [a..<a + Suc k] \<and> fresh s2 = a + Suc k \<and> dom (nx s2) = dom (nx s1)" for s2
      proof (rule wp_conseq [OF Suc.IH [of s2 "Suc k"]], goal_cases)
        case (6 r s')
        then obtain m where m: "m \<le> n" "chain (nx s') (head s') [a..<a + Suc k + m]" "fresh s' = a + Suc k + m"
          "dom (nx s') = dom (nx s2) \<union> {a + Suc k..<a + Suc k + m}" "r = 0 \<and> m = n \<or> r = -1 \<and> m < n" "ok s'"
          by auto
        have "dom (nx s') = dom (nx s) \<union> {a + k..<a + k + Suc m}" using m(4) s2 n1 by auto
        then show ?case using m by (intro conjI exI [of _ "Suc m"]) auto
      qed (use s2 Suc.prems(2) in auto)
      have "wp (bnd (if prev \<noteq> NULL then link_after prev p else link_first p) (\<lambda>_. loop n p)) ?post s1"
        unfolding wp_bnd p by (rule wp_conseq [OF step rest])
      then show ?thesis using False by simp
    qed
  qed
qed

text \<open>
  From an empty pool: success with \<open>n\<close> fresh cells in allocation order, or -1 with the cells
  built before memory ran out.
\<close>

lemma build_pool:
  assumes "ok s" and "head s = NULL" and "fresh s = a" and "a \<noteq> NULL"
  shows "wp (loop n NULL) (\<lambda>r s'. ok s' \<and> (\<exists>m \<le> n. chain (nx s') (head s') [a..<a + m] \<and>
    fresh s' = a + m \<and> dom (nx s') = dom (nx s) \<union> {a..<a + m} \<and> (r = 0 \<and> m = n \<or> r = -1 \<and> m < n))) s"
  using build_loop [of s a 0 NULL n] assms by simp

end

text \<open>The destruction loop: free every cell of the list; \<open>rest\<close> is the state it does not touch.\<close>

locale pool_destroyer =
  fixes nx :: "'s \<Rightarrow> ptr \<rightharpoonup> ptr" and rest :: "'s \<Rightarrow> 'r" and loop :: "nat \<Rightarrow> ptr \<Rightarrow> ('s, unit) prog"
    and free1 :: "ptr \<Rightarrow> ('s, unit) prog"
  assumes end_loop: "loop n NULL = ret ()"
    and step_loop: "p \<noteq> NULL \<Longrightarrow> nx s p = Some q \<Longrightarrow>
      wp (loop (Suc n) p) Q s = wp (free1 p) (\<lambda>_. wp (loop n q) Q) s"
    and free_cell: "p \<noteq> NULL \<Longrightarrow> nx s p \<noteq> None \<Longrightarrow>
      wp (free1 p) (\<lambda>_ s'. nx s' = (nx s)(p := None) \<and> rest s' = rest s) s"
begin

lemma destroy_chain:
  "chain (nx s) p ps \<Longrightarrow> length ps \<le> n \<Longrightarrow> wp (loop n p) (\<lambda>_ s'. nx s' = nx s |` (- set ps) \<and> rest s' = rest s) s"
proof (induction ps arbitrary: s p n)
  case Nil
  then show ?case by (simp add: end_loop wp_simps)
next
  case (Cons x xs)
  then obtain m where n: "n = Suc m" "length xs \<le> m" by (cases n) auto
  from Cons.prems obtain q where q: "p = x" "x \<noteq> NULL" "nx s x = Some q" "chain (nx s) q xs" by auto
  from Cons.prems have x: "x \<notin> set xs" by (metis chain.simps(2) chain_not_in_tail)
  have "wp (loop m q) (\<lambda>_ s'. nx s' = nx s |` (- set (x # xs)) \<and> rest s' = rest s) s1"
    if s1: "nx s1 = (nx s)(x := None) \<and> rest s1 = rest s" for s1
  proof (rule wp_conseq [OF Cons.IH])
    show "chain (nx s1) q xs" using q(4) x by (simp add: s1)
    show "nx s' = nx s |` (- set (x # xs)) \<and> rest s' = rest s" if "nx s' = nx s1 |` (- set xs) \<and> rest s' = rest s1" for s'
      using that by (auto simp: s1 restrict_map_def fun_eq_iff)
  qed (rule n(2))
  with free_cell [of x s] q show ?case
    by (auto simp: n(1) step_loop intro: wp_conseq)
qed

end

section \<open>The two pools keep the contract\<close>

definition op_nx :: "('k, 'z) uring_state_scheme \<Rightarrow> ptr \<rightharpoonup> ptr" where
  "op_nx s = (\<lambda>p. map_option op_next (op_heap s p))"

definition buf_nx :: "('k, 'z) uring_state_scheme \<Rightarrow> ptr \<rightharpoonup> ptr" where
  "buf_nx s = (\<lambda>p. map_option ba_next (buf_heap s p))"

definition ctx_ok :: "ptr \<Rightarrow> ('k, 'z) uring_state_scheme \<Rightarrow> bool" where
  "ctx_ok ctx s \<longleftrightarrow> ctx \<noteq> NULL \<and> ctx_heap s ctx \<noteq> None"

definition op_head :: "ptr \<Rightarrow> ('k, 'z) uring_state_scheme \<Rightarrow> ptr" where
  "op_head ctx s = (case ctx_heap s ctx of None \<Rightarrow> NULL | Some c \<Rightarrow> io_op_pool c)"

definition buf_head :: "ptr \<Rightarrow> ('k, 'z) uring_state_scheme \<Rightarrow> ptr" where
  "buf_head ctx s = (case ctx_heap s ctx of None \<Rightarrow> NULL | Some c \<Rightarrow> buf_addr_pool c)"

lemmas pool_defs = op_nx_def buf_nx_def ctx_ok_def op_head_def buf_head_def

lemma op_nx_upd [simp]: "map_option op_next \<circ> OH(p \<mapsto> r) = (map_option op_next \<circ> OH)(p \<mapsto> op_next r)"
  by (auto simp: fun_eq_iff)

lemma nx_comp: "op_nx s = map_option op_next \<circ> op_heap s" "buf_nx s = map_option ba_next \<circ> buf_heap s"
  by (auto simp: op_nx_def buf_nx_def fun_eq_iff)

lemma buf_nx_upd [simp]: "map_option ba_next \<circ> BH(p \<mapsto> r) = (map_option ba_next \<circ> BH)(p \<mapsto> ba_next r)"
  by (auto simp: fun_eq_iff)

text \<open>The whole effect of taking from and returning to the pools.\<close>

lemma get_io_op_exec:
  assumes "ctx \<noteq> NULL" and "ctx_heap s ctx = Some c" and "io_op_pool c = p" and "p \<noteq> NULL"
    and "op_heap s p = Some r"
  shows "iouring_get_io_op ctx s = Inr (p, s\<lparr>ctx_heap := (ctx_heap s)(ctx \<mapsto> c\<lparr>io_op_pool := op_next r\<rparr>),
     op_heap := (op_heap s)(p \<mapsto> zero_op\<lparr>buf_idx := -1\<rparr>)\<rparr>)"
  using assms by (simp add: iouring_get_io_op_def exec_simps Let_def)

lemma put_io_op_exec:
  assumes "ctx \<noteq> NULL" and "ctx_heap s ctx = Some c" and "p \<noteq> NULL" and "op_heap s p = Some r"
  shows "iouring_put_io_op ctx p s = Inr ((), s\<lparr>ctx_heap := (ctx_heap s)(ctx \<mapsto> c\<lparr>io_op_pool := p\<rparr>),
     op_heap := (op_heap s)(p \<mapsto> r\<lparr>op_next := io_op_pool c\<rparr>)\<rparr>)"
  using assms by (simp add: iouring_put_io_op_def exec_simps)

lemma get_buf_addr_exec:
  assumes "ctx \<noteq> NULL" and "ctx_heap s ctx = Some c" and "buf_addr_pool c = p" and "p \<noteq> NULL"
    and "buf_heap s p = Some r"
  shows "iouring_get_buf_addr ctx s = Inr (p, s\<lparr>ctx_heap := (ctx_heap s)(ctx \<mapsto> c\<lparr>buf_addr_pool := ba_next r\<rparr>),
     buf_heap := (buf_heap s)(p \<mapsto> r\<lparr>ba_next := NULL\<rparr>)\<rparr>)"
  using assms by (simp add: iouring_get_buf_addr_def exec_simps Let_def)

lemma put_buf_addr_exec:
  assumes "ctx \<noteq> NULL" and "ctx_heap s ctx = Some c" and "p \<noteq> NULL" and "buf_heap s p = Some r"
  shows "iouring_put_buf_addr ctx p s = Inr ((), s\<lparr>ctx_heap := (ctx_heap s)(ctx \<mapsto> c\<lparr>buf_addr_pool := p\<rparr>),
     buf_heap := (buf_heap s)(p \<mapsto> r\<lparr>ba_next := buf_addr_pool c\<rparr>)\<rparr>)"
  using assms by (simp add: iouring_put_buf_addr_def exec_simps)

interpretation op_pool: free_pool "ctx_ok ctx" op_nx "op_head ctx" "iouring_get_io_op ctx" "iouring_put_io_op ctx"
  for ctx
proof
  fix s :: "('a, 'b) uring_state_scheme"
  assume "ctx_ok ctx s" and "op_head ctx s = NULL"
  then show "iouring_get_io_op ctx s = Inr (NULL, s)"
    by (auto simp: iouring_get_io_op_def exec_simps pool_defs)
next
  fix s :: "('a, 'b) uring_state_scheme" and p q
  assume "ctx_ok ctx s" and "op_head ctx s = p" and "p \<noteq> NULL" and "op_nx s p = Some q"
  then show "wp (iouring_get_io_op ctx)
      (\<lambda>r s'. r = p \<and> ctx_ok ctx s' \<and> op_head ctx s' = q \<and> op_nx s' = (op_nx s)(p \<mapsto> NULL)) s"
    by (auto simp: wp_def pool_defs get_io_op_exec zero_op_def fun_eq_iff split: option.splits)
next
  fix s :: "('a, 'b) uring_state_scheme" and p
  assume "ctx_ok ctx s" and "p \<noteq> NULL" and "op_nx s p \<noteq> None"
  then show "wp (iouring_put_io_op ctx p)
      (\<lambda>_ s'. ctx_ok ctx s' \<and> op_head ctx s' = p \<and> op_nx s' = (op_nx s)(p \<mapsto> op_head ctx s)) s"
    by (auto simp: wp_def pool_defs put_io_op_exec fun_eq_iff)
qed

interpretation buf_pool: free_pool "ctx_ok ctx" buf_nx "buf_head ctx" "iouring_get_buf_addr ctx" "iouring_put_buf_addr ctx"
  for ctx
proof
  fix s :: "('a, 'b) uring_state_scheme"
  assume "ctx_ok ctx s" and "buf_head ctx s = NULL"
  then show "iouring_get_buf_addr ctx s = Inr (NULL, s)"
    by (auto simp: iouring_get_buf_addr_def exec_simps pool_defs)
next
  fix s :: "('a, 'b) uring_state_scheme" and p q
  assume "ctx_ok ctx s" and "buf_head ctx s = p" and "p \<noteq> NULL" and "buf_nx s p = Some q"
  then show "wp (iouring_get_buf_addr ctx)
      (\<lambda>r s'. r = p \<and> ctx_ok ctx s' \<and> buf_head ctx s' = q \<and> buf_nx s' = (buf_nx s)(p \<mapsto> NULL)) s"
    by (auto simp: wp_def pool_defs get_buf_addr_exec fun_eq_iff split: option.splits)
next
  fix s :: "('a, 'b) uring_state_scheme" and p
  assume "ctx_ok ctx s" and "p \<noteq> NULL" and "buf_nx s p \<noteq> None"
  then show "wp (iouring_put_buf_addr ctx p)
      (\<lambda>_ s'. ctx_ok ctx s' \<and> buf_head ctx s' = p \<and> buf_nx s' = (buf_nx s)(p \<mapsto> buf_head ctx s)) s"
    by (auto simp: wp_def pool_defs put_buf_addr_exec fun_eq_iff)
qed

text \<open>
  The builders change the head of their own pool and its cells, nothing else: \<open>op_building\<close> and
  \<open>buf_building\<close> spell out the rest of the state.
\<close>

definition op_building :: "ptr \<Rightarrow> iouring_ctx \<Rightarrow> (ptr \<rightharpoonup> iouring_ctx) \<Rightarrow> (ptr \<rightharpoonup> buf_addr) \<Rightarrow> event list \<Rightarrow> 'z \<Rightarrow>
    ('k, 'z) uring_state_scheme \<Rightarrow> bool" where
  "op_building ctx c h BH tr z s \<longleftrightarrow> ctx \<noteq> NULL \<and> (\<exists>q. ctx_heap s = h(ctx \<mapsto> c\<lparr>io_op_pool := q\<rparr>)) \<and>
     buf_heap s = BH \<and> trace s = tr \<and> uring_state.more s = z"

definition buf_building :: "ptr \<Rightarrow> iouring_ctx \<Rightarrow> (ptr \<rightharpoonup> iouring_ctx) \<Rightarrow> (ptr \<rightharpoonup> io_op) \<Rightarrow> event list \<Rightarrow> 'z \<Rightarrow>
    ('k, 'z) uring_state_scheme \<Rightarrow> bool" where
  "buf_building ctx c h OH tr z s \<longleftrightarrow> ctx \<noteq> NULL \<and> (\<exists>q. ctx_heap s = h(ctx \<mapsto> c\<lparr>buf_addr_pool := q\<rparr>)) \<and>
     op_heap s = OH \<and> trace s = tr \<and> uring_state.more s = z \<and>
     (\<forall>p b. buf_heap s p = Some b \<longrightarrow> length (ba_buf b) = BUF_SIZE \<and> length (ba_addr b) = SOCKADDR_STORAGE)"

interpretation op_builder: pool_builder "op_building ctx c h BH tr z" op_nx "op_head ctx" next_addr "calloc_op P"
    "\<lambda>p. upd_ctx ctx (\<lambda>c. c\<lparr>io_op_pool := p\<rparr>)" "\<lambda>prev p. upd_op prev (\<lambda>r. r\<lparr>op_next := p\<rparr>)"
    "iouring_alloc_io_op_pool_loop P ctx"
  for P :: "'k posix" and ctx c h BH tr z
  by unfold_locales
    (auto simp: wp_simps calloc_op_def op_building_def nx_comp op_head_def zero_op_def split: option.splits prod.splits)

interpretation buf_builder: pool_builder "buf_building ctx c h OH tr z" buf_nx "buf_head ctx" next_addr "calloc_buf_addr P"
    "\<lambda>p. upd_ctx ctx (\<lambda>c. c\<lparr>buf_addr_pool := p\<rparr>)" "\<lambda>prev p. upd_buf prev (\<lambda>r. r\<lparr>ba_next := p\<rparr>)"
    "iouring_alloc_buf_addr_pool_loop P ctx"
  for P :: "'k posix" and ctx c h OH tr z
  by unfold_locales
    (auto simp: wp_simps calloc_buf_addr_def buf_building_def nx_comp buf_head_def zero_buf_addr_def
      split: option.splits prod.splits)

definition op_rest :: "('k, 'z) uring_state_scheme \<Rightarrow> _" where
  "op_rest s = (kw s, next_addr s, ctx_heap s, buf_heap s, inflight (trace s), provided (trace s), uring_state.more s)"

definition buf_rest :: "('k, 'z) uring_state_scheme \<Rightarrow> _" where
  "buf_rest s = (kw s, next_addr s, ctx_heap s, op_heap s, inflight (trace s), provided (trace s), uring_state.more s)"

interpretation op_destroyer: pool_destroyer op_nx op_rest iouring_free_io_op_pool_loop free_op
proof unfold_locales
  show "iouring_free_io_op_pool_loop n NULL = ret ()" for n by (cases n) auto
qed (auto simp: wp_simps free_op_def pool_defs op_rest_def fun_eq_iff)

interpretation buf_destroyer: pool_destroyer buf_nx buf_rest iouring_free_buf_addr_pool_loop free_buf_addr
proof unfold_locales
  show "iouring_free_buf_addr_pool_loop n NULL = ret ()" for n by (cases n) auto
qed (auto simp: wp_simps free_buf_addr_def pool_defs buf_rest_def fun_eq_iff)

end
