(* ===== verification/Utils.thy ===== *)
theory Utils
  imports Prelude "HOL-Library.Signed_Division"
begin

text \<open>
  \<^verbatim>\<open>src/utils.c\<close>: log levels, timestamps, socket addresses, IP packet inspection. Functions that
  read a packet or an address are programs over any state that fault on a read outside the
  bytes they are given; a \<^verbatim>\<open>struct sockaddr\<close> is its byte image on a little-endian host (family
  and port 16 bits each, the IPv4 address at offset 4, the IPv6 address at offset 8).
\<close>

unbundle bit_operations_syntax

section \<open>Reading bytes\<close>

definition rd :: "byte list \<Rightarrow> nat \<Rightarrow> ('s, byte) prog" where
  "rd p i = (if i < length p then ret (p ! i) else throwf Out_of_bounds)"

text \<open>Little-endian loads of a 16-bit and a 32-bit field, and the big-endian reading (\<^verbatim>\<open>ntohs\<close>).\<close>

definition le16 :: "byte \<Rightarrow> byte \<Rightarrow> 16 word" where
  "le16 a b = ucast a OR push_bit 8 (ucast b)"

definition le32 :: "byte \<Rightarrow> byte \<Rightarrow> byte \<Rightarrow> byte \<Rightarrow> 32 word" where
  "le32 a b c d = ucast a OR push_bit 8 (ucast b) OR push_bit 16 (ucast c)
     OR push_bit 24 (ucast d)"

definition rd16 :: "byte list \<Rightarrow> nat \<Rightarrow> ('s, 16 word) prog" where
  "rd16 p i = bnd (rd p i) (\<lambda>a. bnd (rd p (i + 1)) (\<lambda>b. ret (le16 a b)))"

definition rd32 :: "byte list \<Rightarrow> nat \<Rightarrow> ('s, 32 word) prog" where
  "rd32 p i = bnd (rd p i) (\<lambda>a. bnd (rd p (i + 1)) (\<lambda>b. bnd (rd p (i + 2)) (\<lambda>c. bnd (rd p (i + 3)) (\<lambda>d.
     ret (le32 a b c d)))))"

definition rd_be16 :: "byte list \<Rightarrow> nat \<Rightarrow> ('s, 16 word) prog" where
  "rd_be16 p i = bnd (rd p i) (\<lambda>a. bnd (rd p (i + 1)) (\<lambda>b. ret (le16 b a)))"

fun rd_bytes :: "byte list \<Rightarrow> nat \<Rightarrow> nat \<Rightarrow> ('s, byte list) prog" where
  "rd_bytes p i 0 = ret []"
| "rd_bytes p i (Suc n) = bnd (rd p i) (\<lambda>a. bnd (rd_bytes p (Suc i) n) (\<lambda>bs. ret (a # bs)))"

section \<open>Log levels\<close>

datatype log_level = LOG_DEBUG | LOG_INFO | LOG_WARN | LOG_ERROR

fun level_num :: "log_level \<Rightarrow> nat" where
  "level_num LOG_DEBUG = 0"
| "level_num LOG_INFO = 1"
| "level_num LOG_WARN = 2"
| "level_num LOG_ERROR = 3"

lemma level_num_inj: "level_num a = level_num b \<Longrightarrow> a = b"
  by (cases a; cases b) auto

instantiation log_level :: linorder
begin

definition less_eq_log_level :: "log_level \<Rightarrow> log_level \<Rightarrow> bool" where
  "a \<le> b \<longleftrightarrow> level_num a \<le> level_num b"

definition less_log_level :: "log_level \<Rightarrow> log_level \<Rightarrow> bool" where
  "a < b \<longleftrightarrow> level_num a < level_num b"

instance
  by standard (auto simp: less_eq_log_level_def less_log_level_def intro: level_num_inj)

end

fun level_str :: "log_level \<Rightarrow> string" where
  "level_str LOG_DEBUG = ''DEBUG''"
| "level_str LOG_INFO = ''INFO''"
| "level_str LOG_WARN = ''WARN''"
| "level_str LOG_ERROR = ''ERROR''"

text \<open>The level is a global variable; it is the first argument of every function that reads it.\<close>

definition initial_log_level :: log_level where
  "initial_log_level = LOG_INFO"

definition at_log_level :: "log_level \<Rightarrow> log_level \<Rightarrow> bool" where
  "at_log_level current l \<longleftrightarrow> current \<le> l"

definition log_set_level :: "log_level \<Rightarrow> log_level \<Rightarrow> log_level" where
  "log_set_level current level = level"

text \<open>What the functions write to standard error (\<open>None\<close>: nothing); \<open>msg\<close> is the formatted message.\<close>

definition log_line :: "log_level \<Rightarrow> log_level \<Rightarrow> string \<Rightarrow> string option" where
  "log_line current level msg = (if level < current then None
     else Some (''['' @ level_str level @ ''] '' @ msg @ [CHR 0x0A]))"

definition log_debug :: "log_level \<Rightarrow> string \<Rightarrow> string option" where
  "log_debug current msg = log_line current LOG_DEBUG msg"

definition log_info :: "log_level \<Rightarrow> string \<Rightarrow> string option" where
  "log_info current msg = log_line current LOG_INFO msg"

definition log_warn :: "log_level \<Rightarrow> string \<Rightarrow> string option" where
  "log_warn current msg = log_line current LOG_WARN msg"

definition log_error :: "log_level \<Rightarrow> string \<Rightarrow> string option" where
  "log_error current msg = log_line current LOG_ERROR msg"

text \<open>\<open>time_buf\<close> is the local time printed by \<^verbatim>\<open>strftime\<close> with the milliseconds.\<close>

definition log_message :: "log_level \<Rightarrow> string \<Rightarrow> log_level \<Rightarrow> string \<Rightarrow> string option" where
  "log_message current time_buf level msg = (if level < current then None
     else Some (''['' @ time_buf @ ''] ['' @ level_str level @ ''] '' @ msg @ [CHR 0x0A]))"

section \<open>Time\<close>




section \<open>Addresses\<close>

definition AF_INET :: "16 word" where
  "AF_INET = 2"

definition AF_INET6 :: "16 word" where
  "AF_INET6 = 10"

text \<open>\<^verbatim>\<open>hash % bucket_count\<close>: the 32-bit hash is widened to \<^verbatim>\<open>size_t\<close>, the remainder narrowed back.\<close>

definition addr_hash :: "byte list \<Rightarrow> 64 word \<Rightarrow> ('s, 32 word) prog" where
  "addr_hash addr bucket_count =
     bnd (rd16 addr 0) (\<lambda>fam.
     bnd (if fam = AF_INET then
            bnd (rd32 addr 4) (\<lambda>ip. bnd (rd16 addr 2) (\<lambda>port. ret (ip XOR ucast port)))
          else if fam = AF_INET6 then
            bnd (rd32 addr 8) (\<lambda>a. bnd (rd32 addr 12) (\<lambda>b. bnd (rd32 addr 16) (\<lambda>c. bnd (rd32 addr 20) (\<lambda>d.
            bnd (rd16 addr 2) (\<lambda>port.
            ret ((((0 XOR a) XOR b) XOR c) XOR d XOR ucast port))))))
          else ret 0) (\<lambda>hash.
     if bucket_count = 0 then throwf Div_by_zero
     else ret (ucast ((ucast hash :: 64 word) mod bucket_count))))"

text \<open>\<^verbatim>\<open>memcmp\<close>: C fixes only the sign of the result.\<close>

fun memcmp :: "byte list \<Rightarrow> byte list \<Rightarrow> int" where
  "memcmp (a # as) (b # bs) = (if a = b then memcmp as bs else if a < b then -1 else 1)"
| "memcmp _ _ = 0"

definition addr_compare :: "byte list \<Rightarrow> byte list \<Rightarrow> ('s, int) prog" where
  "addr_compare a b =
     bnd (rd16 a 0) (\<lambda>fa. bnd (rd16 b 0) (\<lambda>fb.
     if fa \<noteq> fb then ret (uint fa - uint fb)
     else if fa = AF_INET then
       bnd (rd32 a 4) (\<lambda>ia. bnd (rd32 b 4) (\<lambda>ib.
       if ia \<noteq> ib then ret (sint (ia - ib))
       else bnd (rd16 a 2) (\<lambda>pa. bnd (rd16 b 2) (\<lambda>pb. ret (uint pa - uint pb)))))
     else if fa = AF_INET6 then
       bnd (rd_bytes a 8 16) (\<lambda>ia. bnd (rd_bytes b 8 16) (\<lambda>ib.
       if memcmp ia ib \<noteq> 0 then ret (memcmp ia ib)
       else bnd (rd16 a 2) (\<lambda>pa. bnd (rd16 b 2) (\<lambda>pb. ret (uint pa - uint pb)))))
     else ret 0))"

text \<open>The destination is a whole \<^verbatim>\<open>sockaddr_storage\<close> of 128 bytes.\<close>

definition addr_copy :: "byte list \<Rightarrow> nat \<Rightarrow> ('s, byte list) prog" where
  "addr_copy src len =
     bnd (rd_bytes src 0 len) (\<lambda>bs.
     if len \<le> 128 then ret (bs @ replicate (128 - len) 0) else throwf Out_of_bounds)"

text \<open>Decimal printing, \<^verbatim>\<open>inet_ntop(AF_INET)\<close>, and the static buffer of 128 characters.\<close>

fun dec :: "nat \<Rightarrow> string" where
  "dec n = (if n < 10 then [char_of (48 + n)] else dec (n div 10) @ [char_of (48 + n mod 10)])"

declare dec.simps [simp del]

definition ntop4 :: "byte list \<Rightarrow> string" where
  "ntop4 bs = dec (unat (bs ! 0)) @ ''.'' @ dec (unat (bs ! 1)) @ ''.'' @ dec (unat (bs ! 2)) @ ''.'' @ dec (unat (bs ! 3))"

definition snprintf128 :: "string \<Rightarrow> string" where
  "snprintf128 s = take 127 s"

text \<open>\<open>ntop6\<close> stands for \<^verbatim>\<open>inet_ntop(AF_INET6)\<close>.\<close>

definition addr_to_string :: "(byte list \<Rightarrow> string) \<Rightarrow> byte list \<Rightarrow> ('s, string) prog" where
  "addr_to_string ntop6 addr =
     bnd (rd16 addr 0) (\<lambda>fam.
     if fam = AF_INET then
       bnd (rd_bytes addr 4 4) (\<lambda>ip. bnd (rd_be16 addr 2) (\<lambda>port.
       ret (snprintf128 (ntop4 ip @ '':'' @ dec (unat port)))))
     else if fam = AF_INET6 then
       bnd (rd_bytes addr 8 16) (\<lambda>ip. bnd (rd_be16 addr 2) (\<lambda>port.
       ret (snprintf128 (''['' @ ntop6 ip @ '']:'' @ dec (unat port)))))
     else ret (snprintf128 ''unknown''))"

section \<open>IP packets\<close>

definition ip_version :: "byte \<Rightarrow> nat" where
  "ip_version b = unat (drop_bit 4 b)"



text \<open>What \<^verbatim>\<open>print_ip_packet_info\<close> logs: raw addresses, protocol and length.\<close>

datatype packet_info =
    Info_short nat
  | Info_v4 "byte list" "byte list" byte "16 word"
  | Info_v6 "byte list" "byte list" byte "16 word"
  | Info_unknown nat

definition print_ip_packet_info :: "byte list \<Rightarrow> nat \<Rightarrow> ('s, packet_info) prog" where
  "print_ip_packet_info packet len =
     (if len < 20 then ret (Info_short len) else
      bnd (rd packet 0) (\<lambda>b0.
      let version = ip_version b0 in
      if version = 4 then
        bnd (rd_bytes packet 12 4) (\<lambda>src. bnd (rd_bytes packet 16 4) (\<lambda>dst.
        bnd (rd packet 9) (\<lambda>proto. bnd (rd_be16 packet 2) (\<lambda>l. ret (Info_v4 src dst proto l)))))
      else if version = 6 then
        bnd (rd_bytes packet 8 16) (\<lambda>src. bnd (rd_bytes packet 24 16) (\<lambda>dst.
        bnd (rd packet 6) (\<lambda>next. bnd (rd_be16 packet 4) (\<lambda>l. ret (Info_v6 src dst next l)))))
      else ret (Info_unknown version)))"

definition get_ipv4_destination :: "byte list \<Rightarrow> nat \<Rightarrow> ('s, 32 word) prog" where
  "get_ipv4_destination packet len =
     (if len < 20 then ret 0 else
      bnd (rd packet 0) (\<lambda>b0.
      if ip_version b0 \<noteq> 4 then ret 0 else rd32 packet 16))"

definition get_ipv4_source :: "byte list \<Rightarrow> nat \<Rightarrow> ('s, 32 word) prog" where
  "get_ipv4_source packet len =
     (if len < 20 then ret 0 else
      bnd (rd packet 0) (\<lambda>b0.
      if ip_version b0 \<noteq> 4 then ret 0 else rd32 packet 12))"

section \<open>Reads in range\<close>

lemma exec_rd [exec_simps]: "rd p i s = (if i < length p then Inr (p ! i, s) else Inl Out_of_bounds)"
  by (simp add: rd_def exec_simps)

lemma exec_rd16 [exec_simps]: "rd16 p i s = (if i + 1 < length p then Inr (le16 (p ! i) (p ! (i + 1)), s) else Inl Out_of_bounds)"
  by (simp add: rd16_def exec_simps)

lemma exec_rd_be16 [exec_simps]:
  "rd_be16 p i s = (if i + 1 < length p then Inr (le16 (p ! (i + 1)) (p ! i), s) else Inl Out_of_bounds)"
  by (simp add: rd_be16_def exec_simps)

lemma exec_rd32 [exec_simps]: "rd32 p i s = (if i + 3 < length p
    then Inr (le32 (p ! i) (p ! (i + 1)) (p ! (i + 2)) (p ! (i + 3)), s) else Inl Out_of_bounds)"
  by (simp add: rd32_def exec_simps)

lemma exec_rd_bytes: "i + n \<le> length p \<Longrightarrow> rd_bytes p i n s = Inr (take n (drop i p), s)"
  by (induction n arbitrary: i) (auto simp: exec_simps Cons_nth_drop_Suc [symmetric])

lemma rd_bytes_outside: "i \<le> length p \<Longrightarrow> length p < i + n \<Longrightarrow> rd_bytes p i n s = Inl Out_of_bounds"
proof (induction n arbitrary: i)
  case (Suc n)
  then show ?case by (cases "i < length p") (auto simp: exec_simps)
qed (simp add: exec_simps)

section \<open>Words made of bytes\<close>

lemma le16_unat: "unat (le16 a b) = unat a + 256 * unat b"
proof -
  have "le16 a b = ucast a + push_bit 8 (ucast b)"
    unfolding le16_def
    by (rule disjunctive_add [symmetric]) (auto simp: bit_simps dest: bit_imp_le_length)
  moreover have "unat a < 256" "unat b < 256" using unsigned_less [of a] unsigned_less [of b] by simp_all
  ultimately show ?thesis
    by (simp add: push_bit_eq_mult unat_word_ariths unsigned_ucast_eq take_bit_nat_def)
qed

lemma le16_inj: "le16 a b = le16 c d \<longleftrightarrow> a = c \<and> b = d"
proof
  assume "le16 a b = le16 c d"
  then have e: "unat a + 256 * unat b = unat c + 256 * unat d" by (metis le16_unat)
  have "unat a < 256" "unat c < 256" using unsigned_less [of a] unsigned_less [of c] by simp_all
  with arg_cong [OF e, of "\<lambda>x. x mod 256"] have "unat a = unat c" by simp
  with e have "unat a = unat c \<and> unat b = unat d" by simp
  then show "a = c \<and> b = d" by (simp add: word_unat_eq_iff)
qed simp

lemma le32_bytes:
  "ucast (le32 a b c d) = a" "ucast (drop_bit 8 (le32 a b c d)) = b"
  "ucast (drop_bit 16 (le32 a b c d)) = c" "ucast (drop_bit 24 (le32 a b c d)) = d"
  by (rule bit_word_eqI; auto simp: le32_def bit_simps dest: bit_imp_le_length)+

text \<open>The bytes of a 32-bit word in memory.\<close>

definition word_bytes :: "32 word \<Rightarrow> byte list" where
  "word_bytes w = [ucast w, ucast (drop_bit 8 w), ucast (drop_bit 16 w), ucast (drop_bit 24 w)]"

lemma word_bytes_le32 [simp]: "word_bytes (le32 a b c d) = [a, b, c, d]"
  by (simp add: word_bytes_def le32_bytes)

lemma le32_inj: "le32 a b c d = le32 a' b' c' d' \<longleftrightarrow> a = a' \<and> b = b' \<and> c = c' \<and> d = d'"
proof
  assume "le32 a b c d = le32 a' b' c' d'"
  then have "word_bytes (le32 a b c d) = word_bytes (le32 a' b' c' d')" by (rule arg_cong)
  then show "a = a' \<and> b = b' \<and> c = c' \<and> d = d'" by simp
qed simp

lemma take_drop_4: "i + 3 < length p \<Longrightarrow> take 4 (drop i p) = [p ! i, p ! (i + 1), p ! (i + 2), p ! (i + 3)]"
  using Cons_nth_drop_Suc [of i p] Cons_nth_drop_Suc [of "i + 1" p] Cons_nth_drop_Suc [of "i + 2" p]
    Cons_nth_drop_Suc [of "i + 3" p]
  by (simp add: numeral_eq_Suc) (metis take0 take_Suc_Cons)

lemma memcmp_eq: "length a = length b \<Longrightarrow> memcmp a b = 0 \<longleftrightarrow> a = b"
  by (induction a b rule: memcmp.induct) auto

section \<open>Properties\<close>




text \<open>The fields \<^verbatim>\<open>addr_hash\<close> reads.\<close>

definition hash_word :: "byte list \<Rightarrow> 32 word" where
  "hash_word a = (let port = ucast (le16 (a ! 2) (a ! 3)) in
     if le16 (a ! 0) (a ! 1) = AF_INET then le32 (a ! 4) (a ! 5) (a ! 6) (a ! 7) XOR port
     else if le16 (a ! 0) (a ! 1) = AF_INET6 then
       le32 (a ! 8) (a ! 9) (a ! 10) (a ! 11) XOR le32 (a ! 12) (a ! 13) (a ! 14) (a ! 15) XOR
       le32 (a ! 16) (a ! 17) (a ! 18) (a ! 19) XOR le32 (a ! 20) (a ! 21) (a ! 22) (a ! 23) XOR port
     else 0)"

lemma addr_hash_exec:
  assumes "length a = 128" and "n \<noteq> 0"
  shows "addr_hash a n s = Inr (ucast ((ucast (hash_word a) :: 64 word) mod n), s)"
  using assms by (simp add: addr_hash_def hash_word_def exec_simps Let_def xor.assoc)

lemma hash_in_range: "n \<noteq> 0 \<Longrightarrow> unat (ucast ((ucast (h :: 32 word) :: 64 word) mod n) :: 32 word) < unat n"
proof -
  assume n: "n \<noteq> 0"
  have "unat ((ucast h :: 64 word) mod n) < unat n" using n by (simp add: unat_mod unat_gt_0)
  moreover have "unat (ucast ((ucast h :: 64 word) mod n) :: 32 word) \<le> unat ((ucast h :: 64 word) mod n)"
    by (simp add: unsigned_ucast_eq take_bit_nat_less_eq_self)
  ultimately show ?thesis by linarith
qed

lemma uint_diff_0: "uint x = uint y \<longleftrightarrow> x = y"
  by (simp add: word_uint_eq_iff)

lemma sint_diff_0: "sint (x - y :: 32 word) = 0 \<longleftrightarrow> x = y"
proof
  assume "sint (x - y) = 0"
  then have "word_of_int (sint (x - y)) = (0 :: 32 word)" by simp
  then show "x = y" by simp
qed simp

lemma compare_equal_fields:
  assumes "length a = 128" and "length b = 128" and "addr_compare a b s = Inr (0, s)"
  shows "hash_word a = hash_word b"
proof -
  have fam: "le16 (a ! 0) (a ! 1) = le16 (b ! 0) (b ! 1)"
    using assms by (auto simp: addr_compare_def exec_simps uint_diff_0 sint_diff_0 split: if_splits)
  consider "le16 (b ! 0) (b ! 1) = AF_INET" | "le16 (b ! 0) (b ! 1) = AF_INET6" "AF_INET \<noteq> AF_INET6"
    | "le16 (b ! 0) (b ! 1) \<noteq> AF_INET" "le16 (b ! 0) (b ! 1) \<noteq> AF_INET6"
    by (auto simp: AF_INET_def AF_INET6_def)
  then show ?thesis
  proof cases
    case 1
    then have "le32 (a ! 4) (a ! 5) (a ! 6) (a ! 7) = le32 (b ! 4) (b ! 5) (b ! 6) (b ! 7)"
      and "le16 (a ! 2) (a ! 3) = le16 (b ! 2) (b ! 3)"
      using assms fam by (auto simp: addr_compare_def exec_simps uint_diff_0 sint_diff_0 split: if_splits)
    then show ?thesis using 1 fam by (simp add: hash_word_def)
  next
    case 2
    then have e: "take 16 (drop 8 a) = take 16 (drop 8 b)" and p: "le16 (a ! 2) (a ! 3) = le16 (b ! 2) (b ! 3)"
      using assms fam by (auto simp: addr_compare_def exec_simps exec_rd_bytes memcmp_eq uint_diff_0 sint_diff_0 split: if_splits)
    have "a ! (8 + i) = b ! (8 + i)" if "i < 16" for i
      using arg_cong [OF e, of "\<lambda>x. x ! i"] that assms(1,2) by simp
    from this [of 0] this [of 1] this [of 2] this [of 3] this [of 4] this [of 5] this [of 6] this [of 7]
      this [of 8] this [of 9] this [of 10] this [of 11] this [of 12] this [of 13] this [of 14] this [of 15]
    show ?thesis using 2 fam p by (simp add: hash_word_def)
  next
    case 3
    then show ?thesis using fam by (simp add: hash_word_def)
  qed
qed

text \<open>
  C37: two addresses that \<^verbatim>\<open>addr_compare\<close> calls equal have the same hash, and the hash is a valid
  bucket number: what a hash table over the two functions needs.
\<close>

theorem addr_hash_respects_compare:
  assumes "length a = 128" and "length b = 128" and "n \<noteq> 0" and "addr_compare a b s = Inr (0, s)"
  shows "\<exists>h. addr_hash a n s = Inr (h, s) \<and> addr_hash b n s = Inr (h, s) \<and> unat h < unat n"
  using addr_hash_exec [OF assms(1,3), of s] addr_hash_exec [OF assms(2,3), of s] compare_equal_fields [OF assms(1,2,4)]
    hash_in_range [OF assms(3), of "hash_word b"]
  by (intro exI [of _ "ucast ((ucast (hash_word b) :: 64 word) mod n)"]) simp

theorem addr_hash_respects_compare_witness:
  "\<exists>h. addr_hash (2 # 0 # 0x1F # 0x90 # 10 # 0 # 0 # 1 # replicate 120 0) 64 () = Inr (h, ()) \<and> unat h < unat (64 :: 64 word)"
proof -
  let ?a = "2 # 0 # 0x1F # 0x90 # 10 # 0 # 0 # 1 # replicate 120 0 :: byte list"
  have "addr_compare ?a ?a () = Inr (0, ())"
    by (simp add: addr_compare_def exec_simps exec_rd_bytes memcmp_eq)
  from addr_hash_respects_compare [OF _ _ _ this, of 64] show ?thesis by auto
qed

text \<open>
  the raw destination address of an IPv4 packet is its four bytes on the wire, bytes 16 to 19,
  in order; the read stays inside the packet.
\<close>

lemma get_ipv4_destination_wire:
  assumes "len \<le> length packet" and "20 \<le> len" and "ip_version (packet ! 0) = 4"
  shows "\<exists>w. get_ipv4_destination packet len s = Inr (w, s) \<and> word_bytes w = take 4 (drop 16 packet)"
  using assms by (auto simp: get_ipv4_destination_def exec_simps take_drop_4)

theorem get_ipv4_destination_wire_witness:
  "\<exists>w. get_ipv4_destination (0x45 # replicate 15 0 @ [10, 0, 0, 7]) 20 () = Inr (w, ()) \<and> word_bytes w = [10, 0, 0, 7]"
  using get_ipv4_destination_wire [of 20 "0x45 # replicate 15 0 @ [10, 0, 0, 7]" "()"]
  by (simp add: ip_version_def)





text \<open>
  C40: \<^verbatim>\<open>print_ip_packet_info\<close> checks for 20 bytes only: on every packet of 20 to 39 bytes whose first
  nibble is 6 it reads behind the packet; an IPv4 packet, or 40 bytes of any version, is printed
  without such a read.
\<close>

theorem print_ip_packet_info_overread:
  assumes "20 \<le> length p"
  shows "print_ip_packet_info p (length p) s = Inl Out_of_bounds \<longleftrightarrow> ip_version (p ! 0) = 6 \<and> length p < 40"
proof (cases "length p < 24")
  case True
  then show ?thesis using assms
    by (auto simp: print_ip_packet_info_def exec_simps Let_def exec_rd_bytes rd_bytes_outside)
next
  case False
  then show ?thesis using assms
    by (cases "length p < 40") (auto simp: print_ip_packet_info_def exec_simps Let_def exec_rd_bytes rd_bytes_outside)
qed

theorem print_ip_packet_info_overread_witness:
  "print_ip_packet_info (0x60 # replicate 19 0) 20 () = Inl Out_of_bounds"
  using print_ip_packet_info_overread [of "0x60 # replicate 19 0" "()"] by (simp add: ip_version_def)

text \<open>
  \<^verbatim>\<open>addr_copy\<close> of up to 128 bytes yields a whole \<^verbatim>\<open>sockaddr_storage\<close> that begins with the source
  bytes and is zero behind them, and a longer copy is a write outside the destination.
\<close>

lemma addr_copy_exact:
  assumes "len \<le> length src"
  shows "addr_copy src len s = (if len \<le> 128
    then Inr (take len src @ replicate (128 - len) 0, s) else Inl Out_of_bounds)"
  using assms by (simp add: addr_copy_def exec_simps exec_rd_bytes)

theorem addr_copy_exact_witness:
  "addr_copy [2, 0, 0x1F, 0x90] 4 () = Inr ([2, 0, 0x1F, 0x90] @ replicate 124 0, ())"
  using addr_copy_exact [of 4 "[2, 0, 0x1F, 0x90]" "()"] by simp

text \<open>
  \<^verbatim>\<open>addr_compare\<close> is no order: for IPv4 it returns the 32-bit difference of the addresses as a
  signed number, so three addresses can each be smaller than the next in a circle.
\<close>

lemma addr_compare_cycle:
  "\<exists>a b c d e f. d < 0 \<and> e < 0 \<and> f < 0 \<and> addr_compare a b () = Inr (d, ()) \<and>
     addr_compare b c () = Inr (e, ()) \<and> addr_compare c a () = Inr (f, ())"
proof -
  let ?f = "\<lambda>n. 2 # 0 # 0 # 0 # 0 # 0 # 0 # n # replicate 120 0 :: byte list"
  have "addr_compare (?f x) (?f y) () = Inr (sint (le32 0 0 0 x - le32 0 0 0 y), ())" if "x \<noteq> y" for x y
    using that by (simp add: addr_compare_def exec_simps le16_def AF_INET_def le32_inj)
  moreover have "sint (le32 0 0 0 0 - le32 0 0 0 0x55) < 0" "sint (le32 0 0 0 0x55 - le32 0 0 0 0xAA) < 0"
    "sint (le32 0 0 0 0xAA - le32 0 0 0 0) < 0"
    by (simp_all add: le32_def)
  ultimately show ?thesis
    by (intro exI [of _ "?f 0"] exI [of _ "?f 0x55"] exI [of _ "?f 0xAA"]) auto
qed

end
