(* ===== verification/Udp_Socket.thy ===== *)
theory Udp_Socket
  imports Machine Utils
begin

text \<open>
  \<^verbatim>\<open>src/udp_socket.c\<close>: creating, binding and configuring UDP sockets, and resolving a host name.
  The functions run on any state that has the external world and the trace. The socket options
  are the numbers of Linux.
\<close>

section \<open>System calls\<close>

definition do_socket :: "'k posix \<Rightarrow> (('k, 'z) base_state_scheme, int) prog" where
  "do_socket P = bnd (kcall (sys_socket P)) (\<lambda>fd.
     if fd < 0 then ret fd else bnd (log_ev (Ev_open fd)) (\<lambda>_. ret fd))"

definition do_close :: "'k posix \<Rightarrow> int \<Rightarrow> (('k, 'z) base_state_scheme, unit) prog" where
  "do_close P fd = bnd (kdo (sys_close P fd)) (\<lambda>_. log_ev (Ev_close fd))"

lemma wp_sys [wp_simps]:
  "wp (do_socket P) Q = (\<lambda>s. case sys_socket P (kw s) of (fd, w) \<Rightarrow>
     if fd < 0 then Q fd (s\<lparr>kw := w\<rparr>) else Q fd (s\<lparr>kw := w, trace := Ev_open fd # trace s\<rparr>))"
  "wp (do_close P fd) R = (\<lambda>s. R () (s\<lparr>kw := sys_close P fd (kw s), trace := Ev_close fd # trace s\<rparr>))"
  by (auto simp: do_socket_def do_close_def wp_simps fun_eq_iff split: prod.splits)

section \<open>The code\<close>

definition udp_socket_create :: "'k posix \<Rightarrow> (('k, 'z) base_state_scheme, int) prog" where
  "udp_socket_create P =
     bnd (do_socket P) (\<lambda>fd.
     if fd < 0 then ret (-1) else ret fd)"

text \<open>\<^verbatim>\<open>struct sockaddr_in\<close>: family, port in network order, address, padding.\<close>

definition sockaddr_in :: "16 word \<Rightarrow> byte list \<Rightarrow> byte list" where
  "sockaddr_in port ip = [2, 0, ucast (drop_bit 8 port), ucast port] @ ip @ replicate 8 0"

definition udp_socket_bind :: "'k posix \<Rightarrow> int \<Rightarrow> 16 word \<Rightarrow> string option \<Rightarrow> (('k, 'z) base_state_scheme, int) prog" where
  "udp_socket_bind P fd port addr =
     (case (case addr of None \<Rightarrow> Some (replicate 4 0) | Some a \<Rightarrow> inet_pton4 P a) of
        None \<Rightarrow> ret (-1)
      | Some ip \<Rightarrow>
          bnd (kcall (sys_bind P fd (sockaddr_in port ip))) (\<lambda>rc.
          if rc < 0 then ret (-1) else ret 0))"

definition O_NONBLOCK :: int where
  "O_NONBLOCK = 2048"

definition udp_socket_set_nonblocking :: "'k posix \<Rightarrow> int \<Rightarrow> (('k, 'z) base_state_scheme, int) prog" where
  "udp_socket_set_nonblocking P fd =
     bnd (kcall (sys_getfl P fd)) (\<lambda>flags.
     if flags < 0 then ret (-1) else
     bnd (kcall (sys_setfl P fd (flags OR O_NONBLOCK))) (\<lambda>rc.
     if rc < 0 then ret (-1) else ret 0))"

definition SO_REUSEADDR :: int where "SO_REUSEADDR = 2"
definition SO_REUSEPORT :: int where "SO_REUSEPORT = 15"
definition SO_RCVBUF :: int where "SO_RCVBUF = 8"
definition SO_SNDBUF :: int where "SO_SNDBUF = 7"

text \<open>A failed option is only logged.\<close>

definition udp_socket_set_options :: "'k posix \<Rightarrow> int \<Rightarrow> (('k, 'z) base_state_scheme, int) prog" where
  "udp_socket_set_options P fd =
     bnd (kcall (sys_setsockopt P fd SO_REUSEADDR 1)) (\<lambda>_.
     bnd (kcall (sys_setsockopt P fd SO_REUSEPORT 1)) (\<lambda>_.
     bnd (kcall (sys_setsockopt P fd SO_RCVBUF (1024 * 1024))) (\<lambda>_.
     bnd (kcall (sys_setsockopt P fd SO_SNDBUF (1024 * 1024))) (\<lambda>_.
     ret 0))))"

definition udp_socket_close :: "'k posix \<Rightarrow> int \<Rightarrow> (('k, 'z) base_state_scheme, unit) prog" where
  "udp_socket_close P fd = (if 0 \<le> fd then do_close P fd else ret ())"

text \<open>
  The result is the return code with the bytes copied to \<^verbatim>\<open>addr\<close> and their number. The destination
  of every call is a \<^verbatim>\<open>sockaddr_storage\<close>, so a longer address would be written outside it.
\<close>

definition resolve_hostname ::
  "'k posix \<Rightarrow> string \<Rightarrow> 16 word \<Rightarrow> (('k, 'z) base_state_scheme, int \<times> byte list) prog" where
  "resolve_hostname P host port =
     bnd (kcall (sys_getaddrinfo P host (dec (unat port)))) (\<lambda>(rc, ai_addr).
     if rc \<noteq> 0 then ret (-1, [])
     else if 128 < length ai_addr then throwf Out_of_bounds
     else ret (0, ai_addr))"

section \<open>Properties\<close>

lemma udp_socket_create_fds:
  "wp (udp_socket_create P) (\<lambda>fd s'. open_fds (trace s') = (if fd < 0 then open_fds (trace s) else fd # open_fds (trace s)) \<and>
     -1 \<le> fd \<and> base_state.more s' = base_state.more s \<and> next_addr s' = next_addr s) s"
  by (auto simp: udp_socket_create_def wp_simps split: prod.splits)

lemma udp_socket_bind_frame:
  "wp (udp_socket_bind P fd port addr) (\<lambda>rc s'. (rc = 0 \<or> rc = -1) \<and> trace s' = trace s \<and>
     base_state.more s' = base_state.more s \<and> next_addr s' = next_addr s) s"
  by (auto simp: udp_socket_bind_def wp_simps split: prod.splits option.splits)

end
