(* ===== verification/Net_State.thy ===== *)
theory Net_State
  imports Uring_Pool Udp_Socket
begin

text \<open>
  The state of the programs above the io-uring layer: the structures of \<^verbatim>\<open>include/tun_device.h\<close>,
  \<^verbatim>\<open>include/dtls_context.h\<close>, \<^verbatim>\<open>include/connection.h\<close> and \<^verbatim>\<open>include/forwarder.h\<close> with a heap each, and
  the OpenSSL library as a record of functions over its own external state \<open>'t\<close>.
\<close>

section \<open>Structures\<close>

record tun_device =
  tun_fd :: int
  tun_name :: string
  tun_ip :: string
  tun_netmask :: string
  tun_mtu :: int

record dtls_ctx =
  dc_ctx :: ptr
  dc_is_server :: bool
  dc_cert_file :: string
  dc_key_file :: string

datatype conn_role = CONN_ROLE_CLIENT | CONN_ROLE_SERVER

datatype conn_state = CONN_STATE_HANDSHAKING | CONN_STATE_ESTABLISHED | CONN_STATE_CLOSING

text \<open>\<open>conn_addr\<close> is the whole \<^verbatim>\<open>sockaddr_storage\<close>, of which \<open>conn_addr_len\<close> bytes are meaningful.\<close>

record connection =
  udp_fd :: int
  role :: conn_role
  conn_dtls :: ptr
  conn_ssl :: ptr
  rbio :: ptr
  wbio :: ptr
  conn_addr :: "byte list"
  conn_addr_len :: nat
  conn_st :: conn_state
  last_activity :: int
  conn_next :: ptr

record forwarder_ctx =
  fw_uring :: ptr
  fw_outbound :: ptr
  fw_inbound :: ptr

record ('k, 't) net_state = "'k uring_state" +
  tw :: 't
  tun_heap :: "ptr \<rightharpoonup> tun_device"
  dtls_heap :: "ptr \<rightharpoonup> dtls_ctx"
  conn_heap :: "ptr \<rightharpoonup> connection"
  fwd_heap :: "ptr \<rightharpoonup> forwarder_ctx"

type_synonym ('k, 't, 'a) net_prog = "(('k, 't) net_state, 'a) prog"

definition zero_tun :: tun_device where
  "zero_tun = \<lparr>tun_fd = 0, tun_name = [], tun_ip = [], tun_netmask = [], tun_mtu = 0\<rparr>"

definition zero_dtls :: dtls_ctx where
  "zero_dtls = \<lparr>dc_ctx = NULL, dc_is_server = False, dc_cert_file = [], dc_key_file = []\<rparr>"

definition zero_conn :: connection where
  "zero_conn = \<lparr>udp_fd = 0, role = CONN_ROLE_CLIENT, conn_dtls = NULL, conn_ssl = NULL, rbio = NULL, wbio = NULL,
     conn_addr = replicate SOCKADDR_STORAGE 0, conn_addr_len = 0, conn_st = CONN_STATE_HANDSHAKING, last_activity = 0, conn_next = NULL\<rparr>"

definition zero_fwd :: forwarder_ctx where
  "zero_fwd = \<lparr>fw_uring = NULL, fw_outbound = NULL, fw_inbound = NULL\<rparr>"

section \<open>Allocation\<close>

text \<open>\<^verbatim>\<open>calloc(1, n)\<close> of an object stored by \<open>put\<close>, and \<^verbatim>\<open>free\<close> of the object read by \<open>get\<close>.\<close>

definition calloc_obj :: "'k posix \<Rightarrow> (ptr \<Rightarrow> ('k, 't) net_state \<Rightarrow> ('k, 't) net_state) \<Rightarrow> ('k, 't, ptr) net_prog" where
  "calloc_obj P put = bnd (kcall (calloc_ok P)) (\<lambda>ok. if \<not> ok then ret NULL else
     bnd (gets next_addr) (\<lambda>a.
     bnd (modify (\<lambda>s. put a (s\<lparr>next_addr := Suc a\<rparr>))) (\<lambda>_. ret a)))"

definition calloc_tun :: "'k posix \<Rightarrow> ('k, 't, ptr) net_prog" where
  "calloc_tun P = calloc_obj P (\<lambda>a s. s\<lparr>tun_heap := (tun_heap s)(a \<mapsto> zero_tun)\<rparr>)"

definition calloc_dtls :: "'k posix \<Rightarrow> ('k, 't, ptr) net_prog" where
  "calloc_dtls P = calloc_obj P (\<lambda>a s. s\<lparr>dtls_heap := (dtls_heap s)(a \<mapsto> zero_dtls)\<rparr>)"

definition calloc_conn :: "'k posix \<Rightarrow> ('k, 't, ptr) net_prog" where
  "calloc_conn P = calloc_obj P (\<lambda>a s. s\<lparr>conn_heap := (conn_heap s)(a \<mapsto> zero_conn)\<rparr>)"

definition calloc_fwd :: "'k posix \<Rightarrow> ('k, 't, ptr) net_prog" where
  "calloc_fwd P = calloc_obj P (\<lambda>a s. s\<lparr>fwd_heap := (fwd_heap s)(a \<mapsto> zero_fwd)\<rparr>)"

definition upd_tun :: "ptr \<Rightarrow> (tun_device \<Rightarrow> tun_device) \<Rightarrow> ('k, 't, unit) net_prog" where
  "upd_tun p f = bnd (load tun_heap p) (\<lambda>r. modify (\<lambda>s. s\<lparr>tun_heap := (tun_heap s)(p \<mapsto> f r)\<rparr>))"

definition upd_dtls :: "ptr \<Rightarrow> (dtls_ctx \<Rightarrow> dtls_ctx) \<Rightarrow> ('k, 't, unit) net_prog" where
  "upd_dtls p f = bnd (load dtls_heap p) (\<lambda>r. modify (\<lambda>s. s\<lparr>dtls_heap := (dtls_heap s)(p \<mapsto> f r)\<rparr>))"

definition upd_conn :: "ptr \<Rightarrow> (connection \<Rightarrow> connection) \<Rightarrow> ('k, 't, unit) net_prog" where
  "upd_conn p f = bnd (load conn_heap p) (\<lambda>r. modify (\<lambda>s. s\<lparr>conn_heap := (conn_heap s)(p \<mapsto> f r)\<rparr>))"

definition upd_fwd :: "ptr \<Rightarrow> (forwarder_ctx \<Rightarrow> forwarder_ctx) \<Rightarrow> ('k, 't, unit) net_prog" where
  "upd_fwd p f = bnd (load fwd_heap p) (\<lambda>r. modify (\<lambda>s. s\<lparr>fwd_heap := (fwd_heap s)(p \<mapsto> f r)\<rparr>))"

definition free_tun :: "ptr \<Rightarrow> ('k, 't, unit) net_prog" where
  "free_tun p = bnd (load tun_heap p) (\<lambda>_. bnd (modify (\<lambda>s. s\<lparr>tun_heap := (tun_heap s)(p := None)\<rparr>)) (\<lambda>_. log_ev (Ev_free p)))"

definition free_dtls :: "ptr \<Rightarrow> ('k, 't, unit) net_prog" where
  "free_dtls p = bnd (load dtls_heap p) (\<lambda>_. bnd (modify (\<lambda>s. s\<lparr>dtls_heap := (dtls_heap s)(p := None)\<rparr>)) (\<lambda>_. log_ev (Ev_free p)))"

definition free_conn :: "ptr \<Rightarrow> ('k, 't, unit) net_prog" where
  "free_conn p = bnd (load conn_heap p) (\<lambda>_. bnd (modify (\<lambda>s. s\<lparr>conn_heap := (conn_heap s)(p := None)\<rparr>)) (\<lambda>_. log_ev (Ev_free p)))"

definition free_fwd :: "ptr \<Rightarrow> ('k, 't, unit) net_prog" where
  "free_fwd p = bnd (load fwd_heap p) (\<lambda>_. bnd (modify (\<lambda>s. s\<lparr>fwd_heap := (fwd_heap s)(p := None)\<rparr>)) (\<lambda>_. log_ev (Ev_free p)))"

lemma wp_calloc_obj [wp_simps]:
  "wp (calloc_obj P put) Q = (\<lambda>s. case calloc_ok P (kw s) of (ok, w) \<Rightarrow>
     if \<not> ok then Q NULL (s\<lparr>kw := w\<rparr>) else Q (next_addr s) (put (next_addr s) (s\<lparr>kw := w, next_addr := Suc (next_addr s)\<rparr>)))"
  by (auto simp: calloc_obj_def wp_simps fun_eq_iff split: prod.splits)

lemmas calloc_defs = calloc_tun_def calloc_dtls_def calloc_conn_def calloc_fwd_def

lemma wp_net_upd [wp_simps]:
  "wp (upd_tun p f1) Q = (\<lambda>s. p \<noteq> NULL \<and> (\<exists>c. tun_heap s p = Some c \<and> Q () (s\<lparr>tun_heap := (tun_heap s)(p \<mapsto> f1 c)\<rparr>)))"
  "wp (upd_dtls p f2) Q = (\<lambda>s. p \<noteq> NULL \<and> (\<exists>c. dtls_heap s p = Some c \<and> Q () (s\<lparr>dtls_heap := (dtls_heap s)(p \<mapsto> f2 c)\<rparr>)))"
  "wp (upd_conn p f3) Q = (\<lambda>s. p \<noteq> NULL \<and> (\<exists>c. conn_heap s p = Some c \<and> Q () (s\<lparr>conn_heap := (conn_heap s)(p \<mapsto> f3 c)\<rparr>)))"
  "wp (upd_fwd p f4) Q = (\<lambda>s. p \<noteq> NULL \<and> (\<exists>c. fwd_heap s p = Some c \<and> Q () (s\<lparr>fwd_heap := (fwd_heap s)(p \<mapsto> f4 c)\<rparr>)))"
  by (simp_all add: upd_tun_def upd_dtls_def upd_conn_def upd_fwd_def wp_simps)

lemma wp_net_free [wp_simps]:
  "wp (free_tun p) Q = (\<lambda>s. p \<noteq> NULL \<and> tun_heap s p \<noteq> None \<and> Q () (s\<lparr>tun_heap := (tun_heap s)(p := None), trace := Ev_free p # trace s\<rparr>))"
  "wp (free_dtls p) Q = (\<lambda>s. p \<noteq> NULL \<and> dtls_heap s p \<noteq> None \<and> Q () (s\<lparr>dtls_heap := (dtls_heap s)(p := None), trace := Ev_free p # trace s\<rparr>))"
  "wp (free_conn p) Q = (\<lambda>s. p \<noteq> NULL \<and> conn_heap s p \<noteq> None \<and> Q () (s\<lparr>conn_heap := (conn_heap s)(p := None), trace := Ev_free p # trace s\<rparr>))"
  "wp (free_fwd p) Q = (\<lambda>s. p \<noteq> NULL \<and> fwd_heap s p \<noteq> None \<and> Q () (s\<lparr>fwd_heap := (fwd_heap s)(p := None), trace := Ev_free p # trace s\<rparr>))"
  by (auto simp: free_tun_def free_dtls_def free_conn_def free_fwd_def wp_simps fun_eq_iff)

section \<open>OpenSSL\<close>

text \<open>
  Objects are addresses in OpenSSL's own memory (NULL for failure). \<open>ssl_ctx_new\<close> is told whether
  the server method is used, \<open>ssl_set_state\<close> whether to accept (True) or to connect.
\<close>

record 't openssl =
  ssl_ctx_new :: "bool \<Rightarrow> 't \<Rightarrow> ptr \<times> 't"
  ssl_ctx_use_certificate_file :: "ptr \<Rightarrow> string \<Rightarrow> 't \<Rightarrow> int \<times> 't"
  ssl_ctx_use_private_key_file :: "ptr \<Rightarrow> string \<Rightarrow> 't \<Rightarrow> int \<times> 't"
  ssl_ctx_check_private_key :: "ptr \<Rightarrow> 't \<Rightarrow> int \<times> 't"
  ssl_ctx_set_cipher_list :: "ptr \<Rightarrow> string \<Rightarrow> 't \<Rightarrow> int \<times> 't"
  ssl_ctx_load_verify_locations :: "ptr \<Rightarrow> string \<Rightarrow> 't \<Rightarrow> int \<times> 't"
  ssl_ctx_set_verify :: "ptr \<Rightarrow> bool \<Rightarrow> 't \<Rightarrow> 't"
  ssl_ctx_set_cookie_cbs :: "ptr \<Rightarrow> 't \<Rightarrow> 't"
  ssl_ctx_free :: "ptr \<Rightarrow> 't \<Rightarrow> 't"
  ssl_new :: "ptr \<Rightarrow> 't \<Rightarrow> ptr \<times> 't"
  ssl_set_mtu :: "ptr \<Rightarrow> int \<Rightarrow> 't \<Rightarrow> 't"
  ssl_is_server :: "ptr \<Rightarrow> 't \<Rightarrow> bool"
  ssl_set_state :: "ptr \<Rightarrow> bool \<Rightarrow> 't \<Rightarrow> 't"
  ssl_set_bio :: "ptr \<Rightarrow> ptr \<Rightarrow> ptr \<Rightarrow> 't \<Rightarrow> 't"
  ssl_free :: "ptr \<Rightarrow> 't \<Rightarrow> 't"
  bio_new :: "'t \<Rightarrow> ptr \<times> 't"
  bio_free :: "ptr \<Rightarrow> 't \<Rightarrow> 't"
  bio_set_mem_eof_return :: "ptr \<Rightarrow> int \<Rightarrow> 't \<Rightarrow> 't"
  bio_write :: "ptr \<Rightarrow> byte list \<Rightarrow> 't \<Rightarrow> int \<times> 't"
  bio_read :: "ptr \<Rightarrow> nat \<Rightarrow> 't \<Rightarrow> (int \<times> byte list) \<times> 't"
  bio_pending :: "ptr \<Rightarrow> 't \<Rightarrow> int"
  ssl_write :: "ptr \<Rightarrow> byte list \<Rightarrow> 't \<Rightarrow> int \<times> 't"
  ssl_read :: "ptr \<Rightarrow> nat \<Rightarrow> 't \<Rightarrow> (int \<times> byte list) \<times> 't"
  ssl_get_error :: "ptr \<Rightarrow> int \<Rightarrow> 't \<Rightarrow> int"
  ssl_do_handshake :: "ptr \<Rightarrow> 't \<Rightarrow> int \<times> 't"
  err_clear_error :: "'t \<Rightarrow> 't"

definition tcall :: "('t \<Rightarrow> 'a \<times> 't) \<Rightarrow> ('k, 't, 'a) net_prog" where
  "tcall f = ext_call tw (\<lambda>w s. s\<lparr>tw := w\<rparr>) f"

definition tdo :: "('t \<Rightarrow> 't) \<Rightarrow> ('k, 't, unit) net_prog" where
  "tdo f = modify (\<lambda>s. s\<lparr>tw := f (tw s)\<rparr>)"

lemma wp_tls [wp_simps]:
  "wp (tcall f) Q = (\<lambda>s. case f (tw s) of (a, w) \<Rightarrow> Q a (s\<lparr>tw := w\<rparr>))"
  "wp (tdo g) R = (\<lambda>s. R () (s\<lparr>tw := g (tw s)\<rparr>))"
  by (simp_all add: tcall_def tdo_def wp_simps)

lemma exec_tls [exec_simps]:
  "tcall f s = (let (a, w) = f (tw s) in Inr (a, s\<lparr>tw := w\<rparr>))"
  "tdo g s = Inr ((), s\<lparr>tw := g (tw s)\<rparr>)"
  by (simp_all add: tcall_def tdo_def exec_simps)

text \<open>The values of \<^verbatim>\<open>SSL_get_error\<close>.\<close>

definition SSL_ERROR_NONE :: int where "SSL_ERROR_NONE = 0"
definition SSL_ERROR_SSL :: int where "SSL_ERROR_SSL = 1"
definition SSL_ERROR_WANT_READ :: int where "SSL_ERROR_WANT_READ = 2"
definition SSL_ERROR_WANT_WRITE :: int where "SSL_ERROR_WANT_WRITE = 3"
definition SSL_ERROR_WANT_X509_LOOKUP :: int where "SSL_ERROR_WANT_X509_LOOKUP = 4"
definition SSL_ERROR_SYSCALL :: int where "SSL_ERROR_SYSCALL = 5"
definition SSL_ERROR_ZERO_RETURN :: int where "SSL_ERROR_ZERO_RETURN = 6"
definition SSL_ERROR_WANT_CONNECT :: int where "SSL_ERROR_WANT_CONNECT = 7"
definition SSL_ERROR_WANT_ACCEPT :: int where "SSL_ERROR_WANT_ACCEPT = 8"

lemmas ssl_error_defs = SSL_ERROR_NONE_def SSL_ERROR_SSL_def SSL_ERROR_WANT_READ_def SSL_ERROR_WANT_WRITE_def
  SSL_ERROR_WANT_X509_LOOKUP_def SSL_ERROR_SYSCALL_def SSL_ERROR_ZERO_RETURN_def SSL_ERROR_WANT_CONNECT_def
  SSL_ERROR_WANT_ACCEPT_def

end
