(* ===== verification/Tun_Device.thy ===== *)
theory Tun_Device
  imports Net_State
begin

text \<open>
  \<^verbatim>\<open>src/tun_device.c\<close>: creating, configuring, bringing up and down and destroying the TUN device.
  Every function but \<^verbatim>\<open>tun_device_create\<close> opens a socket of its own for the \<^verbatim>\<open>ioctl\<close> calls; the
  properties say that it is closed on every path.
\<close>

definition IFNAMSIZ :: nat where
  "IFNAMSIZ = 16"

text \<open>\<^verbatim>\<open>strncpy\<close> into an array of \<open>n\<close> characters that keeps a final NUL.\<close>

definition strncpy0 :: "nat \<Rightarrow> string \<Rightarrow> string" where
  "strncpy0 n src = take (n - 1) src"

definition IFF_TUN_NO_PI :: "16 word" where
  "IFF_TUN_NO_PI = 0x1001"

definition IFF_UP :: "16 word" where
  "IFF_UP = 1"

definition IFF_RUNNING :: "16 word" where
  "IFF_RUNNING = 0x40"

definition tun_device_create :: "'k posix \<Rightarrow> string option \<Rightarrow> ('k, 't, ptr) net_prog" where
  "tun_device_create P name =
     bnd (calloc_tun P) (\<lambda>tun.
     if tun = NULL then ret NULL else
     bnd (kcall (sys_open_tun P)) (\<lambda>fd.
     if fd < 0 then bnd (free_tun tun) (\<lambda>_. ret NULL) else
     bnd (log_ev (Ev_open fd)) (\<lambda>_.
     let ifname = (case name of None \<Rightarrow> [] | Some n \<Rightarrow> strncpy0 IFNAMSIZ n) in
     bnd (kcall (sys_ioctl P fd (TUNSETIFF ifname IFF_TUN_NO_PI))) (\<lambda>r.
     if ifr_rc r < 0 then bnd (do_close P fd) (\<lambda>_. bnd (free_tun tun) (\<lambda>_. ret NULL)) else
     bnd (upd_tun tun (\<lambda>t. t\<lparr>tun_fd := fd, tun_name := strncpy0 IFNAMSIZ (ifr_name r)\<rparr>)) (\<lambda>_.
     ret tun)))))"

text \<open>A request on the configuration socket; when it fails the socket is closed and the result is -1.\<close>

definition ioctl_or_close :: "'k posix \<Rightarrow> int \<Rightarrow> ifreq \<Rightarrow> (ifreply \<Rightarrow> ('k, 't, int) net_prog) \<Rightarrow> ('k, 't, int) net_prog" where
  "ioctl_or_close P sockfd req f =
     bnd (kcall (sys_ioctl P sockfd req)) (\<lambda>r.
     if ifr_rc r < 0 then bnd (do_close P sockfd) (\<lambda>_. ret (-1)) else f r)"

definition tun_device_configure ::
  "'k posix \<Rightarrow> ptr \<Rightarrow> string option \<Rightarrow> string option \<Rightarrow> int \<Rightarrow> ('k, 't, int) net_prog" where
  "tun_device_configure P tun ip netmask mtu =
     (if tun = NULL \<or> ip = None \<or> netmask = None then ret (-1) else
      bnd (do_socket P) (\<lambda>sockfd.
      if sockfd < 0 then ret (-1) else
      bnd (load tun_heap tun) (\<lambda>t.
      let ifname = strncpy0 IFNAMSIZ (tun_name t) in
      case inet_pton4 P (the ip) of
        None \<Rightarrow> bnd (do_close P sockfd) (\<lambda>_. ret (-1))
      | Some a \<Rightarrow> ioctl_or_close P sockfd (SIOCSIFADDR ifname (sockaddr_in 0 a)) (\<lambda>_.
        case inet_pton4 P (the netmask) of
          None \<Rightarrow> bnd (do_close P sockfd) (\<lambda>_. ret (-1))
        | Some m \<Rightarrow> ioctl_or_close P sockfd (SIOCSIFNETMASK ifname (sockaddr_in 0 m)) (\<lambda>_.
          ioctl_or_close P sockfd (SIOCSIFMTU ifname mtu) (\<lambda>_.
          bnd (do_close P sockfd) (\<lambda>_.
          bnd (upd_tun tun (\<lambda>t. t\<lparr>tun_ip := strncpy0 16 (the ip), tun_netmask := strncpy0 16 (the netmask), tun_mtu := mtu\<rparr>)) (\<lambda>_.
          ret 0))))))))"

definition tun_device_disable_ipv6 :: "'k posix \<Rightarrow> string \<Rightarrow> ('k, 't, int) net_prog" where
  "tun_device_disable_ipv6 P ifname =
     bnd (kcall (sys_fopen P (take 255 (''/proc/sys/net/ipv6/conf/'' @ ifname @ ''/disable_ipv6'')))) (\<lambda>f.
     if \<not> f then ret (-1) else
     bnd (kcall (sys_fprintf P [CHR ''1'', CHR 0x0A])) (\<lambda>rc.
     bnd (kdo (sys_fclose P)) (\<lambda>_.
     if rc < 0 then ret (-1) else ret 0)))"

definition tun_device_up :: "'k posix \<Rightarrow> ptr \<Rightarrow> ('k, 't, int) net_prog" where
  "tun_device_up P tun =
     (if tun = NULL then ret (-1) else
      bnd (do_socket P) (\<lambda>sockfd.
      if sockfd < 0 then ret (-1) else
      bnd (load tun_heap tun) (\<lambda>t.
      let ifname = strncpy0 IFNAMSIZ (tun_name t) in
      ioctl_or_close P sockfd (SIOCGIFFLAGS ifname) (\<lambda>r.
      ioctl_or_close P sockfd (SIOCSIFFLAGS ifname (ifr_flags r OR (IFF_UP OR IFF_RUNNING))) (\<lambda>_.
      bnd (do_close P sockfd) (\<lambda>_.
      bnd (tun_device_disable_ipv6 P (tun_name t)) (\<lambda>_.
      ret 0)))))))"

definition tun_device_down :: "'k posix \<Rightarrow> ptr \<Rightarrow> ('k, 't, int) net_prog" where
  "tun_device_down P tun =
     (if tun = NULL then ret (-1) else
      bnd (do_socket P) (\<lambda>sockfd.
      if sockfd < 0 then ret (-1) else
      bnd (load tun_heap tun) (\<lambda>t.
      let ifname = strncpy0 IFNAMSIZ (tun_name t) in
      ioctl_or_close P sockfd (SIOCGIFFLAGS ifname) (\<lambda>r.
      ioctl_or_close P sockfd (SIOCSIFFLAGS ifname (ifr_flags r AND NOT IFF_UP)) (\<lambda>_.
      bnd (do_close P sockfd) (\<lambda>_.
      ret 0))))))"

definition tun_device_destroy :: "'k posix \<Rightarrow> ptr \<Rightarrow> ('k, 't, unit) net_prog" where
  "tun_device_destroy P tun =
     (if tun = NULL then ret () else
      bnd (load tun_heap tun) (\<lambda>t.
      bnd (if 0 \<le> tun_fd t then do_close P (tun_fd t) else ret ()) (\<lambda>_.
      free_tun tun)))"

definition new_tun_device :: "'k posix \<Rightarrow> string option \<Rightarrow> string option \<Rightarrow> string option \<Rightarrow> int \<Rightarrow> ('k, 't, ptr) net_prog" where
  "new_tun_device P ifname ip netmask mtu =
     bnd (tun_device_create P ifname) (\<lambda>tun.
     if tun = NULL then ret NULL else
     bnd (tun_device_configure P tun ip netmask mtu) (\<lambda>rc.
     if rc < 0 then bnd (tun_device_destroy P tun) (\<lambda>_. ret NULL) else
     bnd (tun_device_up P tun) (\<lambda>rc.
     if rc < 0 then bnd (tun_device_destroy P tun) (\<lambda>_. ret NULL) else
     ret tun)))"

section \<open>What stays the same\<close>

text \<open>
  Everything below the TUN device: the io-uring component, connections, OpenSSL. \<open>sys_frame\<close> also
  says that nothing has been handed to or taken from the ring.
\<close>

definition sys_frame :: "('k, 't) net_state \<Rightarrow> ('k, 't) net_state \<Rightarrow> bool" where
  "sys_frame s s' \<longleftrightarrow> ctx_heap s' = ctx_heap s \<and> op_heap s' = op_heap s \<and> buf_heap s' = buf_heap s \<and>
     tw s' = tw s \<and> dtls_heap s' = dtls_heap s \<and> conn_heap s' = conn_heap s \<and> fwd_heap s' = fwd_heap s \<and>
     inflight (trace s') = inflight (trace s) \<and> provided (trace s') = provided (trace s)"

lemma sys_frame_refl [simp]: "sys_frame s s"
  by (simp add: sys_frame_def)

lemma sys_frame_trans: "sys_frame s s' \<Longrightarrow> sys_frame s' s'' \<Longrightarrow> sys_frame s s''"
  by (simp add: sys_frame_def)

text \<open>A step on the configuration socket keeps it open or ends with -1 and the socket closed.\<close>

definition cfg_post :: "ptr \<Rightarrow> ('k, 't) net_state \<Rightarrow> int \<Rightarrow> ('k, 't) net_state \<Rightarrow> bool" where
  "cfg_post tun s rc s' \<longleftrightarrow> (rc = 0 \<or> rc = -1) \<and> sys_frame s s' \<and> open_fds (trace s') = open_fds (trace s) \<and>
     next_addr s' = next_addr s \<and> (\<forall>q. q \<noteq> tun \<longrightarrow> tun_heap s' q = tun_heap s q) \<and>
     map_option tun_fd (tun_heap s' tun) = map_option tun_fd (tun_heap s tun)"

lemma configure_ok:
  assumes "tun \<noteq> NULL \<longrightarrow> tun_heap s tun \<noteq> None"
  shows "wp (tun_device_configure P tun ip netmask mtu) (cfg_post tun s) s"
  using assms
  by (auto simp: tun_device_configure_def ioctl_or_close_def wp_simps Let_def cfg_post_def sys_frame_def
    split: prod.splits option.splits)

lemma up_ok:
  assumes "tun \<noteq> NULL \<longrightarrow> tun_heap s tun \<noteq> None"
  shows "wp (tun_device_up P tun) (cfg_post tun s) s"
  using assms
  by (auto simp: tun_device_up_def tun_device_disable_ipv6_def ioctl_or_close_def wp_simps Let_def cfg_post_def sys_frame_def
    split: prod.splits option.splits)

lemma down_ok:
  assumes "tun \<noteq> NULL \<longrightarrow> tun_heap s tun \<noteq> None"
  shows "wp (tun_device_down P tun) (cfg_post tun s) s"
  using assms
  by (auto simp: tun_device_down_def ioctl_or_close_def wp_simps Let_def cfg_post_def sys_frame_def
    split: prod.splits option.splits)

end
