(* ===== verification/Dtls_Context.thy ===== *)
theory Dtls_Context
  imports Tun_Device
begin

text \<open>
  \<^verbatim>\<open>src/dtls_context.c\<close>: DTLS contexts for servers and clients, SSL objects, the memory BIOs between
  OpenSSL and the network, cookies and error strings. The trace records every OpenSSL object
  that is created and released; \<open>tls_live\<close> reads off it what the program still has to release.
\<close>

section \<open>Calls into OpenSSL\<close>

text \<open>Calls that create or release an object, or that need an SSL object (NULL is dereferenced).\<close>

definition tls_new :: "(ptr \<Rightarrow> event) \<Rightarrow> ('t \<Rightarrow> ptr \<times> 't) \<Rightarrow> ('k, 't, ptr) net_prog" where
  "tls_new ev f = bnd (tcall f) (\<lambda>p. if p = NULL then ret NULL else bnd (log_ev (ev p)) (\<lambda>_. ret p))"

definition SSL_CTX_free :: "'t openssl \<Rightarrow> ptr \<Rightarrow> ('k, 't, unit) net_prog" where
  "SSL_CTX_free T p = bnd (tdo (ssl_ctx_free T p)) (\<lambda>_. log_ev (Ev_ssl_ctx_free p))"

definition SSL_free :: "'t openssl \<Rightarrow> ptr \<Rightarrow> ('k, 't, unit) net_prog" where
  "SSL_free T p = bnd (tdo (ssl_free T p)) (\<lambda>_. log_ev (Ev_ssl_free p))"

definition BIO_free :: "'t openssl \<Rightarrow> ptr \<Rightarrow> ('k, 't, unit) net_prog" where
  "BIO_free T p = bnd (tdo (bio_free T p)) (\<lambda>_. log_ev (Ev_bio_free p))"

definition with_ssl :: "ptr \<Rightarrow> ('k, 't, 'a) net_prog \<Rightarrow> ('k, 't, 'a) net_prog" where
  "with_ssl ssl m = (if ssl = NULL then throwf Null_deref else m)"

definition SSL_get_error :: "'t openssl \<Rightarrow> ptr \<Rightarrow> int \<Rightarrow> ('k, 't, int) net_prog" where
  "SSL_get_error T ssl rc = with_ssl ssl (gets (\<lambda>s. ssl_get_error T ssl rc (tw s)))"

lemma wp_tls_objs [wp_simps]:
  "wp (tls_new ev f) Q1 = (\<lambda>s. case f (tw s) of (p, w) \<Rightarrow>
     if p = NULL then Q1 NULL (s\<lparr>tw := w\<rparr>) else Q1 p (s\<lparr>tw := w, trace := ev p # trace s\<rparr>))"
  "wp (SSL_CTX_free T p) Q = (\<lambda>s. Q () (s\<lparr>tw := ssl_ctx_free T p (tw s), trace := Ev_ssl_ctx_free p # trace s\<rparr>))"
  "wp (SSL_free T p) Q = (\<lambda>s. Q () (s\<lparr>tw := ssl_free T p (tw s), trace := Ev_ssl_free p # trace s\<rparr>))"
  "wp (BIO_free T p) Q = (\<lambda>s. Q () (s\<lparr>tw := bio_free T p (tw s), trace := Ev_bio_free p # trace s\<rparr>))"
  "wp (with_ssl p m) Q2 = (\<lambda>s. p \<noteq> NULL \<and> wp m Q2 s)"
  "wp (SSL_get_error T p rc) Q3 = (\<lambda>s. p \<noteq> NULL \<and> Q3 (ssl_get_error T p rc (tw s)) s)"
  by (auto simp: tls_new_def SSL_CTX_free_def SSL_free_def BIO_free_def with_ssl_def SSL_get_error_def wp_simps fun_eq_iff
    split: prod.splits)

section \<open>The code\<close>

text \<open>\<^verbatim>\<open>generate_cookie\<close>: the result, the cookie buffer after the call, and the cookie length.\<close>

definition generate_cookie :: "byte list \<Rightarrow> int \<times> byte list \<times> nat" where
  "generate_cookie cookie = (1, overwrite 0 (replicate 16 0xAB) cookie, 16)"

definition verify_cookie :: "byte list \<Rightarrow> nat \<Rightarrow> int" where
  "verify_cookie cookie cookie_len = (if cookie_len = 16 then 1 else 0)"

text \<open>The common error exit of both context functions: release the SSL context and the structure.\<close>

definition ctx_fail :: "'t openssl \<Rightarrow> ptr \<Rightarrow> ptr \<Rightarrow> ('k, 't, ptr) net_prog" where
  "ctx_fail T c d = bnd (SSL_CTX_free T c) (\<lambda>_. bnd (free_dtls d) (\<lambda>_. ret NULL))"

definition cipher_list :: string where
  "cipher_list = ''HIGH:!aNULL:!MD5:!RC4''"

definition dtls_server_context_init ::
  "'k posix \<Rightarrow> 't openssl \<Rightarrow> string option \<Rightarrow> string option \<Rightarrow> ('k, 't, ptr) net_prog" where
  "dtls_server_context_init P T cert_file key_file =
     (if cert_file = None \<or> key_file = None then ret NULL else
      bnd (calloc_dtls P) (\<lambda>d.
      if d = NULL then ret NULL else
      bnd (upd_dtls d (\<lambda>x. x\<lparr>dc_is_server := True, dc_cert_file := strncpy0 256 (the cert_file),
        dc_key_file := strncpy0 256 (the key_file)\<rparr>)) (\<lambda>_.
      bnd (tls_new Ev_ssl_ctx_new (ssl_ctx_new T True)) (\<lambda>c.
      bnd (upd_dtls d (\<lambda>x. x\<lparr>dc_ctx := c\<rparr>)) (\<lambda>_.
      if c = NULL then bnd (free_dtls d) (\<lambda>_. ret NULL) else
      bnd (tcall (ssl_ctx_use_certificate_file T c (the cert_file))) (\<lambda>rc.
      if rc \<noteq> 1 then ctx_fail T c d else
      bnd (tcall (ssl_ctx_use_private_key_file T c (the key_file))) (\<lambda>rc.
      if rc \<noteq> 1 then ctx_fail T c d else
      bnd (tcall (ssl_ctx_check_private_key T c)) (\<lambda>rc.
      if rc \<noteq> 1 then ctx_fail T c d else
      bnd (tcall (ssl_ctx_set_cipher_list T c cipher_list)) (\<lambda>rc.
      if rc \<noteq> 1 then ctx_fail T c d else
      bnd (tdo (ssl_ctx_set_cookie_cbs T c)) (\<lambda>_.
      ret d))))))))))"

definition dtls_client_context_init ::
  "'k posix \<Rightarrow> 't openssl \<Rightarrow> string option \<Rightarrow> ('k, 't, ptr) net_prog" where
  "dtls_client_context_init P T ca_file =
     bnd (calloc_dtls P) (\<lambda>d.
     if d = NULL then ret NULL else
     bnd (upd_dtls d (\<lambda>x. x\<lparr>dc_is_server := False\<rparr>)) (\<lambda>_.
     bnd (tls_new Ev_ssl_ctx_new (ssl_ctx_new T False)) (\<lambda>c.
     bnd (upd_dtls d (\<lambda>x. x\<lparr>dc_ctx := c\<rparr>)) (\<lambda>_.
     if c = NULL then bnd (free_dtls d) (\<lambda>_. ret NULL) else
     let ciphers = bnd (tcall (ssl_ctx_set_cipher_list T c cipher_list)) (\<lambda>rc.
       if rc \<noteq> 1 then ctx_fail T c d else ret d)
     in case ca_file of
       Some ca \<Rightarrow>
         bnd (tcall (ssl_ctx_load_verify_locations T c ca)) (\<lambda>rc.
         if rc \<noteq> 1 then ctx_fail T c d else
         bnd (tdo (ssl_ctx_set_verify T c True)) (\<lambda>_.
         bnd (upd_dtls d (\<lambda>x. x\<lparr>dc_cert_file := strncpy0 256 ca\<rparr>)) (\<lambda>_. ciphers)))
     | None \<Rightarrow> bnd (tdo (ssl_ctx_set_verify T c False)) (\<lambda>_. ciphers)))))"

definition dtls_create_ssl :: "'t openssl \<Rightarrow> ptr \<Rightarrow> ('k, 't, ptr) net_prog" where
  "dtls_create_ssl T d =
     (if d = NULL then ret NULL else
      bnd (load dtls_heap d) (\<lambda>x.
      if dc_ctx x = NULL then ret NULL else
      bnd (tls_new Ev_ssl_new (ssl_new T (dc_ctx x))) (\<lambda>ssl.
      if ssl = NULL then ret NULL else
      bnd (tdo (ssl_set_mtu T ssl 1400)) (\<lambda>_.
      ret ssl))))"

text \<open>The result is the return code with the two BIOs that the caller's pointers receive.\<close>

definition dtls_setup_bio_pair :: "'t openssl \<Rightarrow> ptr \<Rightarrow> ('k, 't, int \<times> ptr \<times> ptr) net_prog" where
  "dtls_setup_bio_pair T ssl =
     (if ssl = NULL then ret (-1, NULL, NULL) else
      bnd (tls_new Ev_bio_new (bio_new T)) (\<lambda>rb.
      bnd (tls_new Ev_bio_new (bio_new T)) (\<lambda>wb.
      if rb = NULL \<or> wb = NULL then
        bnd (if rb \<noteq> NULL then BIO_free T rb else ret ()) (\<lambda>_.
        bnd (if wb \<noteq> NULL then BIO_free T wb else ret ()) (\<lambda>_.
        ret (-1, NULL, NULL)))
      else
        bnd (tdo (bio_set_mem_eof_return T rb (-1))) (\<lambda>_.
        bnd (tdo (bio_set_mem_eof_return T wb (-1))) (\<lambda>_.
        bnd (tdo (ssl_set_bio T ssl rb wb)) (\<lambda>_.
        bnd (log_ev (Ev_set_bio ssl rb wb)) (\<lambda>_.
        bnd (gets (\<lambda>s. ssl_is_server T ssl (tw s))) (\<lambda>srv.
        bnd (tdo (ssl_set_state T ssl srv)) (\<lambda>_.
        bnd (log_ev (Ev_set_state ssl srv)) (\<lambda>_.
        ret (0, rb, wb)))))))))))"

definition dtls_context_cleanup :: "'t openssl \<Rightarrow> ptr \<Rightarrow> ('k, 't, unit) net_prog" where
  "dtls_context_cleanup T d =
     (if d = NULL then ret () else
      bnd (load dtls_heap d) (\<lambda>x.
      bnd (if dc_ctx x \<noteq> NULL then SSL_CTX_free T (dc_ctx x) else ret ()) (\<lambda>_.
      free_dtls d)))"

definition dtls_ssl_cleanup :: "'t openssl \<Rightarrow> ptr \<Rightarrow> ('k, 't, unit) net_prog" where
  "dtls_ssl_cleanup T ssl = (if ssl \<noteq> NULL then SSL_free T ssl else ret ())"

definition error_name :: "int \<Rightarrow> string" where
  "error_name err =
     (if err = SSL_ERROR_NONE then ''No error''
      else if err = SSL_ERROR_ZERO_RETURN then ''Connection closed''
      else if err = SSL_ERROR_WANT_READ then ''Want read''
      else if err = SSL_ERROR_WANT_WRITE then ''Want write''
      else if err = SSL_ERROR_WANT_CONNECT then ''Want connect''
      else if err = SSL_ERROR_WANT_ACCEPT then ''Want accept''
      else if err = SSL_ERROR_WANT_X509_LOOKUP then ''Want X509 lookup''
      else if err = SSL_ERROR_SYSCALL then ''System call error''
      else if err = SSL_ERROR_SSL then ''SSL error''
      else ''Unknown error'')"

definition dtls_get_error_string :: "'t openssl \<Rightarrow> ptr \<Rightarrow> int \<Rightarrow> ('k, 't, string) net_prog" where
  "dtls_get_error_string T ssl rc = bnd (SSL_get_error T ssl rc) (\<lambda>err. ret (error_name err))"

lemma wp_error_string [wp_simps]:
  "wp (dtls_get_error_string T ssl rc) Q = (\<lambda>s. ssl \<noteq> NULL \<and> Q (error_name (ssl_get_error T ssl rc (tw s))) s)"
  by (simp add: dtls_get_error_string_def wp_simps)

section \<open>What stays the same\<close>

text \<open>DTLS setup touches OpenSSL and the DTLS structures only.\<close>

definition tls_frame :: "('k, 't) net_state \<Rightarrow> ('k, 't) net_state \<Rightarrow> bool" where
  "tls_frame s s' \<longleftrightarrow> ctx_heap s' = ctx_heap s \<and> op_heap s' = op_heap s \<and> buf_heap s' = buf_heap s \<and>
     tun_heap s' = tun_heap s \<and> conn_heap s' = conn_heap s \<and> fwd_heap s' = fwd_heap s \<and>
     inflight (trace s') = inflight (trace s) \<and> provided (trace s') = provided (trace s) \<and> open_fds (trace s') = open_fds (trace s)"

lemma tls_frame_refl [simp]: "tls_frame s s"
  by (simp add: tls_frame_def)

lemma tls_frame_trans: "tls_frame s s' \<Longrightarrow> tls_frame s' s'' \<Longrightarrow> tls_frame s s''"
  by (simp add: tls_frame_def)

text \<open>
  The result of setting up a context in a state where \<open>d0\<close> is unused: NULL, and nothing is left
  behind; or a new structure with a new SSL context, which are all there is to release.
\<close>

definition context_post :: "bool \<Rightarrow> ('k, 't) net_state \<Rightarrow> ptr \<Rightarrow> ('k, 't) net_state \<Rightarrow> bool" where
  "context_post server s d s' \<longleftrightarrow> tls_frame s s' \<and>
     (if d = NULL then dtls_heap s' = dtls_heap s \<and> tls_live (trace s') = tls_live (trace s)
      else d = next_addr s \<and> (\<exists>x. dtls_heap s' = (dtls_heap s)(d \<mapsto> x) \<and> dc_is_server x = server \<and> dc_ctx x \<noteq> NULL \<and>
        tls_live (trace s') = dc_ctx x # tls_live (trace s)))"

lemma server_context_ok:
  assumes "next_addr s \<noteq> NULL" and "dtls_heap s (next_addr s) = None"
  shows "wp (dtls_server_context_init P T cert key) (context_post True s) s"
  using assms
  by (auto simp: dtls_server_context_init_def ctx_fail_def calloc_dtls_def wp_simps context_post_def tls_frame_def
    split: prod.splits)

lemma client_context_ok:
  assumes "next_addr s \<noteq> NULL" and "dtls_heap s (next_addr s) = None"
  shows "wp (dtls_client_context_init P T ca) (context_post False s) s"
  using assms
  by (auto simp: dtls_client_context_init_def ctx_fail_def calloc_dtls_def wp_simps Let_def context_post_def tls_frame_def
    split: prod.splits option.splits)

lemma create_ssl_ok:
  assumes "d \<noteq> NULL \<longrightarrow> dtls_heap s d \<noteq> None"
  shows "wp (dtls_create_ssl T d) (\<lambda>ssl s'. tls_frame s s' \<and> dtls_heap s' = dtls_heap s \<and>
    tls_live (trace s') = (if ssl = NULL then tls_live (trace s) else ssl # tls_live (trace s))) s"
  using assms by (auto simp: dtls_create_ssl_def wp_simps tls_frame_def split: prod.splits)

lemma setup_bio_pair_ok:
  "wp (dtls_setup_bio_pair T ssl) (\<lambda>(rc, rb, wb) s'. tls_frame s s' \<and> dtls_heap s' = dtls_heap s \<and> (rc = 0 \<or> rc = -1) \<and>
    (rc = 0 \<longrightarrow> ssl \<noteq> NULL \<and> rb \<noteq> NULL \<and> wb \<noteq> NULL) \<and> tls_live (trace s') = tls_live (trace s)) s"
  by (auto simp: dtls_setup_bio_pair_def wp_simps tls_frame_def split: prod.splits)

end
