(* ===== verification/Uring.thy ===== *)
theory Uring
  imports Uring_Pool
begin

text \<open>
  The rest of \<^verbatim>\<open>src/iouring.c\<close>: setup and cleanup of the io-uring context, the buffer ring for
  multishot receives, allocation and release of operations (with the transfer of a received
  buffer to a send operation), the submission functions, waiting for completions. Every
  function is written branch by branch; \<^verbatim>\<open>assert\<close> is \<open>c_assert\<close>. Pointers to pointers
  (\<^verbatim>\<open>io_op_t **\<close>) become return values. The logging calls have no effect on the state; where
  they read memory (the hex dump of a multishot payload) the read is kept.
\<close>

section \<open>Access to data memory\<close>

fun load_bytes :: "mptr \<Rightarrow> nat \<Rightarrow> (('k, 'z) uring_state_scheme, byte list) prog" where
  "load_bytes MNull n = throwf Null_deref"
| "load_bytes (MBuf b) n = bnd (load buf_heap b) (\<lambda>r.
     if n \<le> length (ba_buf r) then ret (take n (ba_buf r)) else throwf Out_of_bounds)"
| "load_bytes (MAddr b) n = bnd (load buf_heap b) (\<lambda>r.
     if n \<le> length (ba_addr r) then ret (take n (ba_addr r)) else throwf Out_of_bounds)"
| "load_bytes (MRing c off) n = bnd (load ctx_heap c) (\<lambda>x.
     case br_bufs x of None \<Rightarrow> throwf Bad_pointer
     | Some mem \<Rightarrow> if off + n \<le> length mem then ret (take n (drop off mem)) else throwf Out_of_bounds)"

fun store_bytes :: "mptr \<Rightarrow> byte list \<Rightarrow> (('k, 'z) uring_state_scheme, unit) prog" where
  "store_bytes MNull bs = throwf Null_deref"
| "store_bytes (MBuf b) bs = bnd (load buf_heap b) (\<lambda>r.
     if length bs \<le> length (ba_buf r) then upd_buf b (\<lambda>r. r\<lparr>ba_buf := overwrite 0 bs (ba_buf r)\<rparr>)
     else throwf Out_of_bounds)"
| "store_bytes (MAddr b) bs = bnd (load buf_heap b) (\<lambda>r.
     if length bs \<le> length (ba_addr r) then upd_buf b (\<lambda>r. r\<lparr>ba_addr := overwrite 0 bs (ba_addr r)\<rparr>)
     else throwf Out_of_bounds)"
| "store_bytes (MRing c off) bs = bnd (load ctx_heap c) (\<lambda>x.
     case br_bufs x of None \<Rightarrow> throwf Bad_pointer
     | Some mem \<Rightarrow> if off + length bs \<le> length mem
         then upd_ctx c (\<lambda>x. x\<lparr>br_bufs := Some (overwrite off bs mem)\<rparr>) else throwf Out_of_bounds)"

text \<open>\<^verbatim>\<open>memcpy(dst, src, n)\<close> from a local byte array.\<close>

definition memcpy_in :: "mptr \<Rightarrow> byte list \<Rightarrow> nat \<Rightarrow> (('k, 'z) uring_state_scheme, unit) prog" where
  "memcpy_in dst src n = (if n \<le> length src then store_bytes dst (take n src) else throwf Out_of_bounds)"

text \<open>The kernel's writes into user memory that come with a completion.\<close>

fun dma :: "(mptr \<times> byte list) list \<Rightarrow> (('k, 'z) uring_state_scheme, unit) prog" where
  "dma [] = ret ()"
| "dma ((m, bs) # ws) = bnd (store_bytes m bs) (\<lambda>_. dma ws)"

section \<open>Calls into liburing\<close>

definition uring_get_sqe :: "'k liburing \<Rightarrow> (('k, 'z) uring_state_scheme, bool) prog" where
  "uring_get_sqe U = kcall (get_sqe U)"

definition uring_prep :: "'k liburing \<Rightarrow> sqe \<Rightarrow> (('k, 'z) uring_state_scheme, unit) prog" where
  "uring_prep U e = bnd (kdo (prep U e)) (\<lambda>_. log_ev (Ev_prep e))"

definition uring_submit :: "'k liburing \<Rightarrow> (('k, 'z) uring_state_scheme, int) prog" where
  "uring_submit U = bnd (kcall (submit U)) (\<lambda>r. bnd (log_ev (Ev_submit r)) (\<lambda>_. ret r))"

definition uring_br_add :: "'k liburing \<Rightarrow> nat \<Rightarrow> nat \<Rightarrow> nat \<Rightarrow> (('k, 'z) uring_state_scheme, unit) prog" where
  "uring_br_add U bid off slot = bnd (kdo (buf_ring_add U bid off slot)) (\<lambda>_. log_ev (Ev_br_add bid off slot))"

definition uring_br_advance :: "'k liburing \<Rightarrow> nat \<Rightarrow> (('k, 'z) uring_state_scheme, unit) prog" where
  "uring_br_advance U n = bnd (kdo (buf_ring_advance U n)) (\<lambda>_. log_ev (Ev_br_advance n))"

lemmas uring_call_defs =
  uring_get_sqe_def uring_prep_def uring_submit_def uring_br_add_def uring_br_advance_def

definition op_type_str :: "int \<Rightarrow> string" where
  "op_type_str t =
     (if t = OP_TYPE_TUN_READ then ''TUN read''
      else if t = OP_TYPE_TUN_WRITE then ''TUN write''
      else if t = OP_TYPE_UDP_RECV then ''UDP recv''
      else if t = OP_TYPE_UDP_SEND then ''UDP send''
      else ''UNKNOWN'')"

section \<open>Operations: allocation and release\<close>

definition iouring_recycle_buffer :: "'k liburing \<Rightarrow> ptr \<Rightarrow> ptr \<Rightarrow> (('k, 'z) uring_state_scheme, unit) prog" where
  "iouring_recycle_buffer U ctx op =
     (if op = NULL then throwf Assert_failed else
      bnd (load op_heap op) (\<lambda>r.
      bnd (c_assert (op_buf_addr r = NULL \<and> 0 \<le> buf_idx r)) (\<lambda>_.
      bnd (load ctx_heap ctx) (\<lambda>c.
      if \<not> br c then throwf Null_deref else
      bnd (uring_br_add U (nat (buf_idx r)) (nat (buf_idx r) * BUF_SIZE) 0) (\<lambda>_.
      bnd (uring_br_advance U 1) (\<lambda>_.
      upd_op op (\<lambda>r. r\<lparr>buf_idx := -1\<rparr>)))))))"

text \<open>\<open>buf_owner\<close> is NULL, or the completed operation whose buffer the new operation takes over.\<close>

definition io_op_alloc_buf ::
  "ptr \<Rightarrow> int \<Rightarrow> int \<Rightarrow> bool \<Rightarrow> ptr \<Rightarrow> (('k, 'z) uring_state_scheme, ptr) prog" where
  "io_op_alloc_buf ctx typ fd multi buf_owner =
     bnd (iouring_get_io_op ctx) (\<lambda>op.
     if op = NULL then ret NULL else
     bnd (upd_op op (\<lambda>r. r\<lparr>is_multi := multi, op_type := typ, op_fd := fd\<rparr>)) (\<lambda>_.
     if multi then ret op
     else if buf_owner = NULL then
       bnd (iouring_get_buf_addr ctx) (\<lambda>ba.
       if ba = NULL then bnd (iouring_put_io_op ctx op) (\<lambda>_. ret NULL)
       else bnd (upd_op op (\<lambda>r. r\<lparr>op_buf_addr := ba, op_buffer := MBuf ba, op_addr := MAddr ba\<rparr>)) (\<lambda>_.
         ret op))
     else
       bnd (load op_heap buf_owner) (\<lambda>o'.
       if \<not> is_multi o' then
         (if op_buf_addr o' = NULL then throwf Null_deref else
          bnd (upd_op op (\<lambda>r. r\<lparr>data_len := data_len o', op_buf_addr := op_buf_addr o',
            op_buffer := MBuf (op_buf_addr o'), op_addr := MAddr (op_buf_addr o')\<rparr>)) (\<lambda>_.
          bnd (upd_op buf_owner (\<lambda>r. r\<lparr>op_buf_addr := NULL\<rparr>)) (\<lambda>_. ret op)))
       else
         bnd (upd_op op (\<lambda>r. r\<lparr>buf_idx := buf_idx o', op_buffer := op_buffer o', data_len := data_len o'\<rparr>)) (\<lambda>_.
         bnd (upd_op buf_owner (\<lambda>r. r\<lparr>buf_idx := DO_NOT_FREE\<rparr>)) (\<lambda>_. ret op)))))"

definition io_op_alloc :: "ptr \<Rightarrow> int \<Rightarrow> int \<Rightarrow> bool \<Rightarrow> (('k, 'z) uring_state_scheme, ptr) prog" where
  "io_op_alloc ctx typ fd multi = io_op_alloc_buf ctx typ fd multi NULL"

text \<open>\<^verbatim>\<open>io_op_free(ctx, &op)\<close>; the result is the new value of \<^verbatim>\<open>op\<close>.\<close>

definition io_op_free :: "'k liburing \<Rightarrow> ptr \<Rightarrow> ptr \<Rightarrow> (('k, 'z) uring_state_scheme, ptr) prog" where
  "io_op_free U ctx op =
     (if op = NULL then ret NULL else
      bnd (load op_heap op) (\<lambda>r.
      if is_multi r then
        (if 0 \<le> buf_idx r then bnd (iouring_recycle_buffer U ctx op) (\<lambda>_. ret op)
         else if buf_idx r \<noteq> DO_NOT_FREE then bnd (iouring_put_io_op ctx op) (\<lambda>_. ret NULL)
         else ret op)
      else
        bnd (c_assert (op_buf_addr r = NULL \<or> buf_idx r = -1)) (\<lambda>_.
        bnd (if op_buf_addr r \<noteq> NULL then iouring_put_buf_addr ctx (op_buf_addr r)
             else if 0 \<le> buf_idx r then iouring_recycle_buffer U ctx op
             else ret ()) (\<lambda>_.
        bnd (iouring_put_io_op ctx op) (\<lambda>_.
        ret NULL)))))"

section \<open>Multishot receives\<close>

definition iouring_submit_multishot_recvmsg_op ::
  "'k liburing \<Rightarrow> ptr \<Rightarrow> ptr \<Rightarrow> (('k, 'z) uring_state_scheme, int) prog" where
  "iouring_submit_multishot_recvmsg_op U ctx op =
     bnd (load op_heap op) (\<lambda>r.
     bnd (c_assert (is_multi r)) (\<lambda>_.
     bnd (uring_get_sqe U) (\<lambda>sqe.
     if \<not> sqe then ret (-1) else
     bnd (load ctx_heap ctx) (\<lambda>c.
     bnd (uring_prep U (Sqe_recvmsg_multishot (op_fd r) op (br_gid (config c)) op)) (\<lambda>_.
     bnd (uring_submit U) (\<lambda>rc.
     if rc < 0 then ret (-1) else ret 0))))))"

definition iouring_submit_multishot_recvmsg ::
  "'k liburing \<Rightarrow> ptr \<Rightarrow> int \<Rightarrow> (('k, 'z) uring_state_scheme, int) prog" where
  "iouring_submit_multishot_recvmsg U ctx fd =
     bnd (io_op_alloc ctx OP_TYPE_UDP_RECV fd True) (\<lambda>op.
     if op = NULL then ret (-1) else
     bnd (upd_op op (\<lambda>r. r\<lparr>op_msg := (op_msg r)\<lparr>msg_namelen := SOCKADDR_STORAGE\<rparr>\<rparr>)) (\<lambda>_.
     iouring_submit_multishot_recvmsg_op U ctx op))"

definition mp_of :: "ptr \<Rightarrow> nat \<Rightarrow> nat option \<Rightarrow> mptr" where
  "mp_of ctx base o' = (case o' of None \<Rightarrow> MNull | Some k \<Rightarrow> MRing ctx (base + k))"

text \<open>
  The second half of \<^verbatim>\<open>iouring_multishot_recvmsg_out\<close>: read address and payload out of the ring
  buffer at \<open>base\<close> (its bytes are \<open>buf\<close>) and arm the multishot receive again after its last completion.
\<close>

definition recvmsg_parse ::
  "'k liburing \<Rightarrow> ptr \<Rightarrow> ptr \<Rightarrow> 32 word \<Rightarrow> nat \<Rightarrow> byte list \<Rightarrow> (('k, 'z) uring_state_scheme, int) prog" where
  "recvmsg_parse U ctx op flags base buf =
     bnd (load op_heap op) (\<lambda>r.
     if \<not> recvmsg_validate U buf (data_len r) (op_msg r) then ret (-1) else
     let adr = mp_of ctx base (recvmsg_name U buf); adr_len = recvmsg_namelen U buf in
     bnd (upd_op op (\<lambda>r. r\<lparr>op_addr := adr, op_addr_len := adr_len\<rparr>)) (\<lambda>_.
     if adr = MNull \<or> adr_len = 0 then ret (-1) else
     let pay = mp_of ctx base (recvmsg_payload U buf (op_msg r));
         len = recvmsg_payload_length U buf (data_len r) (op_msg r) in
     bnd (upd_op op (\<lambda>r. r\<lparr>op_buffer := pay, data_len := len\<rparr>)) (\<lambda>_.
     if pay = MNull \<or> len = 0 then ret (-1) else
     bnd (load_bytes pay 4) (\<lambda>_.
     if \<not> has_more flags then
       bnd (iouring_submit_multishot_recvmsg_op U ctx op) (\<lambda>rc.
       if rc \<noteq> 0 then ret (-1) else
       bnd (upd_ctx ctx (\<lambda>c. c\<lparr>multi_recv_rearmed := multi_recv_rearmed c + 1\<rparr>)) (\<lambda>_. ret 0))
     else ret 0))))"

definition iouring_multishot_recvmsg_out ::
  "'k liburing \<Rightarrow> ptr \<Rightarrow> ptr \<Rightarrow> 32 word \<Rightarrow> (('k, 'z) uring_state_scheme, int) prog" where
  "iouring_multishot_recvmsg_out U ctx op flags =
     (if \<not> has_buffer flags then ret (-1) else
      bnd (upd_op op (\<lambda>r. r\<lparr>buf_idx := int (buffer_id flags)\<rparr>)) (\<lambda>_.
      let base = buffer_id flags * BUF_SIZE in
      bnd (load_bytes (MRing ctx base) BUF_SIZE) (\<lambda>buf.
      recvmsg_parse U ctx op flags base buf)))"

definition iouring_multishot_read_out ::
  "ptr \<Rightarrow> ptr \<Rightarrow> 32 word \<Rightarrow> (('k, 'z) uring_state_scheme, int) prog" where
  "iouring_multishot_read_out ctx op flags =
     (if \<not> has_buffer flags then ret (-1) else
      bnd (upd_op op (\<lambda>r. r\<lparr>buf_idx := int (buffer_id flags),
        op_buffer := MRing ctx (buffer_id flags * BUF_SIZE)\<rparr>)) (\<lambda>_.
      if \<not> has_more flags then ret (-1) else ret 0))"

text \<open>
  The build has no multishot read (\<^verbatim>\<open>HAS_MULTI_READ\<close> is false): the local stub of
  \<^verbatim>\<open>io_uring_prep_read_multishot\<close> asserts.
\<close>

definition io_uring_prep_read_multishot :: "(('k, 'z) uring_state_scheme, unit) prog" where
  "io_uring_prep_read_multishot = c_assert False"

definition iouring_submit_multishot_read ::
  "'k liburing \<Rightarrow> ptr \<Rightarrow> int \<Rightarrow> (('k, 'z) uring_state_scheme, int) prog" where
  "iouring_submit_multishot_read U ctx fd =
     bnd (io_op_alloc ctx OP_TYPE_UDP_RECV fd True) (\<lambda>op.
     if op = NULL then ret (-1) else
     bnd (load op_heap op) (\<lambda>r.
     bnd (c_assert (is_multi r)) (\<lambda>_.
     bnd (uring_get_sqe U) (\<lambda>sqe.
     if \<not> sqe then ret (-1) else
     bnd io_uring_prep_read_multishot (\<lambda>_.
     bnd (uring_submit U) (\<lambda>rc.
     if rc < 0 then ret (-1) else ret 0))))))"

section \<open>Single-shot submissions\<close>

definition iouring_submit_tun_read :: "'k liburing \<Rightarrow> ptr \<Rightarrow> ptr \<Rightarrow> (('k, 'z) uring_state_scheme, int) prog" where
  "iouring_submit_tun_read U ctx op =
     (if ctx = NULL \<or> op = NULL then ret (-1) else
      bnd (uring_get_sqe U) (\<lambda>sqe.
      if \<not> sqe then ret (-1) else
      bnd (load op_heap op) (\<lambda>r.
      bnd (c_assert (op_type r = OP_TYPE_TUN_READ)) (\<lambda>_.
      bnd (uring_prep U (Sqe_read (op_fd r) (op_buffer r) BUF_SIZE op)) (\<lambda>_.
      bnd (uring_submit U) (\<lambda>rc.
      if rc < 0 then ret (-1) else ret 0))))))"

text \<open>\<open>data\<close> is \<open>None\<close> when the bytes are already in the operation's buffer; otherwise they are copied.\<close>

definition copy_payload :: "ptr \<Rightarrow> byte list option \<Rightarrow> int \<Rightarrow> (('k, 'z) uring_state_scheme, unit) prog" where
  "copy_payload op data len = (case data of None \<Rightarrow> ret ()
     | Some d \<Rightarrow> bnd (load op_heap op) (\<lambda>r.
         bnd (memcpy_in (op_buffer r) d (nat len)) (\<lambda>_.
         upd_op op (\<lambda>r. r\<lparr>data_len := len\<rparr>))))"

definition iouring_submit_tun_write ::
  "'k liburing \<Rightarrow> ptr \<Rightarrow> ptr \<Rightarrow> byte list option \<Rightarrow> int \<Rightarrow> (('k, 'z) uring_state_scheme, int) prog" where
  "iouring_submit_tun_write U ctx op data len =
     (if ctx = NULL \<or> op = NULL \<or> len \<le> 0 then ret (-1) else
      bnd (load op_heap op) (\<lambda>r.
      if op_fd r < 0 then ret (-1) else
      bnd (c_assert (\<not> is_multi r)) (\<lambda>_.
      if len > int BUF_SIZE then ret (-1) else
      bnd (uring_get_sqe U) (\<lambda>sqe.
      if \<not> sqe then ret (-1) else
      bnd (c_assert (op_type r = OP_TYPE_TUN_WRITE)) (\<lambda>_.
      bnd (copy_payload op data len) (\<lambda>_.
      bnd (load op_heap op) (\<lambda>r.
      bnd (c_assert (data_len r = len)) (\<lambda>_.
      bnd (uring_prep U (Sqe_write (op_fd r) (op_buffer r) (nat (data_len r)) op)) (\<lambda>_.
      bnd (uring_submit U) (\<lambda>rc.
      if rc < 0 then ret (-1) else ret 0))))))))))"

definition iouring_submit_udp_recv :: "'k liburing \<Rightarrow> ptr \<Rightarrow> ptr \<Rightarrow> (('k, 'z) uring_state_scheme, int) prog" where
  "iouring_submit_udp_recv U ctx op =
     (if ctx = NULL \<or> op = NULL then ret (-1) else
      bnd (load op_heap op) (\<lambda>r.
      bnd (c_assert (op_type r = OP_TYPE_UDP_RECV)) (\<lambda>_.
      bnd (c_assert (\<not> is_multi r)) (\<lambda>_.
      bnd (uring_get_sqe U) (\<lambda>sqe.
      if \<not> sqe then ret (-1) else
      bnd (upd_op op (\<lambda>r. r\<lparr>op_iov := \<lparr>iov_base = op_buffer r, iov_len = BUF_SIZE\<rparr>,
        op_msg := \<lparr>msg_name = op_addr r, msg_namelen = SOCKADDR_STORAGE, msg_iov = op, msg_iovlen = 1\<rparr>,
        op_addr_len := SOCKADDR_STORAGE\<rparr>)) (\<lambda>_.
      bnd (load op_heap op) (\<lambda>r.
      bnd (uring_prep U (Sqe_recvmsg (op_fd r) (op_msg r) (op_iov r) op)) (\<lambda>_.
      bnd (uring_submit U) (\<lambda>rc.
      if rc < 0 then ret (-1) else ret 0)))))))))"

text \<open>
  The second half of a send: copy the destination address into the operation, point the message
  header at address and payload, prepare and submit.
\<close>

definition send_message ::
  "'k liburing \<Rightarrow> ptr \<Rightarrow> byte list \<Rightarrow> nat \<Rightarrow> (('k, 'z) uring_state_scheme, int) prog" where
  "send_message U op adr adr_len =
     bnd (load op_heap op) (\<lambda>r.
     bnd (memcpy_in (op_addr r) adr adr_len) (\<lambda>_.
     bnd (upd_op op (\<lambda>r. r\<lparr>op_addr_len := adr_len,
       op_iov := \<lparr>iov_base = op_buffer r, iov_len = nat (data_len r)\<rparr>,
       op_msg := (op_msg r)\<lparr>msg_name := op_addr r, msg_namelen := adr_len, msg_iov := op, msg_iovlen := 1\<rparr>\<rparr>)) (\<lambda>_.
     bnd (load op_heap op) (\<lambda>r.
     bnd (uring_prep U (Sqe_sendmsg (op_fd r) (op_msg r) (op_iov r) op)) (\<lambda>_.
     bnd (uring_submit U) (\<lambda>rc.
     if rc < 0 then ret (-1) else if rc = 0 then ret (-1) else ret 0))))))"

text \<open>\<open>adr\<close> is the destination address storage (\<open>None\<close> for NULL), of which \<open>adr_len\<close> bytes count.\<close>

definition iouring_submit_udp_send ::
  "'k liburing \<Rightarrow> ptr \<Rightarrow> ptr \<Rightarrow> byte list option \<Rightarrow> nat \<Rightarrow> byte list option \<Rightarrow> int
    \<Rightarrow> (('k, 'z) uring_state_scheme, int) prog" where
  "iouring_submit_udp_send U ctx op adr adr_len data len =
     (if ctx = NULL \<or> op = NULL \<or> adr = None \<or> len \<le> 0 then ret (-1) else
      bnd (load op_heap op) (\<lambda>r.
      if op_fd r < 0 then ret (-1) else
      if len > int BUF_SIZE then ret (-1) else
      bnd (uring_get_sqe U) (\<lambda>sqe.
      if \<not> sqe then ret (-1) else
      bnd (c_assert (op_type r = OP_TYPE_UDP_SEND)) (\<lambda>_.
      bnd (copy_payload op data len) (\<lambda>_.
      bnd (load op_heap op) (\<lambda>r.
      bnd (c_assert (data_len r = len)) (\<lambda>_.
      send_message U op (the adr) adr_len)))))))"

definition iouring_resubmit_recv :: "'k liburing \<Rightarrow> ptr \<Rightarrow> ptr \<Rightarrow> (('k, 'z) uring_state_scheme, int) prog" where
  "iouring_resubmit_recv U ctx completed =
     bnd (load op_heap completed) (\<lambda>c.
     bnd (io_op_alloc ctx (op_type c) (op_fd c) False) (\<lambda>new_op.
     if new_op = NULL then ret (-1)
     else if op_type c = OP_TYPE_TUN_READ then iouring_submit_tun_read U ctx new_op
     else if op_type c = OP_TYPE_UDP_RECV then iouring_submit_udp_recv U ctx new_op
     else ret (-1)))"

section \<open>The first receives\<close>

definition USE_MULTI_RECV :: bool where
  "USE_MULTI_RECV = True"

definition USE_MULTI_READ :: bool where
  "USE_MULTI_READ = False"

fun initial_recvs_loop ::
  "'k liburing \<Rightarrow> ptr \<Rightarrow> int \<Rightarrow> int \<Rightarrow> (ptr \<Rightarrow> (('k, 'z) uring_state_scheme, int) prog) \<Rightarrow> nat
    \<Rightarrow> (('k, 'z) uring_state_scheme, int) prog" where
  "initial_recvs_loop U ctx typ fd sub 0 = ret 0"
| "initial_recvs_loop U ctx typ fd sub (Suc n) =
     bnd (io_op_alloc ctx typ fd False) (\<lambda>op.
     if op = NULL then initial_recvs_loop U ctx typ fd sub n else
     bnd (sub op) (\<lambda>rc.
     if rc < 0 then bnd (io_op_free U ctx op) (\<lambda>_. ret 1)
     else initial_recvs_loop U ctx typ fd sub n))"

definition iouring_initial_udp_recvs :: "'k liburing \<Rightarrow> ptr \<Rightarrow> int \<Rightarrow> (('k, 'z) uring_state_scheme, int) prog" where
  "iouring_initial_udp_recvs U ctx fd =
     (if USE_MULTI_RECV then iouring_submit_multishot_recvmsg U ctx fd else
      bnd (load ctx_heap ctx) (\<lambda>c.
      initial_recvs_loop U ctx OP_TYPE_UDP_RECV fd (iouring_submit_udp_recv U ctx)
        (nat (n_initial_recv_ops (config c)))))"

definition iouring_initial_tun_reads :: "'k liburing \<Rightarrow> ptr \<Rightarrow> int \<Rightarrow> (('k, 'z) uring_state_scheme, int) prog" where
  "iouring_initial_tun_reads U ctx fd =
     (if USE_MULTI_READ then iouring_submit_multishot_read U ctx fd else
      bnd (load ctx_heap ctx) (\<lambda>c.
      initial_recvs_loop U ctx OP_TYPE_TUN_READ fd (iouring_submit_tun_read U ctx)
        (nat (n_initial_read_ops (config c)))))"

section \<open>Completions\<close>

text \<open>
  \<^verbatim>\<open>iouring_wait_cqe\<close> and \<^verbatim>\<open>iouring_peek_cqe\<close> return the code and the entry (meaningful when the
  code is 0).
\<close>

definition no_cqe :: cqe where
  "no_cqe = \<lparr>cqe_data = NULL, cqe_res = 0, cqe_flags = 0, cqe_writes = []\<rparr>"

definition iouring_wait_cqe :: "'k liburing \<Rightarrow> ptr \<Rightarrow> (('k, 'z) uring_state_scheme, int \<times> cqe) prog" where
  "iouring_wait_cqe U ctx =
     (if ctx = NULL then ret (-1, no_cqe) else
      bnd (kcall (wait_cqe_timeout U)) (\<lambda>(rc, cqe).
      if rc < 0 then (if rc = -ETIME then ret (-ETIME, cqe) else ret (-1, cqe))
      else bnd (dma (cqe_writes cqe)) (\<lambda>_. ret (0, cqe))))"

definition iouring_peek_cqe :: "'k liburing \<Rightarrow> ptr \<Rightarrow> (('k, 'z) uring_state_scheme, int \<times> cqe) prog" where
  "iouring_peek_cqe U ctx =
     (if ctx = NULL then ret (-1, no_cqe) else
      bnd (kcall (peek_cqe U)) (\<lambda>(rc, cqe).
      if rc < 0 then (if rc = -EAGAIN then ret (-EAGAIN, cqe) else ret (-1, cqe))
      else bnd (dma (cqe_writes cqe)) (\<lambda>_. ret (0, cqe))))"

definition iouring_cqe_seen :: "'k liburing \<Rightarrow> ptr \<Rightarrow> cqe \<Rightarrow> (('k, 'z) uring_state_scheme, unit) prog" where
  "iouring_cqe_seen U ctx cqe =
     (if ctx \<noteq> NULL then bnd (kdo (cqe_seen U)) (\<lambda>_. log_ev (Ev_cqe (cqe_data cqe) (cqe_flags cqe)))
      else ret ())"

section \<open>Setup and cleanup\<close>

text \<open>Buffer \<open>i\<close> starts at byte \<open>i * BUF_SIZE\<close> of the block and goes to slot \<open>i\<close>.\<close>

fun br_add_loop :: "'k liburing \<Rightarrow> nat \<Rightarrow> nat \<Rightarrow> (('k, 'z) uring_state_scheme, unit) prog" where
  "br_add_loop U i 0 = ret ()"
| "br_add_loop U i (Suc n) = bnd (uring_br_add U i (i * BUF_SIZE) i) (\<lambda>_. br_add_loop U (Suc i) n)"

definition iouring_alloc_multishot_buffers ::
  "'k posix \<Rightarrow> 'k liburing \<Rightarrow> ptr \<Rightarrow> (('k, 'z) uring_state_scheme, int) prog" where
  "iouring_alloc_multishot_buffers P U ctx =
     bnd (load ctx_heap ctx) (\<lambda>c.
     let n_bufs = br_n_bufs (config c) in
     bnd (kcall (memalign_ok P)) (\<lambda>ok.
     if \<not> ok then ret (-1) else
     bnd (upd_ctx ctx (\<lambda>c. c\<lparr>br_bufs := Some (replicate (BUF_SIZE * nat n_bufs) 0)\<rparr>)) (\<lambda>_.
     bnd (kcall (setup_buf_ring U n_bufs (br_gid (config c)))) (\<lambda>ring.
     if \<not> ring then ret (-1) else
     bnd (upd_ctx ctx (\<lambda>c. c\<lparr>br := True\<rparr>)) (\<lambda>_.
     bnd (br_add_loop U 0 (nat n_bufs)) (\<lambda>_.
     bnd (uring_br_advance U (nat n_bufs)) (\<lambda>_.
     ret 0)))))))"

definition iouring_free_buffers :: "'k liburing \<Rightarrow> ptr \<Rightarrow> (('k, 'z) uring_state_scheme, unit) prog" where
  "iouring_free_buffers U ctx =
     bnd (iouring_free_io_op_pool ctx) (\<lambda>_.
     bnd (iouring_free_buf_addr_pool ctx) (\<lambda>_.
     if USE_MULTI_RECV \<or> USE_MULTI_READ then
       bnd (load ctx_heap ctx) (\<lambda>c.
       bnd (kcall (free_buf_ring U (br_n_bufs (config c)) (br_gid (config c)))) (\<lambda>rc.
       bnd (log_ev Ev_br_free) (\<lambda>_.
       if rc \<noteq> 0 then ret () else
       upd_ctx ctx (\<lambda>c. c\<lparr>br_bufs := None\<rparr>))))
     else ret ()))"

definition iouring_alloc_buffers ::
  "'k posix \<Rightarrow> 'k liburing \<Rightarrow> ptr \<Rightarrow> (('k, 'z) uring_state_scheme, int) prog" where
  "iouring_alloc_buffers P U ctx =
     bnd (load ctx_heap ctx) (\<lambda>c.
     bnd (iouring_alloc_io_op_pool P ctx (n_io_ops (config c))) (\<lambda>rc.
     if rc \<noteq> 0 then ret (-1) else
     bnd (iouring_alloc_buf_addr_pool P ctx (n_io_ops (config c))) (\<lambda>rc.
     if rc \<noteq> 0 then ret (-1) else
     if USE_MULTI_RECV \<or> USE_MULTI_READ then
       bnd (iouring_alloc_multishot_buffers P U ctx) (\<lambda>rc.
       if rc \<noteq> 0 then ret (-1) else ret 0)
     else ret 0)))"

definition free_ctx :: "ptr \<Rightarrow> (('k, 'z) uring_state_scheme, unit) prog" where
  "free_ctx p = bnd (load ctx_heap p) (\<lambda>_.
     bnd (modify (\<lambda>s. s\<lparr>ctx_heap := (ctx_heap s)(p := None)\<rparr>)) (\<lambda>_. log_ev (Ev_free p)))"

definition iouring_init ::
  "'k posix \<Rightarrow> 'k liburing \<Rightarrow> iouring_config \<Rightarrow> (('k, 'z) uring_state_scheme, ptr) prog" where
  "iouring_init P U c =
     bnd (kcall (calloc_ok P)) (\<lambda>ok.
     if \<not> ok then ret NULL else
     bnd (gets next_addr) (\<lambda>ctx.
     bnd (modify (\<lambda>s. s\<lparr>next_addr := Suc ctx, ctx_heap := (ctx_heap s)(ctx \<mapsto>
       \<lparr>config = c, io_op_pool = NULL, buf_addr_pool = NULL, br_bufs = None, br = False,
        multi_recv_rearmed = 0\<rparr>)\<rparr>)) (\<lambda>_.
     bnd (kcall (queue_init_params U (sq_depth c) (cq_depth c))) (\<lambda>rc.
     if rc < 0 then bnd (free_ctx ctx) (\<lambda>_. ret NULL) else
     bnd (iouring_alloc_buffers P U ctx) (\<lambda>rc.
     if rc \<noteq> 0 then ret NULL else ret ctx)))))"

definition iouring_cleanup :: "'k liburing \<Rightarrow> ptr \<Rightarrow> (('k, 'z) uring_state_scheme, unit) prog" where
  "iouring_cleanup U ctx =
     (if ctx = NULL then ret () else
      bnd (iouring_free_buffers U ctx) (\<lambda>_.
      bnd (kdo (queue_exit U)) (\<lambda>_.
      bnd (log_ev Ev_queue_exit) (\<lambda>_.
      free_ctx ctx))))"

end
