(* ===== verification/Kernel_Contract.thy ===== *)
theory Kernel_Contract
  imports Uring_Pool
begin

text \<open>
  What the program relies on from liburing and the kernel, as predicates over the record
  \<open>'k liburing\<close>. \<open>K k tr\<close> relates the external state to the trace of the calls made so far (a
  kernel remembers what it was handed); \<open>kernel_ok\<close> says that the relation is kept by every
  call and that the completions delivered under it are legal: a completion belongs to an entry
  in flight, is larger than neither the buffer of that entry nor the ring buffer it names, and
  writes only there. These are the guarantees of the io_uring interface; none of them mentions
  the program's own data structures.
\<close>

section \<open>Legal completions\<close>

text \<open>A write of \<open>bs\<close> at \<open>m\<close> that a completion of the entry \<open>e\<close> may have made.\<close>

fun may_write :: "ptr \<Rightarrow> event list \<Rightarrow> 32 word \<Rightarrow> sqe \<Rightarrow> mptr \<times> byte list \<Rightarrow> bool" where
  "may_write ctx tr f (Sqe_read fd m n u) (m', bs) = (m' = m \<and> length bs \<le> n)"
| "may_write ctx tr f (Sqe_recvmsg fd h v u) (m', bs) =
     (m' = iov_base v \<and> length bs \<le> iov_len v \<or> m' = msg_name h \<and> length bs \<le> msg_namelen h)"
| "may_write ctx tr f (Sqe_recvmsg_multishot fd h g u) (m', bs) =
     (has_buffer f \<and> length bs \<le> BUF_SIZE \<and>
      (\<exists>off \<in> set [off. Ev_br_add b off sl \<leftarrow> tr, b = buffer_id f]. m' = MRing ctx off))"
| "may_write ctx tr f (Sqe_write fd m n u) w = False"
| "may_write ctx tr f (Sqe_sendmsg fd h v u) w = False"

text \<open>The largest result of an entry, and whether it completes more than once.\<close>

fun max_res :: "sqe \<Rightarrow> nat" where
  "max_res (Sqe_read fd m n u) = n"
| "max_res (Sqe_write fd m n u) = n"
| "max_res (Sqe_recvmsg fd h v u) = iov_len v"
| "max_res (Sqe_sendmsg fd h v u) = iov_len v"
| "max_res (Sqe_recvmsg_multishot fd h g u) = BUF_SIZE"

fun is_multishot :: "sqe \<Rightarrow> bool" where
  "is_multishot (Sqe_recvmsg_multishot fd h g u) = True"
| "is_multishot _ = False"

definition cqe_legal :: "ptr \<Rightarrow> event list \<Rightarrow> cqe \<Rightarrow> sqe \<Rightarrow> bool" where
  "cqe_legal ctx tr c e \<longleftrightarrow> sqe_user_data e = cqe_data c \<and> cqe_res c \<le> int (max_res e) \<and>
     (has_buffer (cqe_flags c) \<longrightarrow> is_multishot e \<and> buffer_id (cqe_flags c) \<in> set (provided tr)) \<and>
     (has_more (cqe_flags c) \<longrightarrow> is_multishot e) \<and>
     list_all (may_write ctx tr (cqe_flags c) e) (cqe_writes c)"

definition cqe_ok :: "ptr \<Rightarrow> event list \<Rightarrow> cqe \<Rightarrow> bool" where
  "cqe_ok ctx tr c \<longleftrightarrow> list_ex (cqe_legal ctx tr c) (inflight tr)"

section \<open>The kernel's side of the protocol\<close>

text \<open>Events that do not concern the ring.\<close>

fun off_ring :: "event \<Rightarrow> bool" where
  "off_ring (Ev_prep e) = False"
| "off_ring (Ev_submit r) = False"
| "off_ring (Ev_cqe p f) = False"
| "off_ring (Ev_br_add b off sl) = False"
| "off_ring (Ev_br_advance n) = False"
| "off_ring Ev_br_free = False"
| "off_ring Ev_queue_exit = False"
| "off_ring _ = True"

definition kernel_ok :: "'k liburing \<Rightarrow> ptr \<Rightarrow> ('k \<Rightarrow> event list \<Rightarrow> bool) \<Rightarrow> bool" where
  "kernel_ok U ctx K \<longleftrightarrow> (\<forall>k tr. K k tr \<longrightarrow>
     K (snd (get_sqe U k)) tr \<and>
     (\<forall>e. K (prep U e k) (Ev_prep e # tr)) \<and>
     K (snd (submit U k)) (Ev_submit (fst (submit U k)) # tr) \<and>
     (\<forall>b off sl. K (buf_ring_add U b off sl k) (Ev_br_add b off sl # tr)) \<and>
     (\<forall>n. K (buf_ring_advance U n k) (Ev_br_advance n # tr)) \<and>
     (\<forall>e. off_ring e \<longrightarrow> K k (e # tr)) \<and>
     (case wait_cqe_timeout U k of ((rc, c), k') \<Rightarrow>
        if rc < 0 then K k' tr
        else cqe_ok ctx tr c \<and> K (cqe_seen U k') (Ev_cqe (cqe_data c) (cqe_flags c) # tr)))"

text \<open>\<open>kpres\<close>: a stretch of the program after which every such relation still holds.\<close>

definition kpres :: "'k liburing \<Rightarrow> ptr \<Rightarrow> ('k, 'z) base_state_scheme \<Rightarrow> ('k, 'y) base_state_scheme \<Rightarrow> bool" where
  "kpres U ctx s s' \<longleftrightarrow> (\<forall>K. kernel_ok U ctx K \<longrightarrow> K (kw s) (trace s) \<longrightarrow> K (kw s') (trace s'))"

lemma kpres_refl: "kw s' = kw s \<Longrightarrow> trace s' = trace s \<Longrightarrow> kpres U ctx s s'"
  by (simp add: kpres_def)

lemma kpres_trans: "kpres U ctx s s' \<Longrightarrow> kpres U ctx s' s'' \<Longrightarrow> kpres U ctx s s''"
  by (auto simp: kpres_def)

lemmas kernel_ok_step = kernel_ok_def [THEN iffD1, THEN spec, THEN spec, THEN mp]

lemma kernel_okD:
  assumes "kernel_ok U ctx K" and "K k tr"
  shows "K (snd (get_sqe U k)) tr"
    and "K (prep U e k) (Ev_prep e # tr)"
    and "K (snd (submit U k)) (Ev_submit (fst (submit U k)) # tr)"
    and "K (buf_ring_add U b off sl k) (Ev_br_add b off sl # tr)"
    and "K (buf_ring_advance U n k) (Ev_br_advance n # tr)"
    and "off_ring ev \<Longrightarrow> K k (ev # tr)"
  using kernel_ok_step [OF assms] by simp_all

lemma kernel_wait:
  assumes "kernel_ok U ctx K" and "K k tr" and "wait_cqe_timeout U k = ((rc, c), k')"
  shows "rc < 0 \<Longrightarrow> K k' tr"
    and "\<not> rc < 0 \<Longrightarrow> cqe_ok ctx tr c \<and> K (cqe_seen U k') (Ev_cqe (cqe_data c) (cqe_flags c) # tr)"
proof -
  have "case wait_cqe_timeout U k of ((rc, c), k') \<Rightarrow> if rc < 0 then K k' tr
      else cqe_ok ctx tr c \<and> K (cqe_seen U k') (Ev_cqe (cqe_data c) (cqe_flags c) # tr)"
    using kernel_ok_step [OF assms(1,2)] by (elim conjE)
  then show "rc < 0 \<Longrightarrow> K k' tr"
    and "\<not> rc < 0 \<Longrightarrow> cqe_ok ctx tr c \<and> K (cqe_seen U k') (Ev_cqe (cqe_data c) (cqe_flags c) # tr)"
    by (simp_all add: assms(3))
qed

text \<open>The calls of the program: asking for a slot, submitting, recycling, anything off the ring.\<close>

lemma kpresI:
  "(\<And>K. kernel_ok U ctx K \<Longrightarrow> K (kw s) (trace s) \<Longrightarrow> K (kw s') (trace s')) \<Longrightarrow> kpres U ctx s s'"
  unfolding kpres_def by blast

lemma kpres_get:
  assumes "get_sqe U (kw s) = (ok, k)" and "kw s' = k" and "trace s' = trace s"
  shows "kpres U ctx s s'"
  by (rule kpresI) (use kernel_okD(1) [of U ctx _ "kw s" "trace s"] assms in auto)

lemma kpres_submit:
  assumes "get_sqe U (kw s) = (ok, k)" and "submit U (prep U e k) = (rc, k')"
    and "kw s' = k'" and "trace s' = Ev_submit rc # Ev_prep e # trace s"
  shows "kpres U ctx s s'"
proof (rule kpresI)
  fix K
  assume K: "kernel_ok U ctx K" "K (kw s) (trace s)"
  show "K (kw s') (trace s')"
    using kernel_okD(3) [OF K(1) kernel_okD(2) [OF K(1) kernel_okD(1) [OF K]], of e] assms by simp
qed

lemma kpres_prep_submit:
  assumes "submit U (prep U e (kw s)) = (rc, k')" and "kw s' = k'" and "trace s' = Ev_submit rc # Ev_prep e # trace s"
  shows "kpres U ctx s s'"
proof (rule kpresI)
  fix K
  assume K: "kernel_ok U ctx K" "K (kw s) (trace s)"
  show "K (kw s') (trace s')"
    using kernel_okD(3) [OF K(1) kernel_okD(2) [OF K], of e] assms by simp
qed

lemma kpres_recycle:
  assumes "kw s' = buf_ring_advance U n (buf_ring_add U b off sl (kw s))"
    and "trace s' = Ev_br_advance n # Ev_br_add b off sl # trace s"
  shows "kpres U ctx s s'"
proof (rule kpresI)
  fix K
  assume K: "kernel_ok U ctx K" "K (kw s) (trace s)"
  show "K (kw s') (trace s')"
    using kernel_okD(5) [OF K(1) kernel_okD(4) [OF K]] assms by simp
qed

lemma kpres_off:
  assumes "off_ring ev" and "kw s' = kw s" and "trace s' = ev # trace s"
  shows "kpres U ctx s s'"
  by (rule kpresI) (use kernel_okD(6) [of U ctx _ "kw s" "trace s" ev] assms in auto)

end
