(* ===== verification/Uring_Own.thy ===== *)
theory Uring_Own
  imports Uring Kernel_Contract
begin

text \<open>
  Who owns what: the invariant of the io-uring component. Every operation is in the free pool
  or live; every pool buffer is in the free pool or held by exactly one live operation; every
  ring buffer is with the ring or held by at most one live operation; the memory blocks have
  the sizes the code assumes. \<open>uinv ctx ops bufs s\<close> names the two free lists, so that the
  preservation lemmas say which operation and which buffer moves.
\<close>

section \<open>The invariant\<close>

text \<open>A live operation: \<open>n\<close> is the number of ring buffers, \<open>prov\<close> those with the ring.\<close>

definition op_wf :: "ptr list \<Rightarrow> nat \<Rightarrow> (ptr \<rightharpoonup> buf_addr) \<Rightarrow> nat list \<Rightarrow> io_op \<Rightarrow> bool" where
  "op_wf bufs n BH prov r \<longleftrightarrow>
     (is_multi r \<longrightarrow> op_buf_addr r = NULL \<and> op_type r = OP_TYPE_UDP_RECV) \<and>
     (op_buf_addr r \<noteq> NULL \<longrightarrow> op_buf_addr r \<in> dom BH \<and> op_buf_addr r \<notin> set bufs \<and> buf_idx r = -1 \<and>
        op_buffer r = MBuf (op_buf_addr r) \<and> op_addr r = MAddr (op_buf_addr r)) \<and>
     (0 \<le> buf_idx r \<longrightarrow> nat (buf_idx r) < n \<and> nat (buf_idx r) \<notin> set prov)"

text \<open>Two live operations share neither a pool buffer nor a ring buffer.\<close>

definition op_sep :: "io_op \<Rightarrow> io_op \<Rightarrow> bool" where
  "op_sep r r' \<longleftrightarrow>
     (op_buf_addr r = op_buf_addr r' \<longrightarrow> op_buf_addr r = NULL) \<and> (buf_idx r = buf_idx r' \<longrightarrow> buf_idx r < 0)"

definition own :: "ptr list \<Rightarrow> ptr list \<Rightarrow> nat \<Rightarrow> (ptr \<rightharpoonup> io_op) \<Rightarrow> (ptr \<rightharpoonup> buf_addr) \<Rightarrow> nat list \<Rightarrow> bool" where
  "own ops bufs n OH BH prov \<longleftrightarrow>
     (\<forall>p r. OH p = Some r \<and> p \<notin> set ops \<longrightarrow> op_wf bufs n BH prov r) \<and>
     (\<forall>p q r r'. OH p = Some r \<and> OH q = Some r' \<and> p \<notin> set ops \<and> q \<notin> set ops \<and> p \<noteq> q \<longrightarrow> op_sep r r') \<and>
     distinct prov \<and> (\<forall>i \<in> set prov. i < n)"

definition buf_sizes :: "(ptr \<rightharpoonup> buf_addr) \<Rightarrow> bool" where
  "buf_sizes BH \<longleftrightarrow> (\<forall>p b. BH p = Some b \<longrightarrow>
     length (ba_buf b) = BUF_SIZE \<and> length (ba_addr b) = SOCKADDR_STORAGE)"

definition ring_ok :: "iouring_ctx \<Rightarrow> bool" where
  "ring_ok c \<longleftrightarrow> br c \<and> (\<exists>mem. br_bufs c = Some mem \<and> length mem = BUF_SIZE * nat (br_n_bufs (config c)))"

definition uinv :: "ptr \<Rightarrow> ptr list \<Rightarrow> ptr list \<Rightarrow> ('k, 'z) uring_state_scheme \<Rightarrow> bool" where
  "uinv ctx ops bufs s \<longleftrightarrow> ctx \<noteq> NULL \<and> (\<exists>c. ctx_heap s ctx = Some c \<and> ring_ok c \<and>
     chain (op_nx s) (io_op_pool c) ops \<and> chain (buf_nx s) (buf_addr_pool c) bufs \<and>
     NULL \<notin> dom (op_heap s) \<and> NULL \<notin> dom (buf_heap s) \<and> buf_sizes (buf_heap s) \<and>
     own ops bufs (nat (br_n_bufs (config c))) (op_heap s) (buf_heap s) (provided (trace s)))"

text \<open>
  The entry \<open>e\<close> is one the program prepares for an operation \<open>r\<close> at \<open>p\<close>: same descriptor, and the
  memory it names is the memory the operation holds.
\<close>

fun sqe_for :: "ptr \<Rightarrow> io_op \<Rightarrow> sqe \<Rightarrow> bool" where
  "sqe_for p r (Sqe_read fd m n u) = (u = p \<and> fd = op_fd r \<and> m = op_buffer r \<and> n = BUF_SIZE \<and>
     op_type r = OP_TYPE_TUN_READ \<and> \<not> is_multi r \<and> op_buf_addr r \<noteq> NULL)"
| "sqe_for p r (Sqe_write fd m n u) = (u = p \<and> fd = op_fd r \<and> m = op_buffer r \<and> int n = data_len r \<and>
     op_type r = OP_TYPE_TUN_WRITE \<and> \<not> is_multi r)"
| "sqe_for p r (Sqe_recvmsg fd h v u) = (u = p \<and> fd = op_fd r \<and> h = op_msg r \<and> v = op_iov r \<and>
     msg_name h = op_addr r \<and> msg_namelen h = SOCKADDR_STORAGE \<and> op_addr_len r = SOCKADDR_STORAGE \<and>
     msg_iov h = p \<and> iov_base v = op_buffer r \<and> iov_len v = BUF_SIZE \<and> op_type r = OP_TYPE_UDP_RECV \<and>
     \<not> is_multi r \<and> op_buf_addr r \<noteq> NULL)"
| "sqe_for p r (Sqe_sendmsg fd h v u) = (u = p \<and> fd = op_fd r \<and> h = op_msg r \<and> v = op_iov r \<and>
     msg_name h = op_addr r \<and> msg_namelen h = op_addr_len r \<and> msg_iov h = p \<and> iov_base v = op_buffer r \<and>
     int (iov_len v) = data_len r \<and> op_type r = OP_TYPE_UDP_SEND \<and> \<not> is_multi r \<and> op_buf_addr r \<noteq> NULL)"
| "sqe_for p r (Sqe_recvmsg_multishot fd h g u) = (u = p \<and> fd = op_fd r \<and> h = p \<and> is_multi r \<and>
     msg_namelen (op_msg r) = SOCKADDR_STORAGE)"

lemma sqe_for_user_data: "sqe_for p r e \<Longrightarrow> sqe_user_data e = p"
  by (cases e) auto

text \<open>
  The kernel's view agrees with the program's: every entry in flight belongs to a live operation
  (never to one in the free pool), to at most one entry each, and matches its record.
\<close>

definition linked :: "ptr list \<Rightarrow> ('k, 'z) uring_state_scheme \<Rightarrow> bool" where
  "linked ops s \<longleftrightarrow> distinct (outstanding (trace s)) \<and>
     (\<forall>e \<in> set (inflight (trace s)). sqe_user_data e \<notin> set ops \<and>
        (\<exists>r. op_heap s (sqe_user_data e) = Some r \<and> sqe_for (sqe_user_data e) r e))"

text \<open>Every buffer is always registered with the ring at its own place in the block.\<close>

definition ring_addrs :: "event list \<Rightarrow> bool" where
  "ring_addrs tr \<longleftrightarrow> (\<forall>b off sl. Ev_br_add b off sl \<in> set tr \<longrightarrow> off = b * BUF_SIZE)"

lemma ring_addrs_Cons [simp]:
  "ring_addrs (e # tr) = ((case e of Ev_br_add b off sl \<Rightarrow> off = b * BUF_SIZE | _ \<Rightarrow> True) \<and> ring_addrs tr)"
  by (auto simp: ring_addrs_def split: event.splits)

text \<open>What every stretch of the program between two completions keeps.\<close>

definition kept :: "'k liburing \<Rightarrow> ptr \<Rightarrow> ('k, 'z) uring_state_scheme \<Rightarrow> ('k, 'z) uring_state_scheme \<Rightarrow> bool" where
  "kept U ctx s s' \<longleftrightarrow> kpres U ctx s s' \<and> uring_state.more s' = uring_state.more s \<and> next_addr s' = next_addr s \<and>
     map_option config (ctx_heap s' ctx) = map_option config (ctx_heap s ctx) \<and>
     dom (op_heap s') = dom (op_heap s) \<and> dom (buf_heap s') = dom (buf_heap s) \<and>
     (ring_addrs (trace s) \<longrightarrow> ring_addrs (trace s'))"

lemma kept_refl [simp]: "kept U ctx s s"
  by (simp add: kept_def kpres_refl)

lemma kept_trans: "kept U ctx s s' \<Longrightarrow> kept U ctx s' s'' \<Longrightarrow> kept U ctx s s''"
  by (auto simp: kept_def intro: kpres_trans)

text \<open>An operation that holds no buffer.\<close>

definition holds_nothing :: "io_op \<Rightarrow> bool" where
  "holds_nothing r \<longleftrightarrow> op_buf_addr r = NULL \<and> buf_idx r < 0"

section \<open>How ownership moves\<close>

lemmas own_defs = own_def op_wf_def op_sep_def holds_nothing_def

lemma own_wf: "own ops bufs n OH BH prov \<Longrightarrow> OH p = Some r \<Longrightarrow> p \<notin> set ops \<Longrightarrow> op_wf bufs n BH prov r"
  by (auto simp: own_def)

lemma own_sep: "own ops bufs n OH BH prov \<Longrightarrow> OH p = Some r \<Longrightarrow> OH q = Some r' \<Longrightarrow> p \<notin> set ops \<Longrightarrow>
    q \<notin> set ops \<Longrightarrow> p \<noteq> q \<Longrightarrow> op_sep r r'"
  by (auto simp: own_def)

lemma own_prov: "own ops bufs n OH BH prov \<Longrightarrow> distinct prov \<and> (\<forall>i \<in> set prov. i < n)"
  by (auto simp: own_def)

lemma op_sep_sym: "op_sep r r' = op_sep r' r"
  by (auto simp: op_sep_def)

text \<open>Re-establishing \<open>own\<close> after one operation changed: the others are judged one by one.\<close>

lemma own_changeI:
  assumes "\<And>q r. OH q = Some r \<Longrightarrow> q \<noteq> p \<Longrightarrow> q \<notin> set ops \<Longrightarrow> op_wf bufs n BH prov r"
    and "\<And>q r. OH q = Some r \<Longrightarrow> q \<noteq> p \<Longrightarrow> q \<notin> set ops \<Longrightarrow> p \<notin> set ops \<Longrightarrow> op_sep r' r"
    and "\<And>q q' r1 r2. OH q = Some r1 \<Longrightarrow> OH q' = Some r2 \<Longrightarrow> q \<noteq> p \<Longrightarrow> q' \<noteq> p \<Longrightarrow> q \<noteq> q' \<Longrightarrow>
      q \<notin> set ops \<Longrightarrow> q' \<notin> set ops \<Longrightarrow> op_sep r1 r2"
    and "p \<notin> set ops \<Longrightarrow> op_wf bufs n BH prov r'"
    and "distinct prov" and "\<And>i. i \<in> set prov \<Longrightarrow> i < n"
  shows "own ops bufs n (OH(p \<mapsto> r')) BH prov"
  unfolding own_def
proof (intro conjI allI impI ballI, goal_cases)
  case (1 q r)
  then show ?case using assms(1,4) by (auto split: if_splits)
next
  case (2 q q' r1 r2)
  then show ?case using assms(2,3) op_sep_sym [of r1 r2] by (auto split: if_splits)
qed (use assms(5,6) in auto)

lemma own_pop:
  assumes o: "own (p # ops) bufs n OH BH prov" and "holds_nothing r"
    and "is_multi r \<longrightarrow> op_type r = OP_TYPE_UDP_RECV"
  shows "own ops bufs n (OH(p \<mapsto> r)) BH prov"
  by (rule own_changeI) (use own_wf [OF o] own_sep [OF o] own_prov [OF o] assms(2,3) in
    \<open>auto simp: op_wf_def op_sep_def holds_nothing_def\<close>)

lemma own_push:
  assumes o: "own ops bufs n OH BH prov"
  shows "own (p # ops) bufs n (OH(p \<mapsto> r)) BH prov"
  by (rule own_changeI) (use own_wf [OF o] own_sep [OF o] own_prov [OF o] in auto)

text \<open>An update of an operation that keeps its buffers.\<close>

lemma own_upd:
  assumes o: "own ops bufs n OH BH prov" and r: "OH p = Some r" and "op_buf_addr r' = op_buf_addr r"
    and "buf_idx r' = buf_idx r" and "is_multi r' \<longrightarrow> is_multi r \<and> op_type r' = op_type r"
    and "op_buf_addr r \<noteq> NULL \<longrightarrow> op_buffer r' = op_buffer r \<and> op_addr r' = op_addr r"
  shows "own ops bufs n (OH(p \<mapsto> r')) BH prov"
proof (rule own_changeI)
  show "op_sep r' r2" if "OH q = Some r2" "q \<noteq> p" "q \<notin> set ops" "p \<notin> set ops" for q r2
    using own_sep [OF o r that(1)] that assms(3,4) by (auto simp: op_sep_def)
  show "op_wf bufs n BH prov r'" if "p \<notin> set ops"
    using own_wf [OF o r that] assms(3-) by (auto simp: op_wf_def)
qed (use own_wf [OF o] own_sep [OF o] own_prov [OF o] in auto)

text \<open>A live operation takes the first free buffer.\<close>

lemma own_take_buf:
  assumes o: "own ops (b # bufs) n OH BH prov" and "b \<notin> set bufs" and "b \<in> dom BH"
    and r: "OH p = Some r" and "\<not> is_multi r" and "buf_idx r = -1"
  shows "own ops bufs n (OH(p \<mapsto> r\<lparr>op_buf_addr := b, op_buffer := MBuf b, op_addr := MAddr b\<rparr>)) BH prov"
  by (rule own_changeI) (use own_wf [OF o] own_sep [OF o] own_prov [OF o] assms(2-) in
    \<open>fastforce simp: op_wf_def op_sep_def\<close>)+

text \<open>It gives its buffer back.\<close>

lemma own_give_buf:
  assumes o: "own ops bufs n OH BH prov" and r: "OH p = Some r" and "p \<notin> set ops" and "op_buf_addr r \<noteq> NULL"
  shows "own (p # ops) (op_buf_addr r # bufs) n (OH(p \<mapsto> r')) BH prov"
proof (rule own_changeI)
  show "op_wf (op_buf_addr r # bufs) n BH prov r2" if "OH q = Some r2" "q \<noteq> p" "q \<notin> set (p # ops)" for q r2
    using own_wf [OF o that(1)] own_sep [OF o that(1) r] that assms(3,4) by (auto simp: op_wf_def op_sep_def)
qed (use own_wf [OF o] own_sep [OF o] own_prov [OF o] in auto)

text \<open>Another operation takes over its pool buffer, or its ring buffer.\<close>

lemma own_transfer_buf:
  assumes o: "own ops bufs n OH BH prov" and r: "OH p = Some r" and q: "OH q = Some r2" and "p \<noteq> q"
    and "p \<notin> set ops" and "q \<notin> set ops" and "holds_nothing r" and "buf_idx r = -1" and "\<not> is_multi r"
    and "op_buf_addr r2 = b" and "b \<noteq> NULL"
  shows "own ops bufs n (OH(p \<mapsto> r\<lparr>data_len := l, op_buf_addr := b, op_buffer := MBuf b, op_addr := MAddr b\<rparr>,
    q \<mapsto> r2\<lparr>op_buf_addr := NULL\<rparr>)) BH prov"
proof -
  let ?rp = "r\<lparr>data_len := l, op_buf_addr := b, op_buffer := MBuf b, op_addr := MAddr b\<rparr>"
  have wq: "op_wf bufs n BH prov r2" by (rule own_wf [OF o q assms(6)])
  have key: "op_sep ?rp rx" if "OH x = Some rx" "x \<noteq> p" "x \<noteq> q" "x \<notin> set ops" for x rx
    using own_sep [OF o q that(1)] that assms(6,8,10,11) by (simp add: op_sep_def)
  have key': "op_sep rx ?rp" if "OH x = Some rx" "x \<noteq> p" "x \<noteq> q" "x \<notin> set ops" for x rx
    using key [OF that] by (simp add: op_sep_sym)
  show ?thesis
  proof (rule own_changeI)
    show "op_wf bufs n BH prov r'" if "(OH(p \<mapsto> ?rp)) x = Some r'" "x \<noteq> q" "x \<notin> set ops" for x r'
    proof (cases "x = p")
      case True
      then show ?thesis using that wq assms(8-) by (auto simp: op_wf_def)
    next
      case False
      then show ?thesis using that own_wf [OF o] by auto
    qed
    show "op_sep (r2\<lparr>op_buf_addr := NULL\<rparr>) r'"
      if "(OH(p \<mapsto> ?rp)) x = Some r'" "x \<noteq> q" "x \<notin> set ops" for x r'
    proof (cases "x = p")
      case True
      then show ?thesis using that wq assms(8,10,11) by (auto simp: op_wf_def op_sep_def)
    next
      case False
      then show ?thesis using that own_sep [OF o q, of x r'] assms(6) by (auto simp: op_sep_def)
    qed
    show "op_sep r1 r'" if "(OH(p \<mapsto> ?rp)) x = Some r1" "(OH(p \<mapsto> ?rp)) y = Some r'"
        "x \<noteq> q" "y \<noteq> q" "x \<noteq> y" "x \<notin> set ops" "y \<notin> set ops" for x y r1 r'
    proof (cases "x = p \<or> y = p")
      case True
      then show ?thesis using that key [of y] key' [of x] by auto
    next
      case False
      then show ?thesis using that own_sep [OF o, of x r1 y r'] by auto
    qed
    show "op_wf bufs n BH prov (r2\<lparr>op_buf_addr := NULL\<rparr>)"
      using wq by (auto simp: op_wf_def)
  qed (use own_prov [OF o] in auto)
qed

lemma own_transfer_ring:
  assumes o: "own ops bufs n OH BH prov" and r: "OH p = Some r" and q: "OH q = Some r2" and "p \<noteq> q"
    and "p \<notin> set ops" and "q \<notin> set ops" and "op_buf_addr r = NULL" and "\<not> is_multi r"
    and "op_buf_addr r2 = NULL"
  shows "own ops bufs n (OH(p \<mapsto> r\<lparr>buf_idx := buf_idx r2, op_buffer := m, data_len := l\<rparr>,
    q \<mapsto> r2\<lparr>buf_idx := DO_NOT_FREE\<rparr>)) BH prov"
proof -
  let ?rp = "r\<lparr>buf_idx := buf_idx r2, op_buffer := m, data_len := l\<rparr>"
  have wq: "op_wf bufs n BH prov r2" by (rule own_wf [OF o q assms(6)])
  have key: "op_sep ?rp rx" if "OH x = Some rx" "x \<noteq> p" "x \<noteq> q" "x \<notin> set ops" for x rx
    using own_sep [OF o q that(1)] that assms(6,7) by (simp add: op_sep_def)
  have key': "op_sep rx ?rp" if "OH x = Some rx" "x \<noteq> p" "x \<noteq> q" "x \<notin> set ops" for x rx
    using key [OF that] by (simp add: op_sep_sym)
  show ?thesis
  proof (rule own_changeI)
    show "op_wf bufs n BH prov r'" if "(OH(p \<mapsto> ?rp)) x = Some r'" "x \<noteq> q" "x \<notin> set ops" for x r'
    proof (cases "x = p")
      case True
      then show ?thesis using that wq assms(7-) by (auto simp: op_wf_def)
    next
      case False
      then show ?thesis using that own_wf [OF o] by auto
    qed
    show "op_sep (r2\<lparr>buf_idx := DO_NOT_FREE\<rparr>) r'"
      if "(OH(p \<mapsto> ?rp)) x = Some r'" "x \<noteq> q" "x \<notin> set ops" for x r'
      using that assms(9) by (auto simp: op_sep_def DO_NOT_FREE_def)
    show "op_sep r1 r'" if "(OH(p \<mapsto> ?rp)) x = Some r1" "(OH(p \<mapsto> ?rp)) y = Some r'"
        "x \<noteq> q" "y \<noteq> q" "x \<noteq> y" "x \<notin> set ops" "y \<notin> set ops" for x y r1 r'
    proof (cases "x = p \<or> y = p")
      case True
      then show ?thesis using that key [of y] key' [of x] by auto
    next
      case False
      then show ?thesis using that own_sep [OF o, of x r1 y r'] by auto
    qed
    show "op_wf bufs n BH prov (r2\<lparr>buf_idx := DO_NOT_FREE\<rparr>)"
      using wq assms(9) by (auto simp: op_wf_def DO_NOT_FREE_def)
  qed (use own_prov [OF o] in auto)
qed

text \<open>A ring buffer goes back to the ring, or comes from it with a completion.\<close>

lemma own_recycle:
  assumes o: "own ops bufs n OH BH prov" and r: "OH p = Some r" and "p \<notin> set ops" and "0 \<le> buf_idx r"
    and "op_buf_addr r' = NULL" and "buf_idx r' < 0" and "is_multi r' \<longrightarrow> op_type r' = OP_TYPE_UDP_RECV"
  shows "own ops bufs n (OH(p \<mapsto> r')) BH (nat (buf_idx r) # prov)"
proof (rule own_changeI)
  show "op_wf bufs n BH (nat (buf_idx r) # prov) rx" if "OH x = Some rx" "x \<noteq> p" "x \<notin> set ops" for x rx
    using own_wf [OF o that(1,3)] own_sep [OF o that(1) r that(3) assms(3) that(2)] assms(4)
    by (auto simp: op_wf_def op_sep_def)
qed (use own_wf [OF o r] own_sep [OF o] own_prov [OF o] assms(3-) in \<open>auto simp: op_wf_def op_sep_def\<close>)

lemma own_receive:
  assumes o: "own ops bufs n OH BH prov" and r: "OH p = Some r" and "p \<notin> set ops" and "i \<in> set prov"
    and "op_buf_addr r' = NULL" and "buf_idx r' = int i" and "is_multi r' \<longrightarrow> op_type r' = OP_TYPE_UDP_RECV"
  shows "own ops bufs n (OH(p \<mapsto> r')) BH (remove1 i prov)"
proof (rule own_changeI)
  show "op_sep r' rx" if "OH x = Some rx" "x \<noteq> p" "x \<notin> set ops" for x rx
    using own_wf [OF o that(1,3)] assms(4-6) by (auto simp: op_wf_def op_sep_def) (metis nat_int)+
qed (use own_wf [OF o] own_sep [OF o] own_prov [OF o] assms(3-) in
    \<open>auto simp: op_wf_def dest: notin_set_remove1 in_set_remove1 set_remove1_subset [THEN subsetD]\<close>)

text \<open>A completion without a kept buffer only takes from the ring.\<close>

lemma own_prov_remove:
  assumes "own ops bufs n OH BH prov"
  shows "own ops bufs n OH BH (remove1 i prov)"
  using assms set_remove1_subset [of i prov] by (auto simp: own_def op_wf_def)

section \<open>Taking operations and buffers from the pools\<close>

lemma uinvE:
  assumes "uinv ctx ops bufs s"
  obtains c mem where "ctx \<noteq> NULL" "ctx_heap s ctx = Some c" "br c" "br_bufs c = Some mem"
    "length mem = BUF_SIZE * nat (br_n_bufs (config c))"
    "chain (op_nx s) (io_op_pool c) ops" "chain (buf_nx s) (buf_addr_pool c) bufs"
    "op_heap s NULL = None" "buf_heap s NULL = None" "buf_sizes (buf_heap s)"
    "own ops bufs (nat (br_n_bufs (config c))) (op_heap s) (buf_heap s) (provided (trace s))"
  using assms by (auto simp: uinv_def ring_ok_def domIff)

text \<open>The state after taking the operation \<open>p\<close> from the pool, and what stays the same.\<close>

definition same_env :: "('k, 'z) uring_state_scheme \<Rightarrow> ('k, 'z) uring_state_scheme \<Rightarrow> bool" where
  "same_env s s' \<longleftrightarrow> kw s' = kw s \<and> trace s' = trace s \<and> next_addr s' = next_addr s \<and>
     dom (op_heap s') = dom (op_heap s) \<and> dom (buf_heap s') = dom (buf_heap s) \<and>
     (\<forall>c. map_option config (ctx_heap s' c) = map_option config (ctx_heap s c)) \<and>
     uring_state.more s' = uring_state.more s"

lemma same_env_refl [simp]: "same_env s s"
  by (simp add: same_env_def)

lemma same_env_kept: "same_env s s' \<Longrightarrow> kept U ctx s s'"
  by (simp add: same_env_def kept_def kpres_refl)

lemma uinv_get_io_op:
  assumes u: "uinv ctx (p # ops) bufs s"
  shows "wp (iouring_get_io_op ctx) (\<lambda>r s'. r = p \<and> p \<noteq> NULL \<and> p \<notin> set ops \<and> uinv ctx ops bufs s' \<and> same_env s s' \<and>
    op_heap s' = (op_heap s)(p \<mapsto> zero_op\<lparr>buf_idx := -1\<rparr>) \<and> buf_heap s' = buf_heap s \<and> p \<in> dom (op_heap s)) s"
proof -
  obtain c mem where c: "ctx \<noteq> NULL" "ctx_heap s ctx = Some c" "br c" "br_bufs c = Some mem"
    "length mem = BUF_SIZE * nat (br_n_bufs (config c))"
    "chain (op_nx s) (io_op_pool c) (p # ops)" "chain (buf_nx s) (buf_addr_pool c) bufs"
    "op_heap s NULL = None" "buf_heap s NULL = None" "buf_sizes (buf_heap s)"
    "own (p # ops) bufs (nat (br_n_bufs (config c))) (op_heap s) (buf_heap s) (provided (trace s))"
    using u by (rule uinvE)
  from c(6) obtain r where r: "io_op_pool c = p" "p \<noteq> NULL" "op_heap s p = Some r" "chain (op_nx s) (op_next r) ops"
    by (auto simp: op_nx_def)
  have p: "p \<notin> set ops" using c(6) r(1) chain_not_in_tail by metis
  have o: "own ops bufs (nat (br_n_bufs (config c))) ((op_heap s)(p \<mapsto> zero_op\<lparr>buf_idx := -1\<rparr>)) (buf_heap s)
      (provided (trace s))"
    by (rule own_pop [OF c(11)]) (simp_all add: holds_nothing_def zero_op_def)
  show ?thesis
    by (rule wp_InrI [where m = "iouring_get_io_op ctx", OF get_io_op_exec [OF c(1,2) r(1-3)]])
      (use c r p o in \<open>auto simp: uinv_def ring_ok_def nx_comp same_env_def\<close>)
qed

lemma uinv_put_io_op:
  assumes u: "uinv ctx ops bufs s" and r: "op_heap s p = Some r" and "p \<notin> set ops"
  shows "wp (iouring_put_io_op ctx p) (\<lambda>_ s'. uinv ctx (p # ops) bufs s' \<and> same_env s s' \<and>
    (\<exists>q. op_heap s' = (op_heap s)(p \<mapsto> r\<lparr>op_next := q\<rparr>)) \<and> buf_heap s' = buf_heap s) s"
  using u
proof (rule uinvE, goal_cases)
  case c: (1 c mem)
  have "p \<noteq> NULL" using c(8) r by (cases "p = NULL") auto
  then show ?case
    by (intro wp_InrI [where m = "iouring_put_io_op ctx p", OF put_io_op_exec [OF c(1,2) _ r]])
      (use c r assms(3) own_push [OF c(11), of p] in \<open>auto simp: uinv_def ring_ok_def nx_comp same_env_def\<close>)
qed

lemma uinv_upd_op:
  assumes u: "uinv ctx ops bufs s" and r: "op_heap s p = Some r" and "p \<notin> set ops"
    and "op_buf_addr r' = op_buf_addr r" and "buf_idx r' = buf_idx r"
    and "is_multi r' \<longrightarrow> is_multi r \<and> op_type r' = op_type r"
    and "op_buf_addr r \<noteq> NULL \<longrightarrow> op_buffer r' = op_buffer r \<and> op_addr r' = op_addr r"
  shows "uinv ctx ops bufs (s\<lparr>op_heap := (op_heap s)(p \<mapsto> r')\<rparr>)"
  using u
proof (rule uinvE, goal_cases)
  case c: (1 c mem)
  have "p \<noteq> NULL" using c(8) r by (cases "p = NULL") auto
  with own_upd [OF c(11) r assms(4-7)] c assms(3) show ?case
    by (auto simp: uinv_def ring_ok_def nx_comp)
qed

lemma uinv_live_nonnull: "uinv ctx ops bufs s \<Longrightarrow> op_heap s p = Some r \<Longrightarrow> p \<noteq> NULL"
  by (cases "p = NULL") (auto simp: uinv_def)

lemma live_buf:
  assumes "uinv ctx ops bufs s" and "op_heap s p = Some r" and "p \<notin> set ops" and "op_buf_addr r \<noteq> NULL"
  shows "op_buf_addr r \<in> dom (buf_heap s)" and "op_buffer r = MBuf (op_buf_addr r)" and "op_addr r = MAddr (op_buf_addr r)"
    and "buf_idx r = -1" and "\<not> is_multi r"
  using assms by (auto simp: uinv_def own_def op_wf_def elim: uinvE)

lemma live_multi:
  assumes "uinv ctx ops bufs s" and "op_heap s p = Some r" and "p \<notin> set ops" and "is_multi r"
  shows "op_buf_addr r = NULL" and "op_type r = OP_TYPE_UDP_RECV"
  using assms by (auto simp: uinv_def own_def op_wf_def)

text \<open>The invariant depends on the heaps and on the buffers with the ring only.\<close>

lemma uinv_frame:
  assumes "uinv ctx ops bufs s" and "ctx_heap s' = ctx_heap s" and "op_heap s' = op_heap s" and "buf_heap s' = buf_heap s"
    and "provided (trace s') = provided (trace s)"
  shows "uinv ctx ops bufs s'"
  using assms by (simp add: uinv_def op_nx_def buf_nx_def)

lemma uinv_env [simp]:
  "uinv ctx ops bufs (s\<lparr>kw := w\<rparr>) = uinv ctx ops bufs s"
  "provided (e # trace s) = provided (trace s) \<Longrightarrow> uinv ctx ops bufs (s\<lparr>trace := e # trace s\<rparr>) = uinv ctx ops bufs s"
  by (simp_all add: uinv_def op_nx_def buf_nx_def)

text \<open>The record of a freshly allocated single-shot operation.\<close>

definition new_op :: "int \<Rightarrow> int \<Rightarrow> ptr \<Rightarrow> io_op" where
  "new_op typ fd b = zero_op\<lparr>op_type := typ, op_fd := fd, buf_idx := -1, op_buf_addr := b,
     op_buffer := MBuf b, op_addr := MAddr b\<rparr>"

definition new_multi_op :: "int \<Rightarrow> int \<Rightarrow> io_op" where
  "new_multi_op typ fd = zero_op\<lparr>op_type := typ, op_fd := fd, buf_idx := -1, is_multi := True\<rparr>"

text \<open>
  Allocation: NULL exactly when a pool is empty, and then the free lists are as before;
  otherwise the first free operation with the first free buffer.
\<close>

lemma io_op_alloc_none:
  assumes u: "uinv ctx [] bufs s"
  shows "io_op_alloc_buf ctx typ fd multi own' s = Inr (NULL, s)"
  using u
proof (rule uinvE, goal_cases)
  case c: (1 c mem)
  then show ?case
    by (simp add: io_op_alloc_buf_def iouring_get_io_op_def exec_simps)
qed

lemma io_op_alloc_exec:
  assumes "ctx \<noteq> NULL" and "ctx_heap s ctx = Some c" and "io_op_pool c = p" and "p \<noteq> NULL" and "op_heap s p = Some r"
    and "buf_addr_pool c = b" and "b \<noteq> NULL" and "buf_heap s b = Some y"
  shows "io_op_alloc ctx typ fd False s = Inr (p, s\<lparr>
    ctx_heap := (ctx_heap s)(ctx \<mapsto> c\<lparr>io_op_pool := op_next r, buf_addr_pool := ba_next y\<rparr>),
    op_heap := (op_heap s)(p \<mapsto> new_op typ fd b), buf_heap := (buf_heap s)(b \<mapsto> y\<lparr>ba_next := NULL\<rparr>)\<rparr>)"
  using assms
  by (simp add: io_op_alloc_def io_op_alloc_buf_def exec_simps get_io_op_exec get_buf_addr_exec new_op_def zero_op_def)

lemma own_buf_heap:
  "own ops bufs n OH BH prov \<Longrightarrow> dom BH' = dom BH \<Longrightarrow> own ops bufs n OH BH' prov"
  by (auto simp: own_def op_wf_def)

lemma io_op_alloc_single:
  assumes u: "uinv ctx (p # ops) (b # bufs) s"
  shows "wp (io_op_alloc ctx typ fd False) (\<lambda>r s'. r = p \<and> p \<noteq> NULL \<and> p \<notin> set ops \<and> b \<noteq> NULL \<and>
    uinv ctx ops bufs s' \<and> same_env s s' \<and> op_heap s' = (op_heap s)(p \<mapsto> new_op typ fd b)) s"
  using u
proof (rule uinvE, goal_cases)
  case c: (1 c mem)
  from c(6) obtain r where r: "io_op_pool c = p" "p \<noteq> NULL" "op_heap s p = Some r" "chain (op_nx s) (op_next r) ops"
    by (auto simp: op_nx_def)
  from c(7) obtain y where y: "buf_addr_pool c = b" "b \<noteq> NULL" "buf_heap s b = Some y" "chain (buf_nx s) (ba_next y) bufs"
    by (auto simp: buf_nx_def)
  have pb: "p \<notin> set ops" "b \<notin> set bufs" using c(6,7) r(1) y(1) chain_not_in_tail by metis+
  let ?r0 = "zero_op\<lparr>op_type := typ, op_fd := fd, buf_idx := -1\<rparr>" and ?BH = "(buf_heap s)(b \<mapsto> y\<lparr>ba_next := NULL\<rparr>)"
  have "own ops (b # bufs) (nat (br_n_bufs (config c))) ((op_heap s)(p \<mapsto> ?r0)) (buf_heap s) (provided (trace s))"
    by (rule own_pop [OF c(11)]) (simp_all add: holds_nothing_def zero_op_def)
  then have "own ops (b # bufs) (nat (br_n_bufs (config c))) ((op_heap s)(p \<mapsto> ?r0)) ?BH (provided (trace s))"
    by (rule own_buf_heap) (use y(3) in auto)
  from own_take_buf [OF this pb(2), of p ?r0]
  have "own ops bufs (nat (br_n_bufs (config c))) ((op_heap s)(p \<mapsto> new_op typ fd b)) ?BH (provided (trace s))"
    by (simp add: new_op_def zero_op_def)
  then show ?case
    by (intro wp_InrI [where m = "io_op_alloc ctx typ fd False", OF io_op_alloc_exec [OF c(1,2) r(1-3) y(1-3)]])
      (use c r y pb in \<open>auto simp: uinv_def ring_ok_def nx_comp same_env_def buf_sizes_def new_op_def zero_op_def\<close>)
qed

text \<open>No free buffer: the operation goes straight back to the pool.\<close>

lemma io_op_alloc_no_buf:
  assumes u: "uinv ctx (p # ops) [] s"
  shows "wp (io_op_alloc ctx typ fd False) (\<lambda>r s'. r = NULL \<and> uinv ctx (p # ops) [] s' \<and> same_env s s' \<and>
    (\<forall>q. q \<noteq> p \<longrightarrow> op_heap s' q = op_heap s q)) s"
  using u
proof (rule uinvE, goal_cases)
  case c: (1 c mem)
  from c(6) obtain r where r: "io_op_pool c = p" "p \<noteq> NULL" "op_heap s p = Some r" "chain (op_nx s) (op_next r) ops"
    by (auto simp: op_nx_def)
  have p: "p \<notin> set ops" using c(6) r(1) chain_not_in_tail by metis
  let ?r = "zero_op\<lparr>op_type := typ, op_fd := fd, buf_idx := -1, op_next := op_next r\<rparr>"
  have x: "io_op_alloc ctx typ fd False s = Inr (NULL, s\<lparr>ctx_heap := (ctx_heap s)(ctx \<mapsto> c\<lparr>io_op_pool := p\<rparr>),
      op_heap := (op_heap s)(p \<mapsto> ?r)\<rparr>)"
    using c r by (simp add: io_op_alloc_def io_op_alloc_buf_def exec_simps get_io_op_exec put_io_op_exec
      iouring_get_buf_addr_def zero_op_def)
  have "own (p # ops) [] (nat (br_n_bufs (config c))) ((op_heap s)(p \<mapsto> ?r)) (buf_heap s) (provided (trace s))"
    using own_push [OF own_pop [OF c(11), of "zero_op\<lparr>buf_idx := -1\<rparr>"], of p ?r]
    by (simp add: holds_nothing_def zero_op_def)
  with c r p show ?case
    by (intro wp_InrI [where m = "io_op_alloc ctx typ fd False", OF x])
      (auto simp: uinv_def ring_ok_def nx_comp same_env_def)
qed

lemma io_op_alloc_multi:
  assumes u: "uinv ctx (p # ops) bufs s"
  shows "wp (io_op_alloc ctx OP_TYPE_UDP_RECV fd True) (\<lambda>r s'. r = p \<and> p \<noteq> NULL \<and> p \<notin> set ops \<and>
    uinv ctx ops bufs s' \<and> same_env s s' \<and> op_heap s' = (op_heap s)(p \<mapsto> new_multi_op OP_TYPE_UDP_RECV fd)) s"
  using u
proof (rule uinvE, goal_cases)
  case c: (1 c mem)
  from c(6) obtain r where r: "io_op_pool c = p" "p \<noteq> NULL" "op_heap s p = Some r" "chain (op_nx s) (op_next r) ops"
    by (auto simp: op_nx_def)
  have p: "p \<notin> set ops" using c(6) r(1) chain_not_in_tail by metis
  have x: "io_op_alloc ctx OP_TYPE_UDP_RECV fd True s = Inr (p, s\<lparr>ctx_heap := (ctx_heap s)(ctx \<mapsto> c\<lparr>io_op_pool := op_next r\<rparr>),
      op_heap := (op_heap s)(p \<mapsto> new_multi_op OP_TYPE_UDP_RECV fd)\<rparr>)"
    using c r by (simp add: io_op_alloc_def io_op_alloc_buf_def exec_simps get_io_op_exec new_multi_op_def zero_op_def)
  have "own ops bufs (nat (br_n_bufs (config c))) ((op_heap s)(p \<mapsto> new_multi_op OP_TYPE_UDP_RECV fd)) (buf_heap s)
      (provided (trace s))"
    by (rule own_pop [OF c(11)]) (simp_all add: holds_nothing_def new_multi_op_def zero_op_def)
  with c r p show ?case
    by (intro wp_InrI [where m = "io_op_alloc ctx OP_TYPE_UDP_RECV fd True", OF x])
      (auto simp: uinv_def ring_ok_def nx_comp same_env_def new_multi_op_def zero_op_def)
qed

text \<open>Taking over the pool buffer of a completed single-shot operation.\<close>

lemma io_op_alloc_transfer:
  assumes u: "uinv ctx (p # ops) bufs s" and q: "op_heap s q = Some o'" "q \<notin> set (p # ops)"
    and "\<not> is_multi o'" and "op_buf_addr o' = b" and "b \<noteq> NULL"
  shows "wp (io_op_alloc_buf ctx typ fd False q) (\<lambda>r s'. r = p \<and> p \<noteq> NULL \<and> p \<notin> set ops \<and> uinv ctx ops bufs s' \<and> same_env s s' \<and>
    op_heap s' = (op_heap s)(p \<mapsto> (new_op typ fd b)\<lparr>data_len := data_len o'\<rparr>, q \<mapsto> o'\<lparr>op_buf_addr := NULL\<rparr>) \<and>
    buf_heap s' = buf_heap s) s"
  using u
proof (rule uinvE, goal_cases)
  case c: (1 c mem)
  from c(6) obtain r where r: "io_op_pool c = p" "p \<noteq> NULL" "op_heap s p = Some r" "chain (op_nx s) (op_next r) ops"
    by (auto simp: op_nx_def)
  have p: "p \<notin> set ops" "p \<noteq> q" "q \<noteq> NULL"
    using c(6) r(1) chain_not_in_tail q(2) uinv_live_nonnull [OF u q(1)] by (metis, auto)
  let ?OH = "(op_heap s)(p \<mapsto> (new_op typ fd b)\<lparr>data_len := data_len o'\<rparr>, q \<mapsto> o'\<lparr>op_buf_addr := NULL\<rparr>)"
  have x: "io_op_alloc_buf ctx typ fd False q s = Inr (p, s\<lparr>ctx_heap := (ctx_heap s)(ctx \<mapsto> c\<lparr>io_op_pool := op_next r\<rparr>),
      op_heap := ?OH\<rparr>)"
    using c r p q assms(4-6) by (simp add: io_op_alloc_buf_def exec_simps get_io_op_exec new_op_def zero_op_def fun_upd_twist)
  have "own ops bufs (nat (br_n_bufs (config c))) ((op_heap s)(p \<mapsto> zero_op\<lparr>op_type := typ, op_fd := fd, buf_idx := -1\<rparr>))
      (buf_heap s) (provided (trace s))"
    by (rule own_pop [OF c(11)]) (simp_all add: holds_nothing_def zero_op_def)
  from own_transfer_buf [OF this, of p _ q o' b "data_len o'"] q p assms(4-6)
  have "own ops bufs (nat (br_n_bufs (config c))) ?OH (buf_heap s) (provided (trace s))"
    by (simp add: holds_nothing_def new_op_def zero_op_def)
  with c r p q show ?case
    by (intro wp_InrI [where m = "io_op_alloc_buf ctx typ fd False q", OF x])
      (auto simp: uinv_def ring_ok_def nx_comp same_env_def new_op_def zero_op_def)
qed

text \<open>Taking over the ring buffer of a multishot operation, which stays armed.\<close>

lemma io_op_alloc_transfer_ring:
  assumes u: "uinv ctx (p # ops) bufs s" and q: "op_heap s q = Some o'" "q \<notin> set (p # ops)" and "is_multi o'"
  shows "wp (io_op_alloc_buf ctx typ fd False q) (\<lambda>r s'. r = p \<and> p \<noteq> NULL \<and> p \<notin> set ops \<and> uinv ctx ops bufs s' \<and> same_env s s' \<and>
    op_heap s' = (op_heap s)(p \<mapsto> zero_op\<lparr>op_type := typ, op_fd := fd, buf_idx := buf_idx o', op_buffer := op_buffer o',
      data_len := data_len o'\<rparr>, q \<mapsto> o'\<lparr>buf_idx := DO_NOT_FREE\<rparr>) \<and> buf_heap s' = buf_heap s) s"
  using u
proof (rule uinvE, goal_cases)
  case c: (1 c mem)
  from c(6) obtain r where r: "io_op_pool c = p" "p \<noteq> NULL" "op_heap s p = Some r" "chain (op_nx s) (op_next r) ops"
    by (auto simp: op_nx_def)
  have p: "p \<notin> set ops" "p \<noteq> q" "q \<noteq> NULL"
    using c(6) r(1) chain_not_in_tail q(2) uinv_live_nonnull [OF u q(1)] by (metis, auto)
  have b: "op_buf_addr o' = NULL" using own_wf [OF c(11) q] assms(4) by (simp add: op_wf_def)
  let ?rp = "zero_op\<lparr>op_type := typ, op_fd := fd, buf_idx := buf_idx o', op_buffer := op_buffer o', data_len := data_len o'\<rparr>"
  let ?OH = "(op_heap s)(p \<mapsto> ?rp, q \<mapsto> o'\<lparr>buf_idx := DO_NOT_FREE\<rparr>)"
  have x: "io_op_alloc_buf ctx typ fd False q s = Inr (p, s\<lparr>ctx_heap := (ctx_heap s)(ctx \<mapsto> c\<lparr>io_op_pool := op_next r\<rparr>),
      op_heap := ?OH\<rparr>)"
    using c r p q assms(4) by (simp add: io_op_alloc_buf_def exec_simps get_io_op_exec zero_op_def fun_upd_twist)
  have "own ops bufs (nat (br_n_bufs (config c))) ((op_heap s)(p \<mapsto> zero_op\<lparr>op_type := typ, op_fd := fd, buf_idx := -1\<rparr>))
      (buf_heap s) (provided (trace s))"
    by (rule own_pop [OF c(11)]) (simp_all add: holds_nothing_def zero_op_def)
  from own_transfer_ring [OF this, of p _ q o' "data_len o'" "op_buffer o'"] q p b
  have "own ops bufs (nat (br_n_bufs (config c))) ?OH (buf_heap s) (provided (trace s))"
    by (simp add: zero_op_def)
  with c r p q show ?case
    by (intro wp_InrI [where m = "io_op_alloc_buf ctx typ fd False q", OF x])
      (auto simp: uinv_def ring_ok_def nx_comp same_env_def zero_op_def)
qed

section \<open>Releasing operations and buffers\<close>

lemma recycle_exec:
  assumes "ctx_heap s ctx = Some c" and "ctx \<noteq> NULL" and "br c" and "op_heap s p = Some r" and "p \<noteq> NULL"
    and "op_buf_addr r = NULL" and "0 \<le> buf_idx r"
  shows "iouring_recycle_buffer U ctx p s = Inr ((), s\<lparr>
    kw := buf_ring_advance U 1 (buf_ring_add U (nat (buf_idx r)) (nat (buf_idx r) * BUF_SIZE) 0 (kw s)),
    trace := Ev_br_advance 1 # Ev_br_add (nat (buf_idx r)) (nat (buf_idx r) * BUF_SIZE) 0 # trace s,
    op_heap := (op_heap s)(p \<mapsto> r\<lparr>buf_idx := -1\<rparr>)\<rparr>)"
  using assms by (simp add: iouring_recycle_buffer_def exec_simps uring_call_defs)

text \<open>Releasing a multishot operation gives its ring buffer back and keeps the operation.\<close>

lemma io_op_free_multi:
  assumes u: "uinv ctx ops bufs s" and r: "op_heap s p = Some r" "p \<notin> set ops" and "is_multi r" and "0 \<le> buf_idx r"
  shows "wp (io_op_free U ctx p) (\<lambda>r' s'. r' = p \<and> uinv ctx ops bufs s' \<and>
    op_heap s' = (op_heap s)(p \<mapsto> r\<lparr>buf_idx := -1\<rparr>) \<and> inflight (trace s') = inflight (trace s) \<and>
    provided (trace s') = nat (buf_idx r) # provided (trace s) \<and> kept U ctx s s') s"
  using u
proof (rule uinvE, goal_cases)
  case c: (1 c mem)
  have p: "p \<noteq> NULL" by (rule uinv_live_nonnull [OF u r(1)])
  have w: "op_buf_addr r = NULL" "op_type r = OP_TYPE_UDP_RECV"
    using own_wf [OF c(11) r] assms(4) by (auto simp: op_wf_def)
  have "own ops bufs (nat (br_n_bufs (config c))) ((op_heap s)(p \<mapsto> r\<lparr>buf_idx := -1\<rparr>)) (buf_heap s)
      (nat (buf_idx r) # provided (trace s))"
    by (rule own_recycle [OF c(11) r]) (use assms(5) w in auto)
  with c r p w assms(4,5) show ?case
    by (auto simp: wp_def io_op_free_def exec_simps recycle_exec uinv_def ring_ok_def nx_comp kept_def
      intro!: kpres_recycle)
qed

text \<open>Releasing a single-shot operation returns it, and the buffer it holds, to where they came from.\<close>

lemma io_op_free_single_buf:
  assumes u: "uinv ctx ops bufs s" and r: "op_heap s p = Some r" "p \<notin> set ops" and "\<not> is_multi r"
    and "op_buf_addr r = b" and "b \<noteq> NULL"
  shows "wp (io_op_free U ctx p) (\<lambda>r' s'. r' = NULL \<and> uinv ctx (p # ops) (b # bufs) s' \<and> same_env s s' \<and>
    (\<forall>q. q \<noteq> p \<longrightarrow> op_heap s' q = op_heap s q)) s"
  using u
proof (rule uinvE, goal_cases)
  case c: (1 c mem)
  have p: "p \<noteq> NULL" by (rule uinv_live_nonnull [OF u r(1)])
  from own_wf [OF c(11) r] assms(5,6) obtain y where y: "buf_heap s b = Some y" "b \<notin> set bufs" "buf_idx r = -1"
    by (auto simp: op_wf_def)
  let ?BH = "(buf_heap s)(b \<mapsto> y\<lparr>ba_next := buf_addr_pool c\<rparr>)" and ?OH = "(op_heap s)(p \<mapsto> r\<lparr>op_next := io_op_pool c\<rparr>)"
  have x: "io_op_free U ctx p s = Inr (NULL, s\<lparr>ctx_heap := (ctx_heap s)(ctx \<mapsto> c\<lparr>buf_addr_pool := b, io_op_pool := p\<rparr>),
      op_heap := ?OH, buf_heap := ?BH\<rparr>)"
    using c r p y assms(4-6) by (simp add: io_op_free_def exec_simps put_buf_addr_exec put_io_op_exec)
  have "own (p # ops) (b # bufs) (nat (br_n_bufs (config c))) ?OH (buf_heap s) (provided (trace s))"
    using own_give_buf [OF c(11) r, of "r\<lparr>op_next := io_op_pool c\<rparr>"] assms(5,6) by auto
  then have "own (p # ops) (b # bufs) (nat (br_n_bufs (config c))) ?OH ?BH (provided (trace s))"
    by (rule own_buf_heap) (use y in auto)
  with c r p y assms(6) show ?case
    by (intro wp_InrI [where m = "io_op_free U ctx p", OF x])
      (auto simp: uinv_def ring_ok_def nx_comp same_env_def buf_sizes_def)
qed

lemma io_op_free_single_bare:
  assumes u: "uinv ctx ops bufs s" and r: "op_heap s p = Some r" "p \<notin> set ops" and "\<not> is_multi r" and "holds_nothing r"
  shows "wp (io_op_free U ctx p) (\<lambda>r' s'. r' = NULL \<and> uinv ctx (p # ops) bufs s' \<and> same_env s s' \<and>
    (\<forall>q. q \<noteq> p \<longrightarrow> op_heap s' q = op_heap s q)) s"
proof -
  have p: "p \<noteq> NULL" by (rule uinv_live_nonnull [OF u r(1)])
  have "wp (iouring_put_io_op ctx p) (\<lambda>_ s'. uinv ctx (p # ops) bufs s' \<and> same_env s s' \<and>
      (\<forall>q. q \<noteq> p \<longrightarrow> op_heap s' q = op_heap s q)) s"
    by (rule wp_conseq [OF uinv_put_io_op [OF u r]]) auto
  with p r assms(4,5) show ?thesis by (simp add: io_op_free_def wp_simps holds_nothing_def)
qed

lemma io_op_free_single_ring:
  assumes u: "uinv ctx ops bufs s" and r: "op_heap s p = Some r" "p \<notin> set ops" and "\<not> is_multi r" and "0 \<le> buf_idx r"
  shows "wp (io_op_free U ctx p) (\<lambda>r' s'. r' = NULL \<and> uinv ctx (p # ops) bufs s' \<and>
    (\<forall>q. q \<noteq> p \<longrightarrow> op_heap s' q = op_heap s q) \<and> inflight (trace s') = inflight (trace s) \<and>
    provided (trace s') = nat (buf_idx r) # provided (trace s) \<and> kept U ctx s s') s"
  using u
proof (rule uinvE, goal_cases)
  case c: (1 c mem)
  have p: "p \<noteq> NULL" by (rule uinv_live_nonnull [OF u r(1)])
  have w: "op_buf_addr r = NULL" using own_wf [OF c(11) r] assms(5) by (auto simp: op_wf_def)
  have "own ops bufs (nat (br_n_bufs (config c))) ((op_heap s)(p \<mapsto> r\<lparr>buf_idx := -1\<rparr>)) (buf_heap s)
      (nat (buf_idx r) # provided (trace s))"
    by (rule own_recycle [OF c(11) r]) (use assms(4,5) w in auto)
  from own_push [OF this, of p "r\<lparr>buf_idx := -1, op_next := io_op_pool c\<rparr>"] c r p w assms(4,5) show ?case
    by (auto simp: wp_def io_op_free_def exec_simps recycle_exec put_io_op_exec uinv_def ring_ok_def nx_comp
      kept_def intro!: kpres_recycle)
qed

end
