(* ===== verification/Uring_Submit.thy ===== *)
theory Uring_Submit
  imports Uring_Own
begin

text \<open>
  The submission functions keep the ownership invariant and never fault on a live operation of
  the right type: on success the operation is with the kernel, on failure nothing is lost.
\<close>

lemma uinv_buf_upd:
  assumes u: "uinv ctx ops bufs s" and "buf_heap s b = Some y" and "length (ba_buf y') = BUF_SIZE"
    and "length (ba_addr y') = SOCKADDR_STORAGE" and "ba_next y' = ba_next y"
  shows "uinv ctx ops bufs (s\<lparr>buf_heap := (buf_heap s)(b \<mapsto> y')\<rparr>)"
  using u
proof (rule uinvE, goal_cases)
  case c: (1 c mem)
  have nx: "(map_option ba_next \<circ> buf_heap s)(b \<mapsto> ba_next y) = map_option ba_next \<circ> buf_heap s"
    using assms(2) by (auto simp: fun_eq_iff)
  have "b \<noteq> NULL" using c(9) assms(2) by (cases "b = NULL") auto
  moreover have "own ops bufs n OH ((buf_heap s)(b \<mapsto> y')) prov" if "own ops bufs n OH (buf_heap s) prov" for n OH prov
    using that by (rule own_buf_heap) (use assms(2) in auto)
  ultimately show ?case
    using c assms(3-5) by (auto simp: uinv_def ring_ok_def nx_comp buf_sizes_def nx)
qed

lemma uinv_ring_upd:
  assumes u: "uinv ctx ops bufs s" and "ctx_heap s ctx = Some c" and "br_bufs c = Some mem"
    and "length mem' = length mem"
  shows "uinv ctx ops bufs (s\<lparr>ctx_heap := (ctx_heap s)(ctx \<mapsto> c\<lparr>br_bufs := Some mem'\<rparr>)\<rparr>)"
  using assms by (auto simp: uinv_def ring_ok_def op_nx_def buf_nx_def)

text \<open>A pointer to \<open>n\<close> bytes of allocated memory.\<close>

definition valid_mem :: "ptr \<Rightarrow> ('k, 'z) uring_state_scheme \<Rightarrow> mptr \<Rightarrow> nat \<Rightarrow> bool" where
  "valid_mem ctx s m n = (case m of MNull \<Rightarrow> False
     | MBuf b \<Rightarrow> buf_heap s b \<noteq> None \<and> n \<le> BUF_SIZE
     | MAddr b \<Rightarrow> buf_heap s b \<noteq> None \<and> n \<le> SOCKADDR_STORAGE
     | MRing c off \<Rightarrow> c = ctx \<and> (\<forall>x. ctx_heap s ctx = Some x \<longrightarrow> off + n \<le> BUF_SIZE * nat (br_n_bufs (config x))))"

text \<open>Everything but memory contents is the same.\<close>

definition same_but_mem :: "ptr \<Rightarrow> ('k, 'z) uring_state_scheme \<Rightarrow> ('k, 'z) uring_state_scheme \<Rightarrow> bool" where
  "same_but_mem ctx s s' \<longleftrightarrow> kw s' = kw s \<and> trace s' = trace s \<and> next_addr s' = next_addr s \<and>
     op_heap s' = op_heap s \<and> dom (buf_heap s') = dom (buf_heap s) \<and> uring_state.more s' = uring_state.more s \<and>
     map_option config (ctx_heap s' ctx) = map_option config (ctx_heap s ctx)"

lemma same_but_mem_trans: "same_but_mem ctx s s' \<Longrightarrow> same_but_mem ctx s' s'' \<Longrightarrow> same_but_mem ctx s s''"
  by (simp add: same_but_mem_def)

lemma same_but_mem_valid: "same_but_mem ctx s s' \<Longrightarrow> valid_mem ctx s m n \<Longrightarrow> valid_mem ctx s' m n"
  by (cases m; cases "ctx_heap s ctx") (auto simp: same_but_mem_def valid_mem_def)

lemma store_bytes_uinv:
  assumes u: "uinv ctx ops bufs s" and m: "valid_mem ctx s m (length bs)"
  shows "wp (store_bytes m bs) (\<lambda>_ s'. uinv ctx ops bufs s' \<and> same_but_mem ctx s s') s"
  using u
proof (rule uinvE, goal_cases)
  case c: (1 c mem)
  show ?case
  proof (cases m)
    case MNull
    then show ?thesis using m by (simp add: valid_mem_def)
  next
    case (MBuf b)
    then obtain y where y: "buf_heap s b = Some y" using m by (auto simp: valid_mem_def)
    have "b \<noteq> NULL" "length (ba_buf y) = BUF_SIZE" "length (ba_addr y) = SOCKADDR_STORAGE"
      using c(9,10) y by (cases "b = NULL"; auto simp: buf_sizes_def)+
    then show ?thesis using MBuf m y u
      by (auto simp: valid_mem_def wp_simps same_but_mem_def intro!: uinv_buf_upd)
  next
    case (MAddr b)
    then obtain y where y: "buf_heap s b = Some y" using m by (auto simp: valid_mem_def)
    have "b \<noteq> NULL" "length (ba_buf y) = BUF_SIZE" "length (ba_addr y) = SOCKADDR_STORAGE"
      using c(9,10) y by (cases "b = NULL"; auto simp: buf_sizes_def)+
    then show ?thesis using MAddr m y u
      by (auto simp: valid_mem_def wp_simps same_but_mem_def intro!: uinv_buf_upd)
  next
    case (MRing c' off)
    then show ?thesis using m c u
      by (auto simp: valid_mem_def wp_simps same_but_mem_def intro!: uinv_ring_upd)
  qed
qed

lemma load_bytes_valid:
  assumes u: "uinv ctx ops bufs s" and m: "valid_mem ctx s m n"
  shows "wp (load_bytes m n) (\<lambda>bs s'. s' = s \<and> length bs = n) s"
  using u
proof (rule uinvE, goal_cases)
  case c: (1 c mem)
  show ?case
  proof (cases m)
    case MNull
    then show ?thesis using m by (simp add: valid_mem_def)
  next
    case (MBuf b)
    then obtain y where "buf_heap s b = Some y" "b \<noteq> NULL"
      using m c(9) by (cases "b = NULL") (auto simp: valid_mem_def)
    then show ?thesis using MBuf m c(10) by (auto simp: valid_mem_def wp_simps buf_sizes_def)
  next
    case (MAddr b)
    then obtain y where "buf_heap s b = Some y" "b \<noteq> NULL"
      using m c(9) by (cases "b = NULL") (auto simp: valid_mem_def)
    then show ?thesis using MAddr m c(10) by (auto simp: valid_mem_def wp_simps buf_sizes_def)
  next
    case (MRing c' off)
    then show ?thesis using m c by (auto simp: valid_mem_def wp_simps)
  qed
qed

lemma dma_uinv:
  "uinv ctx ops bufs s \<Longrightarrow> \<forall>(m, bs) \<in> set ws. valid_mem ctx s m (length bs) \<Longrightarrow>
    wp (dma ws) (\<lambda>_ s'. uinv ctx ops bufs s' \<and> same_but_mem ctx s s') s"
proof (induction ws arbitrary: s)
  case Nil
  then show ?case by (simp add: wp_simps same_but_mem_def)
next
  case (Cons w ws)
  obtain m bs where w: "w = (m, bs)" by (cases w)
  have "wp (dma ws) (\<lambda>_ s'. uinv ctx ops bufs s' \<and> same_but_mem ctx s s') s1"
    if "uinv ctx ops bufs s1 \<and> same_but_mem ctx s s1" for s1
    by (rule wp_conseq [OF Cons.IH [of s1]])
      (use that Cons.prems in \<open>auto intro: same_but_mem_valid same_but_mem_trans\<close>)
  moreover have "valid_mem ctx s m (length bs)" using Cons.prems(2) w by simp
  ultimately show ?case
    unfolding w dma.simps wp_bnd by (intro wp_conseq [OF store_bytes_uinv [OF Cons.prems(1)]])
qed

section \<open>Submissions\<close>

text \<open>Two versions of an operation with the same buffers, type and descriptor.\<close>

definition same_holding :: "io_op \<Rightarrow> io_op \<Rightarrow> bool" where
  "same_holding r r' \<longleftrightarrow> is_multi r' = is_multi r \<and> op_type r' = op_type r \<and> op_fd r' = op_fd r \<and>
     op_buf_addr r' = op_buf_addr r \<and> buf_idx r' = buf_idx r \<and> op_buffer r' = op_buffer r \<and> op_addr r' = op_addr r"

text \<open>
  What a submission of \<open>p\<close> does: result 0 and the kernel knows \<open>p\<close>, or result -1. Only the
  record of \<open>p\<close> changes, and it keeps its buffers.
\<close>

definition submitted :: "'k liburing \<Rightarrow> ptr \<Rightarrow> ptr list \<Rightarrow> ptr list \<Rightarrow> ptr \<Rightarrow> ('k, 'z) uring_state_scheme \<Rightarrow> int \<Rightarrow>
    ('k, 'z) uring_state_scheme \<Rightarrow> bool" where
  "submitted U ctx ops bufs p s rc s' \<longleftrightarrow> uinv ctx ops bufs s' \<and> kept U ctx s s' \<and>
     (\<forall>q. q \<noteq> p \<longrightarrow> op_heap s' q = op_heap s q) \<and> provided (trace s') = provided (trace s) \<and>
     (\<exists>r r' e. op_heap s p = Some r \<and> op_heap s' p = Some r' \<and> same_holding r r' \<and>
       (rc = 0 \<and> sqe_for p r' e \<and> inflight (trace s') = e # inflight (trace s) \<or>
        rc = -1 \<and> inflight (trace s') \<in> {inflight (trace s), e # inflight (trace s)}))"

lemma kept_get:
  "get_sqe U (kw s) = (ok, k) \<Longrightarrow> kept U ctx s (s\<lparr>kw := k\<rparr>)"
  by (auto simp: kept_def intro: kpres_get)

lemma kept_submit:
  assumes "get_sqe U (kw s) = (ok, k)" and "submit U (prep U e k) = (rc, k')"
  shows "kept U ctx s (s\<lparr>kw := k', trace := Ev_submit rc # Ev_prep e # trace s\<rparr>)"
  using kpres_submit [OF assms, of "s\<lparr>kw := k', trace := Ev_submit rc # Ev_prep e # trace s\<rparr>"]
  by (simp add: kept_def)

text \<open>The same from a state with a slot, where the operation's record has been filled in before.\<close>

lemma kept_prep_submit:
  assumes "submit U (prep U e (kw s)) = (rc, k')"
    and "next_addr s1 = next_addr s" and "uring_state.more s1 = uring_state.more s" and "map_option config (ctx_heap s1 ctx) = map_option config (ctx_heap s ctx)"
    and "dom (op_heap s1) = dom (op_heap s)" and "dom (buf_heap s1) = dom (buf_heap s)"
  shows "kept U ctx s (s1\<lparr>kw := k', trace := Ev_submit rc # Ev_prep e # trace s\<rparr>)"
  using kpres_prep_submit [OF assms(1), of "s1\<lparr>kw := k', trace := Ev_submit rc # Ev_prep e # trace s\<rparr>"] assms(2-)
  by (simp add: kept_def)

lemma submit_tun_read_ok:
  assumes u: "uinv ctx ops bufs s" and r: "op_heap s p = Some r" "p \<notin> set ops" and "op_type r = OP_TYPE_TUN_READ"
    and b: "op_buf_addr r \<noteq> NULL"
  shows "wp (iouring_submit_tun_read U ctx p) (submitted U ctx ops bufs p s) s"
proof -
  have "p \<noteq> NULL" "ctx \<noteq> NULL" "\<not> is_multi r"
    using uinv_live_nonnull [OF u r(1)] u live_buf [OF u r b] by (auto simp: uinv_def)
  then show ?thesis
    using assms by (auto simp: iouring_submit_tun_read_def wp_simps uring_call_defs submitted_def same_holding_def
      split: prod.splits intro: uinv_frame [OF u] kept_get kept_submit)
qed

lemma submit_udp_recv_ok:
  assumes u: "uinv ctx ops bufs s" and r: "op_heap s p = Some r" "p \<notin> set ops" and "op_type r = OP_TYPE_UDP_RECV"
    and b: "op_buf_addr r \<noteq> NULL"
  shows "wp (iouring_submit_udp_recv U ctx p) (submitted U ctx ops bufs p s) s"
proof -
  have n: "p \<noteq> NULL" "ctx \<noteq> NULL" "\<not> is_multi r"
    using uinv_live_nonnull [OF u r(1)] u live_buf [OF u r b] by (auto simp: uinv_def)
  let ?r = "r\<lparr>op_iov := \<lparr>iov_base = op_buffer r, iov_len = BUF_SIZE\<rparr>,
    op_msg := \<lparr>msg_name = op_addr r, msg_namelen = SOCKADDR_STORAGE, msg_iov = p, msg_iovlen = 1\<rparr>,
    op_addr_len := SOCKADDR_STORAGE\<rparr>"
  have u': "uinv ctx ops bufs (s\<lparr>op_heap := (op_heap s)(p \<mapsto> ?r)\<rparr>)"
    by (rule uinv_upd_op [OF u r]) auto
  have k: "kept U ctx s (s\<lparr>op_heap := (op_heap s)(p \<mapsto> r'), kw := k', trace := Ev_submit rc # Ev_prep e # trace s\<rparr>)"
    if "get_sqe U (kw s) = (ok, k)" and "submit U (prep U e k) = (rc, k')" for ok k e rc k' r'
    using kept_submit [OF that, of ctx] r by (simp add: kept_def kpres_def insert_absorb domIff)
  from n assms show ?thesis
    by (auto simp: iouring_submit_udp_recv_def wp_simps uring_call_defs submitted_def same_holding_def
      split: prod.splits intro: uinv_frame [OF u'] kept_get k)
qed

lemma submit_multishot_ok:
  assumes u: "uinv ctx ops bufs s" and r: "op_heap s p = Some r" and "is_multi r"
    and "msg_namelen (op_msg r) = SOCKADDR_STORAGE"
  shows "wp (iouring_submit_multishot_recvmsg_op U ctx p) (\<lambda>rc s'. submitted U ctx ops bufs p s rc s' \<and> op_heap s' = op_heap s) s"
proof -
  have "p \<noteq> NULL" using uinv_live_nonnull [OF u r] by simp
  moreover obtain c where "ctx_heap s ctx = Some c" "ctx \<noteq> NULL" using u by (auto simp: uinv_def)
  ultimately show ?thesis
    using assms by (auto simp: iouring_submit_multishot_recvmsg_op_def wp_simps uring_call_defs submitted_def
      same_holding_def split: prod.splits intro: uinv_frame [OF u] kept_get kept_submit)
qed

text \<open>
  The two submissions that may copy the payload into the buffer first: \<open>in_place data r len\<close>
  says that the bytes are there already with the right length, or that there is enough to copy.
\<close>

definition in_place :: "byte list option \<Rightarrow> io_op \<Rightarrow> int \<Rightarrow> bool" where
  "in_place data r len = (case data of None \<Rightarrow> data_len r = len | Some d \<Rightarrow> nat len \<le> length d \<and> op_buf_addr r \<noteq> NULL)"

text \<open>The effect of the copy: only the length in the record of \<open>p\<close> and the bytes of its buffer change.\<close>

definition copied :: "ptr \<Rightarrow> ptr list \<Rightarrow> ptr list \<Rightarrow> ptr \<Rightarrow> io_op \<Rightarrow> int \<Rightarrow> ('k, 'z) uring_state_scheme \<Rightarrow>
    ('k, 'z) uring_state_scheme \<Rightarrow> bool" where
  "copied ctx ops bufs p r len s s' \<longleftrightarrow> uinv ctx ops bufs s' \<and> op_heap s' = (op_heap s)(p \<mapsto> r\<lparr>data_len := len\<rparr>) \<and>
     dom (buf_heap s') = dom (buf_heap s) \<and> trace s' = trace s \<and> kw s' = kw s \<and>
     next_addr s' = next_addr s \<and> uring_state.more s' = uring_state.more s \<and> map_option config (ctx_heap s' ctx) = map_option config (ctx_heap s ctx)"

lemma copy_payload_ok:
  assumes u: "uinv ctx ops bufs s" and r: "op_heap s p = Some r" "p \<notin> set ops" and i: "in_place data r len"
    and len: "0 < len" "len \<le> int BUF_SIZE"
  shows "wp (copy_payload p data len) (\<lambda>_. copied ctx ops bufs p r len s) s"
proof (cases data)
  case None
  then have "(op_heap s)(p \<mapsto> r\<lparr>data_len := len\<rparr>) = op_heap s" using i r by (auto simp: in_place_def fun_eq_iff)
  then show ?thesis using None u by (simp add: copy_payload_def wp_simps copied_def)
next
  case (Some d)
  have p: "p \<noteq> NULL" by (rule uinv_live_nonnull [OF u r(1)])
  have "valid_mem ctx s (op_buffer r) (length (take (nat len) d))"
    using live_buf [OF u r] i Some len by (auto simp: valid_mem_def in_place_def)
  from store_bytes_uinv [OF u this]
  have "wp (store_bytes (op_buffer r) (take (nat len) d)) (\<lambda>_ s1. wp (upd_op p (\<lambda>r. r\<lparr>data_len := len\<rparr>))
      (\<lambda>_. copied ctx ops bufs p r len s) s1) s"
  proof (rule wp_conseq, goal_cases)
    case (1 a s1)
    then have r1: "op_heap s1 p = Some r" using r by (simp add: same_but_mem_def)
    have "uinv ctx ops bufs (s1\<lparr>op_heap := (op_heap s1)(p \<mapsto> r\<lparr>data_len := len\<rparr>)\<rparr>)"
      by (rule uinv_upd_op [OF _ r1 r(2)]) (use 1 in auto)
    then show ?case using 1 p r1 by (auto simp: wp_simps same_but_mem_def copied_def)
  qed
  then show ?thesis using Some i p r by (simp add: copy_payload_def wp_simps memcpy_in_def in_place_def)
qed

lemma submit_tun_write_ok:
  assumes u: "uinv ctx ops bufs s" and r: "op_heap s p = Some r" "p \<notin> set ops" and "op_type r = OP_TYPE_TUN_WRITE"
    and "\<not> is_multi r" and i: "in_place data r len \<or> len \<le> 0 \<or> int BUF_SIZE < len"
  shows "wp (iouring_submit_tun_write U ctx p data len) (submitted U ctx ops bufs p s) s"
proof -
  have n: "p \<noteq> NULL" "ctx \<noteq> NULL" using uinv_live_nonnull [OF u r(1)] u by (auto simp: uinv_def)
  obtain ok k where g: "get_sqe U (kw s) = (ok, k)" by (cases "get_sqe U (kw s)")
  have fail: "submitted U ctx ops bufs p s (-1) s" "submitted U ctx ops bufs p s (-1) (s\<lparr>kw := k\<rparr>)"
    using u r kept_get [OF g] by (auto simp: submitted_def same_holding_def)
  show ?thesis
  proof (cases "len \<le> 0 \<or> op_fd r < 0 \<or> int BUF_SIZE < len")
    case True
    then show ?thesis using n r fail assms(5) by (auto simp: iouring_submit_tun_write_def wp_simps)
  next
    case False
    have u1: "uinv ctx ops bufs (s\<lparr>kw := k\<rparr>)" using u by simp
    have copy: "wp (copy_payload p data len) (\<lambda>_. copied ctx ops bufs p r len (s\<lparr>kw := k\<rparr>)) (s\<lparr>kw := k\<rparr>)"
      by (rule copy_payload_ok [OF u1]) (use r False i in auto)
    have k: "kept U ctx s (s1\<lparr>kw := k', trace := Ev_submit rc # Ev_prep e # trace s\<rparr>)"
      if "submit U (prep U e (kw s1)) = (rc, k')" and "copied ctx ops bufs p r len (s\<lparr>kw := k\<rparr>) s1" for s1 rc k' e
    proof -
      have "kept U ctx (s\<lparr>kw := k\<rparr>) (s1\<lparr>kw := k', trace := Ev_submit rc # Ev_prep e # trace (s\<lparr>kw := k\<rparr>)\<rparr>)"
        by (rule kept_prep_submit) (use that r in \<open>auto simp: copied_def\<close>)
      then show ?thesis using kept_get [OF g] by (auto intro: kept_trans)
    qed
    have "wp (copy_payload p data len)
      (\<lambda>_. wp (bnd (load op_heap p) (\<lambda>r. bnd (c_assert (data_len r = len)) (\<lambda>_.
        bnd (uring_prep U (Sqe_write (op_fd r) (op_buffer r) (nat (data_len r)) p)) (\<lambda>_.
        bnd (uring_submit U) (\<lambda>rc. if rc < 0 then ret (-1) else ret 0))))) (submitted U ctx ops bufs p s)) (s\<lparr>kw := k\<rparr>)"
    proof (rule wp_conseq [OF copy], goal_cases)
      case (1 _ s1)
      then show ?case using r n False assms(4,5) k [OF _ 1]
        by (auto simp: copied_def wp_simps uring_call_defs submitted_def same_holding_def
          intro: uinv_frame split: prod.splits)
    qed
    then show ?thesis
      using n r False fail g assms(4,5) by (simp add: iouring_submit_tun_write_def wp_simps uring_get_sqe_def)
  qed
qed

text \<open>The second half of a send needs an address that fits and an operation with its own buffer.\<close>

lemma send_message_ok:
  assumes u: "uinv ctx ops bufs s" and r: "op_heap s p = Some r" "p \<notin> set ops" and b: "op_buf_addr r \<noteq> NULL"
    and a: "adr_len \<le> length adr" "adr_len \<le> SOCKADDR_STORAGE" and t: "op_type r = OP_TYPE_UDP_SEND" "0 \<le> data_len r"
  shows "wp (send_message U p adr adr_len) (submitted U ctx ops bufs p s) s"
proof -
  let ?r = "r\<lparr>op_addr_len := adr_len, op_iov := \<lparr>iov_base = op_buffer r, iov_len = nat (data_len r)\<rparr>,
    op_msg := (op_msg r)\<lparr>msg_name := op_addr r, msg_namelen := adr_len, msg_iov := p, msg_iovlen := 1\<rparr>\<rparr>"
  have p: "p \<noteq> NULL" by (rule uinv_live_nonnull [OF u r(1)])
  have v: "valid_mem ctx s (op_addr r) (length (take adr_len adr))"
    using live_buf [OF u r b] a by (auto simp: valid_mem_def)
  show ?thesis
    unfolding send_message_def wp_bnd wp_load
  proof (intro conjI exI [of _ r], goal_cases)
    case 3
    have "wp (memcpy_in (op_addr r) adr adr_len) (\<lambda>_ s'. uinv ctx ops bufs s' \<and> same_but_mem ctx s s') s"
      using store_bytes_uinv [OF u v] a(1) by (simp add: memcpy_in_def)
    then show ?case
    proof (rule wp_conseq, goal_cases)
      case (1 _ s1)
      then have r1: "op_heap s1 p = Some r" using r by (simp add: same_but_mem_def)
      have u2: "uinv ctx ops bufs (s1\<lparr>op_heap := (op_heap s1)(p \<mapsto> ?r)\<rparr>)"
        by (rule uinv_upd_op [OF _ r1 r(2)]) (use 1 in auto)
      have k: "kept U ctx s (s1\<lparr>op_heap := (op_heap s)(p \<mapsto> r'), kw := k', trace := Ev_submit rc # Ev_prep e # trace s\<rparr>)"
        if "submit U (prep U e (kw s)) = (rc, k')" for rc k' e r'
        using kept_prep_submit [OF that, of "s1\<lparr>op_heap := (op_heap s)(p \<mapsto> r')\<rparr>" ctx] 1 r
        by (simp add: same_but_mem_def insert_absorb domIff)
      from 1 r r1 p b t live_buf(5) [OF u r b] show ?case
        by (auto simp: wp_simps uring_call_defs submitted_def same_holding_def same_but_mem_def
          intro: uinv_frame [OF u2] k split: prod.splits)
    qed
  qed (use p r in auto)
qed

lemma submitted_copied:
  assumes "submitted U ctx ops bufs p s1 rc s'" and "copied ctx ops bufs p r len (s\<lparr>kw := k\<rparr>) s1"
    and "op_heap s p = Some r" and "get_sqe U (kw s) = (ok, k)"
  shows "submitted U ctx ops bufs p s rc s'"
proof -
  have "kpres U ctx s s1" by (rule kpres_get [OF assms(4)]) (use assms(2) in \<open>auto simp: copied_def\<close>)
  then have "kept U ctx s s1" using assms(2,3) by (auto simp: copied_def kept_def)
  then have "kept U ctx s s'" using assms(1) by (auto simp: submitted_def intro: kept_trans)
  then show ?thesis using assms(1-3) by (auto simp: submitted_def same_holding_def copied_def)
qed

lemma submit_udp_send_ok:
  assumes u: "uinv ctx ops bufs s" and r: "op_heap s p = Some r" "p \<notin> set ops" and "op_type r = OP_TYPE_UDP_SEND"
    and b: "op_buf_addr r \<noteq> NULL" and i: "in_place data r len \<or> len \<le> 0 \<or> int BUF_SIZE < len"
    and a: "adr_len \<le> length adr" "adr_len \<le> SOCKADDR_STORAGE"
  shows "wp (iouring_submit_udp_send U ctx p (Some adr) adr_len data len) (submitted U ctx ops bufs p s) s"
proof -
  have n: "p \<noteq> NULL" "ctx \<noteq> NULL" using uinv_live_nonnull [OF u r(1)] u by (auto simp: uinv_def)
  obtain ok k where g: "get_sqe U (kw s) = (ok, k)" by (cases "get_sqe U (kw s)")
  have fail: "submitted U ctx ops bufs p s (-1) s" "submitted U ctx ops bufs p s (-1) (s\<lparr>kw := k\<rparr>)"
    using u r kept_get [OF g] by (auto simp: submitted_def same_holding_def)
  show ?thesis
  proof (cases "len \<le> 0 \<or> op_fd r < 0 \<or> int BUF_SIZE < len")
    case True
    then show ?thesis using n r fail by (auto simp: iouring_submit_udp_send_def wp_simps)
  next
    case False
    have u1: "uinv ctx ops bufs (s\<lparr>kw := k\<rparr>)" using u by simp
    have copy: "wp (copy_payload p data len) (\<lambda>_. copied ctx ops bufs p r len (s\<lparr>kw := k\<rparr>)) (s\<lparr>kw := k\<rparr>)"
      by (rule copy_payload_ok [OF u1]) (use r False i in auto)
    have "wp (copy_payload p data len) (\<lambda>_. wp (bnd (load op_heap p) (\<lambda>r.
        bnd (c_assert (data_len r = len)) (\<lambda>_. send_message U p adr adr_len))) (submitted U ctx ops bufs p s)) (s\<lparr>kw := k\<rparr>)"
    proof (rule wp_conseq [OF copy], goal_cases)
      case (1 _ s1)
      then have r1: "op_heap s1 p = Some (r\<lparr>data_len := len\<rparr>)" by (simp add: copied_def)
      have "wp (send_message U p adr adr_len) (submitted U ctx ops bufs p s1) s1"
        by (rule send_message_ok [OF _ r1 r(2)]) (use 1 b a False assms(4) in \<open>auto simp: copied_def\<close>)
      then have "wp (send_message U p adr adr_len) (submitted U ctx ops bufs p s) s1"
        by (rule wp_conseq) (rule submitted_copied [OF _ 1 r(1) g])
      then show ?case using r1 n by (simp add: wp_simps)
    qed
    then show ?thesis
      using n r False fail g assms(4) by (simp add: iouring_submit_udp_send_def wp_simps uring_get_sqe_def)
  qed
qed

end
