(* ===== verification/Uring_Ledger.thy ===== *)
theory Uring_Ledger
  imports Uring_Submit
begin

text \<open>
  The ledger: ownership with nothing missing. \<open>ginv ctx ops bufs L s\<close> adds to \<open>uinv\<close> that the
  kernel's entries match the program's records (\<open>linked\<close>), that every operation is free, in
  flight, or in the set \<open>L\<close> of operations the running code holds in its local variables, and
  that every buffer is free, with the ring, or held by a live operation. Between two iterations
  of an event loop \<open>L\<close> is empty, so \<open>gi ctx {}\<close> says that nothing has leaked.
\<close>

definition lossless :: "ptr list \<Rightarrow> ptr list \<Rightarrow> nat \<Rightarrow> (ptr \<rightharpoonup> io_op) \<Rightarrow> ptr set \<Rightarrow> nat list \<Rightarrow> bool" where
  "lossless ops bufs n OH D prov \<longleftrightarrow>
     (\<forall>b \<in> D. b \<in> set bufs \<or> (\<exists>p r. OH p = Some r \<and> p \<notin> set ops \<and> op_buf_addr r = b)) \<and>
     (\<forall>i < n. i \<in> set prov \<or> (\<exists>p r. OH p = Some r \<and> p \<notin> set ops \<and> buf_idx r = int i))"

definition ring_n :: "ptr \<Rightarrow> ('k, 'z) uring_state_scheme \<Rightarrow> nat" where
  "ring_n ctx s = (case map_option config (ctx_heap s ctx) of None \<Rightarrow> 0 | Some c \<Rightarrow> nat (br_n_bufs c))"

text \<open>A multishot operation that nobody is looking at holds no buffer.\<close>

definition idle :: "ptr list \<Rightarrow> ptr set \<Rightarrow> (ptr \<rightharpoonup> io_op) \<Rightarrow> bool" where
  "idle ops L OH \<longleftrightarrow> (\<forall>p r. OH p = Some r \<and> p \<notin> set ops \<and> p \<notin> L \<and> is_multi r \<longrightarrow> buf_idx r < 0)"

definition ginv :: "ptr \<Rightarrow> ptr list \<Rightarrow> ptr list \<Rightarrow> ptr set \<Rightarrow> ('k, 'z) uring_state_scheme \<Rightarrow> bool" where
  "ginv ctx ops bufs L s \<longleftrightarrow> uinv ctx ops bufs s \<and> linked ops s \<and> ring_addrs (trace s) \<and>
     dom (op_heap s) = set ops \<union> set (outstanding (trace s)) \<union> L \<and> L \<inter> set ops = {} \<and>
     lossless ops bufs (ring_n ctx s) (op_heap s) (dom (buf_heap s)) (provided (trace s)) \<and>
     idle ops L (op_heap s)"

definition gi :: "ptr \<Rightarrow> ptr set \<Rightarrow> ('k, 'z) uring_state_scheme \<Rightarrow> bool" where
  "gi ctx L s \<longleftrightarrow> (\<exists>ops bufs. ginv ctx ops bufs L s)"

text \<open>What is left of it when a call has failed: the ownership invariant, with the operations \<open>L\<close> live.\<close>

definition live :: "ptr \<Rightarrow> ptr set \<Rightarrow> ('k, 'z) uring_state_scheme \<Rightarrow> bool" where
  "live ctx L s \<longleftrightarrow> (\<exists>ops bufs. uinv ctx ops bufs s \<and> L \<subseteq> dom (op_heap s) - set ops)"

lemma gi_live: "gi ctx L s \<Longrightarrow> live ctx L s"
  by (auto simp: gi_def live_def ginv_def)

lemma live_mono: "live ctx L s \<Longrightarrow> M \<subseteq> L \<Longrightarrow> live ctx M s"
  by (auto simp: live_def)

lemma kept_ring_n: "kept U ctx s s' \<Longrightarrow> ring_n ctx s' = ring_n ctx s"
  by (simp add: kept_def ring_n_def)

lemma uinv_ring_n:
  "uinv ctx ops bufs s \<Longrightarrow> own ops bufs (ring_n ctx s) (op_heap s) (buf_heap s) (provided (trace s))"
  by (auto simp: uinv_def ring_n_def)

lemma ginvD:
  assumes "ginv ctx ops bufs L s"
  shows "uinv ctx ops bufs s" and "linked ops s" and "ring_addrs (trace s)"
    and "dom (op_heap s) = set ops \<union> set (outstanding (trace s)) \<union> L" and "L \<inter> set ops = {}"
    and "lossless ops bufs (ring_n ctx s) (op_heap s) (dom (buf_heap s)) (provided (trace s))"
    and "idle ops L (op_heap s)"
  using assms by (simp_all add: ginv_def)

lemma linked_out: "linked ops s \<Longrightarrow> q \<in> set (outstanding (trace s)) \<Longrightarrow> q \<notin> set ops"
  by (auto simp: linked_def outstanding_def)

lemma uinv_distinct: "uinv ctx ops bufs s \<Longrightarrow> distinct ops \<and> distinct bufs"
  unfolding uinv_def by (blast dest: chain_distinct)

lemma uinv_no_null: "uinv ctx ops bufs s \<Longrightarrow> NULL \<notin> dom (buf_heap s) \<and> NULL \<notin> dom (op_heap s)"
  unfolding uinv_def by blast

section \<open>How the ledger moves\<close>

lemma lossless_pop:
  assumes "lossless (p # ops) (b # bufs) n OH D prov" and "op_buf_addr r = b" and "p \<notin> set ops"
  shows "lossless ops bufs n (OH(p \<mapsto> r)) D prov"
  using assms unfolding lossless_def by (auto 4 4)

lemma lossless_pop_bare:
  assumes "lossless (p # ops) bufs n OH D prov" and "p \<notin> set ops"
  shows "lossless ops bufs n (OH(p \<mapsto> r)) D prov"
  using assms unfolding lossless_def by (auto 4 4)

lemma lossless_same:
  assumes "lossless ops bufs n OH D prov" and "\<And>q. q \<noteq> p \<Longrightarrow> OH' q = OH q" and "OH p = Some r" and "OH' p = Some r'"
    and "op_buf_addr r' = op_buf_addr r" and "buf_idx r' = buf_idx r"
  shows "lossless ops bufs n OH' D prov"
  unfolding lossless_def
proof (intro conjI ballI allI impI)
  fix b
  assume "b \<in> D"
  then show "b \<in> set bufs \<or> (\<exists>p r. OH' p = Some r \<and> p \<notin> set ops \<and> op_buf_addr r = b)"
    using assms unfolding lossless_def by (metis option.inject)
next
  fix i
  assume "i < n"
  then show "i \<in> set prov \<or> (\<exists>p r. OH' p = Some r \<and> p \<notin> set ops \<and> buf_idx r = int i)"
    using assms unfolding lossless_def by (metis option.inject)
qed

lemma lossless_pool_only:
  assumes "lossless ops bufs n OH D prov" and "\<And>q. q \<notin> set ops \<Longrightarrow> OH' q = OH q"
  shows "lossless ops bufs n OH' D prov"
  using assms unfolding lossless_def by metis

lemma lossless_push:
  assumes "lossless ops bufs n OH D prov" and "\<And>q. q \<noteq> p \<Longrightarrow> OH' q = OH q" and "OH p = Some r"
    and "op_buf_addr r \<in> D \<Longrightarrow> op_buf_addr r \<in> set bufs'" and "0 \<le> buf_idx r \<Longrightarrow> nat (buf_idx r) \<in> set prov'"
    and "set bufs \<subseteq> set bufs'" and "set prov \<subseteq> set prov'"
  shows "lossless (p # ops) bufs' n OH' D prov'"
  unfolding lossless_def
proof (intro conjI ballI allI impI)
  fix b
  assume b: "b \<in> D"
  then consider "b \<in> set bufs" | q r' where "OH q = Some r'" "q \<notin> set ops" "op_buf_addr r' = b"
    using assms(1) unfolding lossless_def by blast
  then show "b \<in> set bufs' \<or> (\<exists>q r. OH' q = Some r \<and> q \<notin> set (p # ops) \<and> op_buf_addr r = b)"
  proof cases
    case 2
    then show ?thesis using assms(2) [of q] assms(3,4) b by (cases "q = p") auto
  qed (use assms(6) in auto)
next
  fix i
  assume i: "i < n"
  then consider "i \<in> set prov" | q r' where "OH q = Some r'" "q \<notin> set ops" "buf_idx r' = int i"
    using assms(1) unfolding lossless_def by blast
  then show "i \<in> set prov' \<or> (\<exists>q r. OH' q = Some r \<and> q \<notin> set (p # ops) \<and> buf_idx r = int i)"
  proof cases
    case 2
    then show ?thesis using assms(2) [of q] assms(3,5) by (cases "q = p") auto
  qed (use assms(7) in auto)
qed

text \<open>Two records change, and together they hold what they held before.\<close>

lemma lossless_two:
  assumes "lossless ops bufs n OH D prov" and "OH p = Some r" and "OH q = Some r2" and "p \<notin> set ops" and "q \<notin> set ops"
    and "p \<noteq> q" and "{op_buf_addr r, op_buf_addr r2} - {NULL} \<subseteq> {op_buf_addr r', op_buf_addr r2'}"
    and "{buf_idx r, buf_idx r2} \<inter> {0..} \<subseteq> {buf_idx r', buf_idx r2'}" and "NULL \<notin> D"
  shows "lossless ops bufs n (OH(p \<mapsto> r', q \<mapsto> r2')) D prov"
  unfolding lossless_def
proof (intro conjI ballI allI impI)
  fix b
  assume b: "b \<in> D"
  then consider "b \<in> set bufs" | x rx where "OH x = Some rx" "x \<notin> set ops" "op_buf_addr rx = b"
    using assms(1) unfolding lossless_def by blast
  then show "b \<in> set bufs \<or> (\<exists>x r. (OH(p \<mapsto> r', q \<mapsto> r2')) x = Some r \<and> x \<notin> set ops \<and> op_buf_addr r = b)"
  proof cases
    case 2
    have "b \<noteq> NULL" using b assms(9) by metis
    show ?thesis
    proof (cases "x = p \<or> x = q")
      case True
      then have "b = op_buf_addr r' \<or> b = op_buf_addr r2'" using 2 assms(2,3,7) \<open>b \<noteq> NULL\<close> by auto
      then show ?thesis using assms(4-6) by auto
    next
      case False
      then show ?thesis using 2 by auto
    qed
  qed auto
next
  fix i
  assume i: "i < n"
  then consider "i \<in> set prov" | x rx where "OH x = Some rx" "x \<notin> set ops" "buf_idx rx = int i"
    using assms(1) unfolding lossless_def by blast
  then show "i \<in> set prov \<or> (\<exists>x r. (OH(p \<mapsto> r', q \<mapsto> r2')) x = Some r \<and> x \<notin> set ops \<and> buf_idx r = int i)"
  proof cases
    case 2
    show ?thesis
    proof (cases "x = p \<or> x = q")
      case True
      then have "int i = buf_idx r' \<or> int i = buf_idx r2'" using 2 assms(2,3,8) by force
      then show ?thesis using assms(4-6) by auto
    next
      case False
      then show ?thesis using 2 by auto
    qed
  qed auto
qed

text \<open>A ring buffer moves between the ring and the operation \<open>p\<close>.\<close>

lemma lossless_receive:
  assumes "lossless ops bufs n OH D prov" and "OH p = Some r" and "p \<notin> set ops" and "op_buf_addr r = NULL"
    and "buf_idx r < 0" and "buf_idx r' = int i" and "NULL \<notin> D"
  shows "lossless ops bufs n (OH(p \<mapsto> r')) D (remove1 i prov)"
  unfolding lossless_def
proof (intro conjI ballI allI impI)
  fix b
  assume b: "b \<in> D"
  then have "b \<noteq> NULL" using assms(7) by metis
  with b show "b \<in> set bufs \<or> (\<exists>x r. (OH(p \<mapsto> r')) x = Some r \<and> x \<notin> set ops \<and> op_buf_addr r = b)"
    using assms unfolding lossless_def by (metis fun_upd_apply option.inject)
next
  fix j
  assume "j < n"
  then show "j \<in> set (remove1 i prov) \<or> (\<exists>x r. (OH(p \<mapsto> r')) x = Some r \<and> x \<notin> set ops \<and> buf_idx r = int j)"
    using assms unfolding lossless_def
    by (cases "j = i") (auto, metis fun_upd_apply in_set_remove1 option.inject of_nat_0_le_iff linorder_not_le)
qed

lemma lossless_recycle:
  assumes "lossless ops bufs n OH D prov" and "OH p = Some r" and "p \<notin> set ops" and "op_buf_addr r' = op_buf_addr r"
    and "0 \<le> buf_idx r"
  shows "lossless ops bufs n (OH(p \<mapsto> r')) D (nat (buf_idx r) # prov)"
  unfolding lossless_def
proof (intro conjI ballI allI impI)
  fix b
  assume "b \<in> D"
  then show "b \<in> set bufs \<or> (\<exists>x r. (OH(p \<mapsto> r')) x = Some r \<and> x \<notin> set ops \<and> op_buf_addr r = b)"
    using assms unfolding lossless_def by (metis fun_upd_apply option.inject)
next
  fix j
  assume "j < n"
  then show "j \<in> set (nat (buf_idx r) # prov) \<or> (\<exists>x r. (OH(p \<mapsto> r')) x = Some r \<and> x \<notin> set ops \<and> buf_idx r = int j)"
    using assms unfolding lossless_def by (metis fun_upd_apply list.set_intros nat_int option.inject)
qed

section \<open>Operations on the ledger\<close>

lemma linked_other:
  assumes l: "linked ops s" and i: "inflight (trace s') = inflight (trace s)" and p: "p \<notin> set (outstanding (trace s))"
    and h: "\<And>q. q \<noteq> p \<Longrightarrow> op_heap s' q = op_heap s q" and o: "set ops' \<subseteq> insert p (set ops)"
  shows "linked ops' s'"
  unfolding linked_def
proof (intro conjI ballI)
  show "distinct (outstanding (trace s'))" using l i by (simp add: linked_def outstanding_def)
  fix e
  assume "e \<in> set (inflight (trace s'))"
  then have e: "e \<in> set (inflight (trace s))" by (simp add: i)
  then have "sqe_user_data e \<noteq> p" using p by (auto simp: outstanding_def)
  then show "sqe_user_data e \<notin> set ops'"
    and "\<exists>r. op_heap s' (sqe_user_data e) = Some r \<and> sqe_for (sqe_user_data e) r e"
    using l e h o by (auto simp: linked_def)
qed

text \<open>The entry of a multishot operation does not depend on the buffer it was given last.\<close>

lemma linked_multi:
  assumes l: "linked ops s" and i: "inflight (trace s') = inflight (trace s)" and r: "op_heap s q = Some r" "is_multi r"
    and h: "op_heap s' = (op_heap s)(q \<mapsto> r')" and r': "is_multi r'" "op_fd r' = op_fd r" "op_msg r' = op_msg r"
  shows "linked ops s'"
  unfolding linked_def
proof (intro conjI ballI)
  show "distinct (outstanding (trace s'))" using l i by (simp add: linked_def outstanding_def)
  fix e
  assume "e \<in> set (inflight (trace s'))"
  then have e: "e \<in> set (inflight (trace s))" using i by simp
  then obtain rx where rx: "op_heap s (sqe_user_data e) = Some rx" "sqe_for (sqe_user_data e) rx e"
    using l by (auto simp: linked_def)
  then have "sqe_for q r' e" if "sqe_user_data e = q" using that r r' by (cases e) auto
  with e rx show "sqe_user_data e \<notin> set ops"
    and "\<exists>r. op_heap s' (sqe_user_data e) = Some r \<and> sqe_for (sqe_user_data e) r e"
    using l h by (auto simp: linked_def)
qed

text \<open>Allocation: NULL, and nothing has changed; or a new operation with a buffer of its own.\<close>

definition allocated :: "'k liburing \<Rightarrow> ptr \<Rightarrow> ptr set \<Rightarrow> int \<Rightarrow> int \<Rightarrow> ('k, 'z) uring_state_scheme \<Rightarrow> ptr \<Rightarrow>
    ('k, 'z) uring_state_scheme \<Rightarrow> bool" where
  "allocated U ctx L typ fd s p s' \<longleftrightarrow> kept U ctx s s' \<and> trace s' = trace s \<and> kw s' = kw s \<and>
     (\<forall>q. q \<in> L \<or> q \<in> set (outstanding (trace s)) \<longrightarrow> op_heap s' q = op_heap s q) \<and>
     (if p = NULL then gi ctx L s'
      else p \<notin> L \<and> p \<notin> set (outstanding (trace s)) \<and> gi ctx (insert p L) s' \<and>
        (\<exists>b. b \<noteq> NULL \<and> op_heap s' p = Some (new_op typ fd b)))"

lemma ginv_head:
  assumes g: "ginv ctx (p # ops) bufs L s"
  shows "p \<notin> L" and "p \<notin> set (outstanding (trace s))" and "p \<notin> set ops"
  using ginvD(5) [OF g] linked_out [OF ginvD(2) [OF g]] uinv_distinct [OF ginvD(1) [OF g]] by auto

lemma ginv_pop:
  assumes g: "ginv ctx (p # ops) bufs0 L s" and u: "uinv ctx ops bufs s'" and e: "same_env s s'"
    and lk: "linked ops s'" and i: "idle ops (insert p L) (op_heap s')"
    and l: "lossless ops bufs (ring_n ctx s) (op_heap s') (dom (buf_heap s)) (provided (trace s))"
  shows "ginv ctx ops bufs (insert p L) s'"
  using g u lk i l e kept_ring_n [OF same_env_kept [OF e]] ginv_head [OF g] by (auto simp: ginv_def same_env_def)

lemma g_alloc:
  assumes g: "gi ctx L s"
  shows "wp (io_op_alloc ctx typ fd False) (allocated U ctx L typ fd s) s"
proof -
  obtain ops0 bufs0 where g: "ginv ctx ops0 bufs0 L s" using g by (auto simp: gi_def)
  note u = ginvD(1) [OF g]
  show ?thesis
  proof (cases ops0)
    case Nil
    show ?thesis
      unfolding io_op_alloc_def
      by (rule wp_InrI [where m = "io_op_alloc_buf ctx typ fd False NULL", OF io_op_alloc_none [OF u [unfolded Nil]]])
        (use g in \<open>auto simp: allocated_def gi_def\<close>)
  next
    case ops: (Cons p ops)
    show ?thesis
    proof (cases bufs0)
      case Nil
      show ?thesis
      proof (rule wp_conseq [OF io_op_alloc_no_buf [OF u [unfolded ops Nil]]], goal_cases)
        case (1 r s')
        then have e: "same_env s s'" and h: "\<And>q. q \<noteq> p \<Longrightarrow> op_heap s' q = op_heap s q" by auto
        have p: "p \<notin> L" "p \<notin> set (outstanding (trace s))"
          using ginvD(5) [OF g] linked_out [OF ginvD(2) [OF g]] by (auto simp: ops)
        have l: "linked ops0 s'"
          by (rule linked_other [OF ginvD(2) [OF g] _ p(2) h]) (use e in \<open>auto simp: same_env_def\<close>)
        have "lossless ops0 bufs0 (ring_n ctx s) (op_heap s') (dom (buf_heap s)) (provided (trace s))"
          by (rule lossless_pool_only [OF ginvD(6) [OF g]]) (use h ops in auto)
        moreover have "idle ops0 L (op_heap s')"
          using ginvD(7) [OF g] h ops by (fastforce simp: idle_def)
        ultimately have "ginv ctx ops0 bufs0 L s'"
          using 1 g e l kept_ring_n [OF same_env_kept [OF e]] by (auto simp: ginv_def same_env_def ops Nil)
        moreover have "op_heap s' q = op_heap s q" if "q \<in> L \<or> q \<in> set (outstanding (trace s))" for q
          using h [of q] p that by (cases "q = p") auto
        ultimately show ?case using 1 same_env_kept [OF e] by (auto simp: allocated_def gi_def same_env_def)
      qed
    next
      case (Cons b bufs)
      show ?thesis
      proof (rule wp_conseq [OF io_op_alloc_single [OF u [unfolded ops Cons]]], goal_cases)
        case (1 r s')
        then have e: "same_env s s'" and h: "op_heap s' = (op_heap s)(p \<mapsto> new_op typ fd b)" by auto
        have l: "lossless ops bufs (ring_n ctx s) (op_heap s') (dom (buf_heap s)) (provided (trace s))"
          unfolding h by (rule lossless_pop [OF ginvD(6) [OF g, unfolded ops Cons]]) (use 1 in \<open>auto simp: new_op_def\<close>)
        note hd = ginv_head [OF g [unfolded ops]]
        have lk: "linked ops s'"
          by (rule linked_other [OF ginvD(2) [OF g] _ hd(2)]) (use e h ops in \<open>auto simp: same_env_def\<close>)
        have i: "idle ops (insert p L) (op_heap s')" using ginvD(7) [OF g] ops by (auto simp: idle_def h)
        have "ginv ctx ops bufs (insert p L) s'" by (rule ginv_pop [OF g [unfolded ops] _ e lk i l]) (use 1 in simp)
        then show ?case using 1 hd h same_env_kept [OF e] by (auto simp: allocated_def gi_def same_env_def)
      qed
    qed
  qed
qed

text \<open>Submission: the operation is in flight; it leaves the local variables when nothing ties it to them.\<close>

lemma g_submitted:
  assumes g: "ginv ctx ops bufs L s" and p: "p \<in> L" "p \<notin> set (outstanding (trace s))"
    and sub: "submitted U ctx ops bufs p s 0 s'"
  shows "ginv ctx ops bufs L s'" and "outstanding (trace s') = p # outstanding (trace s)"
proof -
  from sub obtain r r' e where s': "uinv ctx ops bufs s'" "kept U ctx s s'" "\<And>q. q \<noteq> p \<Longrightarrow> op_heap s' q = op_heap s q"
    "provided (trace s') = provided (trace s)" "op_heap s p = Some r" "op_heap s' p = Some r'" "same_holding r r'"
    "sqe_for p r' e" "inflight (trace s') = e # inflight (trace s)"
    by (auto simp: submitted_def)
  show o: "outstanding (trace s') = p # outstanding (trace s)"
    using s'(8,9) by (simp add: outstanding_def sqe_for_user_data)
  have pn: "p \<notin> set ops" using ginvD(5) [OF g] p by auto
  have "linked ops s'"
    unfolding linked_def o
  proof (intro conjI ballI)
    show "distinct (p # outstanding (trace s))" using ginvD(2) [OF g] p(2) by (simp add: linked_def)
    fix x
    assume "x \<in> set (inflight (trace s'))"
    then consider "x = e" | "x \<in> set (inflight (trace s))" "sqe_user_data x \<noteq> p"
      using s'(9) p(2) by (auto simp: outstanding_def)
    then show "sqe_user_data x \<notin> set ops"
      and "\<exists>r. op_heap s' (sqe_user_data x) = Some r \<and> sqe_for (sqe_user_data x) r x"
      using ginvD(2) [OF g] s'(3,6,8) sqe_for_user_data [OF s'(8)] pn by (cases; simp add: linked_def)+
  qed
  moreover have "lossless ops bufs (ring_n ctx s') (op_heap s') (dom (buf_heap s')) (provided (trace s'))"
    using lossless_same [OF ginvD(6) [OF g] s'(3,5,6)] s'(2,4,7) kept_ring_n [OF s'(2)]
    by (simp add: same_holding_def kept_def)
  moreover have "idle ops L (op_heap s')"
    using ginvD(7) [OF g] s'(3) p by (fastforce simp: idle_def)
  ultimately show "ginv ctx ops bufs L s'"
    using g s'(1,2) p o by (auto simp: ginv_def kept_def)
qed

lemma g_release:
  assumes g: "ginv ctx ops bufs L s" and p: "p \<in> set (outstanding (trace s))" and "op_heap s p = Some r"
    and "is_multi r \<longrightarrow> buf_idx r < 0"
  shows "ginv ctx ops bufs (L - {p}) s"
  using assms by (fastforce simp: ginv_def idle_def)

text \<open>Release of a single-shot operation that is not in flight.\<close>

definition freed :: "'k liburing \<Rightarrow> ptr \<Rightarrow> ptr set \<Rightarrow> ptr \<Rightarrow> ('k, 'z) uring_state_scheme \<Rightarrow> ('k, 'z) uring_state_scheme \<Rightarrow> bool" where
  "freed U ctx L p s s' \<longleftrightarrow> kept U ctx s s' \<and> inflight (trace s') = inflight (trace s) \<and>
     (\<forall>q. q \<noteq> p \<longrightarrow> op_heap s' q = op_heap s q) \<and> gi ctx (L - {p}) s'"

lemma freedI:
  assumes g: "ginv ctx ops bufs L s" and p: "p \<in> L" "p \<notin> set (outstanding (trace s))" and r: "op_heap s p = Some r"
    and u: "uinv ctx (p # ops) bufs' s'" and k: "kept U ctx s s'" and i: "inflight (trace s') = inflight (trace s)"
    and h: "\<And>q. q \<noteq> p \<Longrightarrow> op_heap s' q = op_heap s q"
    and b: "op_buf_addr r \<noteq> NULL \<Longrightarrow> op_buf_addr r \<in> set bufs'" and bs: "set bufs \<subseteq> set bufs'"
    and x: "0 \<le> buf_idx r \<Longrightarrow> nat (buf_idx r) \<in> set (provided (trace s'))"
    and ps: "set (provided (trace s)) \<subseteq> set (provided (trace s'))"
  shows "freed U ctx L p s s'"
proof -
  have o: "outstanding (trace s') = outstanding (trace s)" using i by (simp add: outstanding_def)
  have "linked (p # ops) s'"
    by (rule linked_other [OF ginvD(2) [OF g] i p(2) h]) auto
  moreover have "op_buf_addr r \<noteq> NULL" if "op_buf_addr r \<in> dom (buf_heap s)"
    using that uinv_no_null [OF ginvD(1) [OF g]] by metis
  then have "lossless (p # ops) bufs' (ring_n ctx s) (op_heap s') (dom (buf_heap s)) (provided (trace s'))"
    by (intro lossless_push [OF ginvD(6) [OF g] h r]) (use b bs x ps in auto)
  moreover have "idle (p # ops) (L - {p}) (op_heap s')"
    using ginvD(7) [OF g] h by (fastforce simp: idle_def)
  ultimately have "ginv ctx (p # ops) bufs' (L - {p}) s'"
    using g u k p o kept_ring_n [OF k] by (auto simp: ginv_def kept_def)
  then show ?thesis using k i h by (auto simp: freed_def gi_def)
qed

lemma g_free_single:
  assumes g: "gi ctx L s" and p: "p \<in> L" "p \<notin> set (outstanding (trace s))" and r: "op_heap s p = Some r" "\<not> is_multi r"
  shows "wp (io_op_free U ctx p) (\<lambda>r' s'. r' = NULL \<and> freed U ctx L p s s') s"
proof -
  obtain ops bufs where g: "ginv ctx ops bufs L s" using g by (auto simp: gi_def)
  note u = ginvD(1) [OF g]
  have n: "p \<notin> set ops" using ginvD(5) [OF g] p by auto
  note fr = freedI [OF g p r(1)]
  consider "op_buf_addr r \<noteq> NULL" | "op_buf_addr r = NULL" "0 \<le> buf_idx r" | "holds_nothing r"
    unfolding holds_nothing_def by linarith
  then show ?thesis
  proof cases
    case b: 1
    show ?thesis
    proof (rule wp_conseq [OF io_op_free_single_buf [OF u r(1) n r(2) refl b]], goal_cases)
      case (1 r' s')
      then show ?case using live_buf(4) [OF u r(1) n b]
        by (auto intro!: fr same_env_kept simp: same_env_def)
    qed
  next
    case 2
    show ?thesis
    proof (rule wp_conseq [OF io_op_free_single_ring [OF u r(1) n r(2) 2(2)]], goal_cases)
      case (1 r' s')
      then show ?case using 2 by (auto intro!: fr)
    qed
  next
    case 3
    show ?thesis
    proof (rule wp_conseq [OF io_op_free_single_bare [OF u r(1) n r(2) 3]], goal_cases)
      case (1 r' s')
      then show ?case using 3 by (auto intro!: fr same_env_kept simp: same_env_def holds_nothing_def)
    qed
  qed
qed

text \<open>Release of a multishot operation in flight: its ring buffer goes back, the operation stays armed.\<close>

lemma g_free_multi:
  assumes g: "gi ctx L s" and p: "p \<in> set (outstanding (trace s))" and r: "op_heap s p = Some r" "is_multi r"
    and i: "buf_idx r \<noteq> -1" "-2 \<le> buf_idx r"
  shows "wp (io_op_free U ctx p) (\<lambda>r' s'. r' = p \<and> freed U ctx L p s s' \<and> op_heap s' p \<noteq> None) s"
proof -
  obtain ops bufs where g: "ginv ctx ops bufs L s" using g by (auto simp: gi_def)
  note u = ginvD(1) [OF g]
  have n: "p \<notin> set ops" "p \<noteq> NULL" using linked_out [OF ginvD(2) [OF g] p] uinv_live_nonnull [OF u r(1)] by auto
  show ?thesis
  proof (cases "0 \<le> buf_idx r")
    case True
    show ?thesis
    proof (rule wp_conseq [OF io_op_free_multi [OF u r(1) n(1) r(2) True]], goal_cases)
      case (1 r' s')
      let ?r = "r\<lparr>buf_idx := -1\<rparr>"
      have o: "outstanding (trace s') = outstanding (trace s)" using 1 by (simp add: outstanding_def)
      have "linked ops s'"
        by (rule linked_multi [OF ginvD(2) [OF g] _ r, of _ ?r]) (use 1 r in auto)
      moreover have "lossless ops bufs (ring_n ctx s) (op_heap s') (dom (buf_heap s)) (provided (trace s'))"
        using lossless_recycle [OF ginvD(6) [OF g] r(1) n(1) _ True, of ?r] 1 by simp
      moreover have "idle ops (L - {p}) (op_heap s')"
        using ginvD(7) [OF g] 1 by (auto simp: idle_def)
      ultimately have "ginv ctx ops bufs (L - {p}) s'"
        using g 1 p o kept_ring_n [of U ctx s s'] by (auto simp: ginv_def kept_def)
      then show ?case using 1 by (auto simp: freed_def gi_def)
    qed
  next
    case False
    then have "buf_idx r = DO_NOT_FREE" using i by (simp add: DO_NOT_FREE_def)
    then have x: "io_op_free U ctx p s = Inr (p, s)" using n r False by (simp add: io_op_free_def exec_simps)
    have "ginv ctx ops bufs (L - {p}) s" by (rule g_release [OF g p r(1)]) (use False in auto)
    with r show ?thesis
      by (intro wp_InrI [where m = "io_op_free U ctx p", OF x]) (auto simp: freed_def gi_def)
  qed
qed

text \<open>On an error path a live operation is released whatever state it is in.\<close>

definition released :: "'k liburing \<Rightarrow> ptr \<Rightarrow> ptr list \<Rightarrow> ptr \<Rightarrow> ('k, 'z) uring_state_scheme \<Rightarrow>
    ('k, 'z) uring_state_scheme \<Rightarrow> bool" where
  "released U ctx ops p s s' \<longleftrightarrow> kept U ctx s s' \<and> (\<forall>q. q \<noteq> p \<longrightarrow> op_heap s' q = op_heap s q) \<and>
     (\<exists>ops' bufs'. uinv ctx ops' bufs' s' \<and> set ops' \<subseteq> insert p (set ops))"

lemma u_free:
  assumes u: "uinv ctx ops bufs s" and r: "op_heap s p = Some r" "p \<notin> set ops"
  shows "wp (io_op_free U ctx p) (\<lambda>_. released U ctx ops p s) s"
proof -
  have n: "p \<noteq> NULL" by (rule uinv_live_nonnull [OF u r(1)])
  have keep: "released U ctx ops p s s'" if "uinv ctx ops bufs' s'" "kept U ctx s s'" "\<forall>q. q \<noteq> p \<longrightarrow> op_heap s' q = op_heap s q"
    for bufs' s' using that by (auto simp: released_def)
  have push: "released U ctx ops p s s'" if "uinv ctx (p # ops) bufs' s'" "kept U ctx s s'" "\<forall>q. q \<noteq> p \<longrightarrow> op_heap s' q = op_heap s q"
    for bufs' s' using that by (fastforce simp: released_def)
  consider (multi) "is_multi r" "0 \<le> buf_idx r" | (armed) "is_multi r" "buf_idx r = DO_NOT_FREE"
    | (spent) "is_multi r" "\<not> 0 \<le> buf_idx r" "buf_idx r \<noteq> DO_NOT_FREE"
    | (buf) "\<not> is_multi r" "op_buf_addr r \<noteq> NULL" | (ring) "\<not> is_multi r" "0 \<le> buf_idx r"
    | (bare) "\<not> is_multi r" "holds_nothing r"
    unfolding holds_nothing_def by linarith
  then show ?thesis
  proof cases
    case multi
    show ?thesis by (rule wp_conseq [OF io_op_free_multi [OF u r multi]]) (auto intro: keep)
  next
    case armed
    then show ?thesis using n r u by (auto simp: io_op_free_def wp_simps DO_NOT_FREE_def intro: keep)
  next
    case spent
    have "wp (iouring_put_io_op ctx p) (\<lambda>_. released U ctx ops p s) s"
      by (rule wp_conseq [OF uinv_put_io_op [OF u r]]) (auto intro!: push intro: same_env_kept)
    then show ?thesis using spent n r by (simp add: io_op_free_def wp_simps)
  next
    case buf
    show ?thesis by (rule wp_conseq [OF io_op_free_single_buf [OF u r buf(1) refl buf(2)]])
      (auto intro!: push intro: same_env_kept)
  next
    case ring
    show ?thesis by (rule wp_conseq [OF io_op_free_single_ring [OF u r ring]]) (auto intro: push)
  next
    case bare
    show ?thesis by (rule wp_conseq [OF io_op_free_single_bare [OF u r bare]]) (auto intro!: push intro: same_env_kept)
  qed
qed

text \<open>
  Transfer: a new operation takes over the buffer of a received one. The bytes stay where they
  are; the received operation is left without a buffer.
\<close>

definition transferred :: "'k liburing \<Rightarrow> ptr \<Rightarrow> ptr set \<Rightarrow> ptr \<Rightarrow> ('k, 'z) uring_state_scheme \<Rightarrow> ptr \<Rightarrow>
    io_op \<Rightarrow> io_op \<Rightarrow> ('k, 'z) uring_state_scheme \<Rightarrow> bool" where
  "transferred U ctx L q s p r r2 s' \<longleftrightarrow> kept U ctx s s' \<and> trace s' = trace s \<and> kw s' = kw s \<and>
     (if p = NULL then s' = s
      else p \<notin> L \<and> p \<notin> set (outstanding (trace s)) \<and> gi ctx (insert p L) s' \<and>
        op_heap s' = (op_heap s)(p \<mapsto> r, q \<mapsto> r2) \<and> buf_heap s' = buf_heap s)"

lemma transferred_none:
  assumes "uinv ctx [] bufs s"
  shows "wp (io_op_alloc_buf ctx typ fd False q) (\<lambda>p s'. transferred U ctx L q s p r r2 s') s"
  by (rule wp_InrI [where m = "io_op_alloc_buf ctx typ fd False q", OF io_op_alloc_none [OF assms]])
    (simp add: transferred_def)

lemma g_transfer:
  assumes g: "gi ctx L s" and q: "q \<in> L" "q \<notin> set (outstanding (trace s))" "op_heap s q = Some o'"
    and m: "\<not> is_multi o'" and b: "op_buf_addr o' = b" "b \<noteq> NULL"
  shows "wp (io_op_alloc_buf ctx typ fd False q) (\<lambda>p s'. transferred U ctx L q s p
    ((new_op typ fd b)\<lparr>data_len := data_len o'\<rparr>) (o'\<lparr>op_buf_addr := NULL\<rparr>) s') s"
proof -
  obtain ops0 bufs where g: "ginv ctx ops0 bufs L s" using g by (auto simp: gi_def)
  show ?thesis
  proof (cases ops0)
    case Nil
    then show ?thesis using ginvD(1) [OF g] by (auto intro: transferred_none)
  next
    case (Cons p ops)
    note g = g [unfolded Cons] and u = ginvD(1) [OF g]
    note hd = ginv_head [OF g]
    have qn: "q \<notin> set (p # ops)" using ginvD(5) [OF g] q(1) by auto
    show ?thesis
    proof (rule wp_conseq [OF io_op_alloc_transfer [OF u q(3) qn m b]], goal_cases)
      case (1 x s')
      let ?rp = "(new_op typ fd b)\<lparr>data_len := data_len o'\<rparr>" and ?rq = "o'\<lparr>op_buf_addr := NULL\<rparr>"
      have e: "same_env s s'" and h: "op_heap s' = (op_heap s)(p \<mapsto> ?rp, q \<mapsto> ?rq)" using 1 by auto
      have "linked ops (s\<lparr>op_heap := (op_heap s)(p \<mapsto> ?rp)\<rparr>)"
        by (rule linked_other [OF ginvD(2) [OF g] _ hd(2)]) auto
      then have lk: "linked ops s'"
        by (rule linked_other [of _ _ _ q]) (use q e h in \<open>auto simp: same_env_def\<close>)
      have i: "idle ops (insert p L) (op_heap s')" using ginvD(7) [OF g] q(1) by (auto simp: idle_def h)
      have "lossless ops bufs (ring_n ctx s) ((op_heap s)(p \<mapsto> new_multi_op typ fd)) (dom (buf_heap s)) (provided (trace s))"
        by (rule lossless_pop_bare [OF ginvD(6) [OF g] hd(3)])
      from lossless_two [OF this, of p "new_multi_op typ fd" q o' ?rp ?rq] q(3) qn hd(3) b live_buf(4) [OF u q(3) qn]
        uinv_no_null [OF u]
      have "lossless ops bufs (ring_n ctx s) (op_heap s') (dom (buf_heap s)) (provided (trace s))"
        by (auto simp: h new_multi_op_def new_op_def zero_op_def)
      then have "ginv ctx ops bufs (insert p L) s'" using 1 by (intro ginv_pop [OF g _ e lk i]) auto
      then show ?case using 1 e hd same_env_kept [OF e] by (auto simp: transferred_def gi_def same_env_def)
    qed
  qed
qed

lemma g_transfer_ring:
  assumes g: "gi ctx L s" and q: "q \<in> L" "op_heap s q = Some o'" and m: "is_multi o'"
  shows "wp (io_op_alloc_buf ctx typ fd False q) (\<lambda>p s'. transferred U ctx L q s p
    (zero_op\<lparr>op_type := typ, op_fd := fd, buf_idx := buf_idx o', op_buffer := op_buffer o', data_len := data_len o'\<rparr>)
    (o'\<lparr>buf_idx := DO_NOT_FREE\<rparr>) s') s"
proof -
  obtain ops0 bufs where g: "ginv ctx ops0 bufs L s" using g by (auto simp: gi_def)
  show ?thesis
  proof (cases ops0)
    case Nil
    then show ?thesis using ginvD(1) [OF g] by (auto intro: transferred_none)
  next
    case (Cons p ops)
    note g = g [unfolded Cons] and u = ginvD(1) [OF g]
    note hd = ginv_head [OF g]
    have qn: "q \<notin> set (p # ops)" using ginvD(5) [OF g] q(1) by auto
    show ?thesis
    proof (rule wp_conseq [OF io_op_alloc_transfer_ring [OF u q(2) qn m]], goal_cases)
      case (1 x s')
      let ?rp = "zero_op\<lparr>op_type := typ, op_fd := fd, buf_idx := buf_idx o', op_buffer := op_buffer o', data_len := data_len o'\<rparr>"
        and ?rq = "o'\<lparr>buf_idx := DO_NOT_FREE\<rparr>"
      have e: "same_env s s'" and h: "op_heap s' = (op_heap s)(p \<mapsto> ?rp, q \<mapsto> ?rq)" using 1 by auto
      have "linked ops (s\<lparr>op_heap := (op_heap s)(p \<mapsto> ?rp)\<rparr>)"
        by (rule linked_other [OF ginvD(2) [OF g] _ hd(2)]) auto
      then have lk: "linked ops s'"
        by (rule linked_multi [where q = q and r = o' and r' = ?rq]) (use q e h qn m in \<open>simp_all add: same_env_def\<close>)
      have i: "idle ops (insert p L) (op_heap s')" using ginvD(7) [OF g] q(1) by (auto simp: idle_def h)
      have "lossless ops bufs (ring_n ctx s) ((op_heap s)(p \<mapsto> new_multi_op typ fd)) (dom (buf_heap s)) (provided (trace s))"
        by (rule lossless_pop_bare [OF ginvD(6) [OF g] hd(3)])
      from lossless_two [OF this, of p "new_multi_op typ fd" q o' ?rp ?rq] q(2) qn hd(3)
        uinv_no_null [OF u]
      have "lossless ops bufs (ring_n ctx s) (op_heap s') (dom (buf_heap s)) (provided (trace s))"
        by (auto simp: h new_multi_op_def new_op_def zero_op_def)
      then have "ginv ctx ops bufs (insert p L) s'" using 1 by (intro ginv_pop [OF g _ e lk i]) auto
      then show ?case using 1 e hd same_env_kept [OF e] by (auto simp: transferred_def gi_def same_env_def)
    qed
  qed
qed

section \<open>Submissions on the ledger\<close>

lemma live_free:
  assumes "live ctx L s" and "p \<in> L"
  shows "wp (io_op_free U ctx p) (\<lambda>_ s'. live ctx (L - {p}) s' \<and> kept U ctx s s' \<and> (\<forall>q. q \<noteq> p \<longrightarrow> op_heap s' q = op_heap s q)) s"
proof -
  from assms obtain ops bufs where u: "uinv ctx ops bufs s" "L \<subseteq> dom (op_heap s) - set ops" by (auto simp: live_def)
  with assms(2) obtain r where "op_heap s p = Some r" "p \<notin> set ops" by auto
  from u_free [OF u(1) this] show ?thesis
    by (rule wp_conseq) (use u(2) in \<open>fastforce simp: released_def live_def kept_def\<close>)
qed

text \<open>
  The operation \<open>p\<close> has been sent off (0): the kernel has it and the program no longer does; or the
  submission has failed (-1) and \<open>p\<close> is still the program's to release.
\<close>

definition sent :: "'k liburing \<Rightarrow> ptr \<Rightarrow> ptr set \<Rightarrow> ptr \<Rightarrow> ('k, 'z) uring_state_scheme \<Rightarrow> int \<Rightarrow>
    ('k, 'z) uring_state_scheme \<Rightarrow> bool" where
  "sent U ctx L p s rc s' \<longleftrightarrow> kept U ctx s s' \<and> (\<forall>q. q \<noteq> p \<longrightarrow> op_heap s' q = op_heap s q) \<and>
     (rc = 0 \<and> gi ctx L s' \<and> outstanding (trace s') = p # outstanding (trace s) \<or>
      rc = -1 \<and> live ctx (insert p L) s')"

lemma submitted_sent:
  assumes g: "ginv ctx ops bufs (insert p L) s" and p: "p \<notin> L" "p \<notin> set (outstanding (trace s))" "p \<notin> set ops"
    and r: "op_heap s p = Some r" "is_multi r \<longrightarrow> buf_idx r < 0" and sub: "submitted U ctx ops bufs p s rc s'"
  shows "sent U ctx L p s rc s'"
proof -
  from sub obtain r' where s': "uinv ctx ops bufs s'" "kept U ctx s s'" "op_heap s' p = Some r'" "same_holding r r'"
    "\<forall>q. q \<noteq> p \<longrightarrow> op_heap s' q = op_heap s q" "rc = 0 \<or> rc = -1" using r by (auto simp: submitted_def)
  show ?thesis
  proof (cases "rc = 0")
    case True
    note g1 = g_submitted [OF g insertI1 p(2) sub [unfolded True]]
    have "ginv ctx ops bufs (insert p L - {p}) s'"
      by (rule g_release [OF g1(1) _ s'(3)]) (use g1(2) r s'(4) in \<open>auto simp: same_holding_def\<close>)
    then show ?thesis using True g1(2) s'(2,5) p(1) by (auto simp: sent_def gi_def)
  next
    case False
    moreover have "insert p L \<subseteq> dom (op_heap s') - set ops" using s'(2) g by (auto simp: kept_def ginv_def)
    ultimately show ?thesis using s' by (auto simp: sent_def live_def)
  qed
qed

lemma ginv_local:
  assumes "ginv ctx ops bufs L s" and "p \<in> L"
  shows "p \<notin> set ops" and "\<exists>r. op_heap s p = Some r"
  using assms by (auto simp: ginv_def)

text \<open>The four single-shot submissions.\<close>

lemma sent_tun_read:
  assumes g: "gi ctx (insert p L) s" and p: "p \<notin> L" "p \<notin> set (outstanding (trace s))" and r: "op_heap s p = Some r"
    and b: "op_buf_addr r \<noteq> NULL" and t: "op_type r = OP_TYPE_TUN_READ"
  shows "wp (iouring_submit_tun_read U ctx p) (sent U ctx L p s) s"
proof -
  obtain ops bufs where g: "ginv ctx ops bufs (insert p L) s" using g by (auto simp: gi_def)
  note pn = ginv_local(1) [OF g insertI1]
  show ?thesis
    by (rule wp_conseq [OF submit_tun_read_ok [OF ginvD(1) [OF g] r pn t b]])
      (use submitted_sent [OF g p pn r] live_buf(5) [OF ginvD(1) [OF g] r pn b] in simp)
qed

lemma sent_udp_recv:
  assumes g: "gi ctx (insert p L) s" and p: "p \<notin> L" "p \<notin> set (outstanding (trace s))" and r: "op_heap s p = Some r"
    and b: "op_buf_addr r \<noteq> NULL" and t: "op_type r = OP_TYPE_UDP_RECV"
  shows "wp (iouring_submit_udp_recv U ctx p) (sent U ctx L p s) s"
proof -
  obtain ops bufs where g: "ginv ctx ops bufs (insert p L) s" using g by (auto simp: gi_def)
  note pn = ginv_local(1) [OF g insertI1]
  show ?thesis
    by (rule wp_conseq [OF submit_udp_recv_ok [OF ginvD(1) [OF g] r pn t b]])
      (use submitted_sent [OF g p pn r] live_buf(5) [OF ginvD(1) [OF g] r pn b] in simp)
qed

lemma sent_tun_write:
  assumes g: "gi ctx (insert p L) s" and p: "p \<notin> L" "p \<notin> set (outstanding (trace s))" and r: "op_heap s p = Some r"
    and t: "op_type r = OP_TYPE_TUN_WRITE" "\<not> is_multi r" and i: "in_place data r len \<or> len \<le> 0 \<or> int BUF_SIZE < len"
  shows "wp (iouring_submit_tun_write U ctx p data len) (sent U ctx L p s) s"
proof -
  obtain ops bufs where g: "ginv ctx ops bufs (insert p L) s" using g by (auto simp: gi_def)
  note pn = ginv_local(1) [OF g insertI1]
  show ?thesis
    by (rule wp_conseq [OF submit_tun_write_ok [OF ginvD(1) [OF g] r pn t i]])
      (use submitted_sent [OF g p pn r] t in simp)
qed

lemma sent_udp_send:
  assumes g: "gi ctx (insert p L) s" and p: "p \<notin> L" "p \<notin> set (outstanding (trace s))" and r: "op_heap s p = Some r"
    and b: "op_buf_addr r \<noteq> NULL" and t: "op_type r = OP_TYPE_UDP_SEND" and i: "in_place data r len \<or> len \<le> 0 \<or> int BUF_SIZE < len"
    and a: "adr_len \<le> length adr" "adr_len \<le> SOCKADDR_STORAGE"
  shows "wp (iouring_submit_udp_send U ctx p (Some adr) adr_len data len) (sent U ctx L p s) s"
proof -
  obtain ops bufs where g: "ginv ctx ops bufs (insert p L) s" using g by (auto simp: gi_def)
  note pn = ginv_local(1) [OF g insertI1]
  show ?thesis
    by (rule wp_conseq [OF submit_udp_send_ok [OF ginvD(1) [OF g] r pn t b i a]])
      (use submitted_sent [OF g p pn r] live_buf(5) [OF ginvD(1) [OF g] r pn b] in simp)
qed

end
