(* ===== verification/Uring_Setup.thy ===== *)
theory Uring_Setup
  imports Uring_Ledger
begin

text \<open>
  Start and end of the io-uring component: \<^verbatim>\<open>iouring_init\<close> builds the two pools and hands every
  ring buffer to the ring, so that the ledger holds with nothing in the program's hands;
  \<^verbatim>\<open>iouring_cleanup\<close> frees every pooled object and the context; the first receives put
  operations in flight.
\<close>

section \<open>Setup\<close>

text \<open>The state before the context exists.\<close>

definition fresh_state :: "('k, 'z) uring_state_scheme \<Rightarrow> bool" where
  "fresh_state s \<longleftrightarrow> next_addr s \<noteq> NULL \<and> ctx_heap s = Map.empty \<and> op_heap s = Map.empty \<and> buf_heap s = Map.empty \<and>
     inflight (trace s) = [] \<and> provided (trace s) = [] \<and> ring_addrs (trace s)"

lemma br_add_loop_ok:
  "wp (br_add_loop U i n) (\<lambda>_ s'. ctx_heap s' = ctx_heap s \<and> op_heap s' = op_heap s \<and> buf_heap s' = buf_heap s \<and>
     next_addr s' = next_addr s \<and> uring_state.more s' = uring_state.more s \<and>
     provided (trace s') = rev [i..<i + n] @ provided (trace s) \<and> inflight (trace s') = inflight (trace s) \<and>
     (ring_addrs (trace s) \<longrightarrow> ring_addrs (trace s'))) s"
proof (induction n arbitrary: i s)
  case 0
  then show ?case by (simp add: wp_simps)
next
  case (Suc n)
  let ?s = "s\<lparr>kw := buf_ring_add U i (i * BUF_SIZE) i (kw s), trace := Ev_br_add i (i * BUF_SIZE) i # trace s\<rparr>"
  have "rev [i..<i + Suc n] = rev [Suc i..<Suc i + n] @ [i]" by (simp add: upt_rec)
  then show ?case
    using Suc.IH [of "Suc i" ?s] by (auto simp: wp_simps uring_br_add_def elim!: wp_conseq)
qed

text \<open>With all operations and buffers in the pools and all ring buffers provided, nothing is missing.\<close>

lemma ginv_initial:
  assumes "ctx \<noteq> NULL" and "ctx_heap s ctx = Some c" and "ring_ok c"
    and "chain (op_nx s) (io_op_pool c) ops" and "chain (buf_nx s) (buf_addr_pool c) bufs"
    and "dom (op_heap s) = set ops" and "dom (buf_heap s) = set bufs" and "buf_sizes (buf_heap s)"
    and "provided (trace s) = rev [0..<nat (br_n_bufs (config c))]" and "inflight (trace s) = []" and "ring_addrs (trace s)"
  shows "ginv ctx ops bufs {} s"
proof -
  have n: "NULL \<notin> set ops" "NULL \<notin> set bufs" using assms(4,5) by (auto dest: chain_nonnull)
  have "own ops bufs m (op_heap s) (buf_heap s) (rev [0..<m])" for m
    using assms(6) by (auto simp: own_def)
  then have "uinv ctx ops bufs s"
    using assms n by (auto simp: uinv_def)
  then show ?thesis
    using assms by (auto simp: ginv_def linked_def outstanding_def lossless_def idle_def ring_n_def)
qed

lemma alloc_multishot_ok:
  assumes "ctx \<noteq> NULL" and "ctx_heap s ctx = Some c"
  shows "wp (iouring_alloc_multishot_buffers P U ctx) (\<lambda>rc s'. rc = 0 \<longrightarrow>
    ctx_heap s' = (ctx_heap s)(ctx \<mapsto> c\<lparr>br_bufs := Some (replicate (BUF_SIZE * nat (br_n_bufs (config c))) 0), br := True\<rparr>) \<and>
    op_heap s' = op_heap s \<and> buf_heap s' = buf_heap s \<and> next_addr s' = next_addr s \<and>
    uring_state.more s' = uring_state.more s \<and>
    provided (trace s') = rev [0..<nat (br_n_bufs (config c))] @ provided (trace s) \<and>
    inflight (trace s') = inflight (trace s) \<and> (ring_addrs (trace s) \<longrightarrow> ring_addrs (trace s'))) s"
  using assms
  by (auto simp: iouring_alloc_multishot_buffers_def wp_simps uring_br_advance_def Let_def split: prod.splits
    intro!: wp_conseq [OF br_add_loop_ok])

text \<open>What \<^verbatim>\<open>iouring_alloc_buffers\<close> leaves behind when it succeeds.\<close>

definition buffers_ready :: "ptr \<Rightarrow> iouring_config \<Rightarrow> ptr \<Rightarrow> nat \<Rightarrow> 'z \<Rightarrow> ('k, 'z) uring_state_scheme \<Rightarrow> bool" where
  "buffers_ready ctx cf a n z s \<longleftrightarrow> ginv ctx [a..<a + n] [a + n..<a + n + n] {} s \<and>
     map_option config (ctx_heap s ctx) = Some cf \<and> dom (ctx_heap s) = {ctx} \<and> next_addr s = a + n + n \<and>
     uring_state.more s = z \<and> inflight (trace s) = [] \<and> provided (trace s) = rev [0..<nat (br_n_bufs cf)]"

text \<open>The three stages, last one first: the ring, the buffer pool, the operation pool.\<close>

lemma alloc_stage_ring:
  assumes ctx: "ctx \<noteq> NULL" "ctx_heap s = [ctx \<mapsto> c]" and "chain (op_nx s) (io_op_pool c) [a..<a + n]"
    and "dom (op_heap s) = {a..<a + n}" and "chain (buf_nx s) (buf_addr_pool c) [a + n..<a + n + n]"
    and "dom (buf_heap s) = {a + n..<a + n + n}" and "buf_sizes (buf_heap s)" and "next_addr s = a + n + n"
    and "provided (trace s) = []" and "inflight (trace s) = []" and "ring_addrs (trace s)"
  shows "wp (bnd (iouring_alloc_multishot_buffers P U ctx) (\<lambda>rc. if rc \<noteq> 0 then ret (-1) else ret 0))
    (\<lambda>rc s'. rc = (0 :: int) \<longrightarrow> buffers_ready ctx (config c) a n (uring_state.more s) s') s"
  unfolding wp_bnd
proof (rule wp_conseq [OF alloc_multishot_ok [OF ctx(1), of s c]], goal_cases)
  case (2 rc s3)
  show ?case
  proof (cases "rc = 0")
    case True
    with 2 ctx have h: "ctx_heap s3 ctx = Some (c\<lparr>br_bufs := Some (replicate (BUF_SIZE * nat (br_n_bufs (config c))) 0), br := True\<rparr>)"
      by simp
    have "ginv ctx [a..<a + n] [a + n..<a + n + n] {} s3"
      by (rule ginv_initial [OF ctx(1) h]) (use 2 True assms in \<open>simp_all add: ring_ok_def nx_comp\<close>)
    then show ?thesis using True 2 assms by (simp add: wp_simps buffers_ready_def)
  qed (simp add: wp_simps)
qed (simp add: ctx)

lemma alloc_stage_bufs:
  assumes ctx: "ctx \<noteq> NULL" "ctx_heap s = [ctx \<mapsto> c]" "buf_addr_pool c = NULL"
    and ops: "chain (op_nx s) (io_op_pool c) [a..<a + n]" "dom (op_heap s) = {a..<a + n}"
    and f: "buf_heap s = Map.empty" "next_addr s = a + n" "a \<noteq> NULL" "provided (trace s) = []"
      "inflight (trace s) = []" "ring_addrs (trace s)" and n: "n = nat (n_io_ops (config c))"
  shows "wp (bnd (iouring_alloc_buf_addr_pool P ctx (n_io_ops (config c))) (\<lambda>rc. if rc \<noteq> 0 then ret (-1) else
      bnd (iouring_alloc_multishot_buffers P U ctx) (\<lambda>rc. if rc \<noteq> 0 then ret (-1) else ret 0)))
    (\<lambda>rc s'. rc = (0 :: int) \<longrightarrow> buffers_ready ctx (config c) a n (uring_state.more s) s') s"
proof -
  have c: "c\<lparr>buf_addr_pool := NULL\<rparr> = c" using ctx(3) by (cases c) simp
  have "buf_building ctx c Map.empty (op_heap s) (trace s) (uring_state.more s) s" "buf_head ctx s = NULL"
    using ctx f(1) by (auto simp: buf_building_def buf_head_def c intro!: exI [of _ NULL])
  note bufs = buf_builder.build_pool [OF this f(2), where n = n and P = P]
  show ?thesis
    unfolding iouring_alloc_buf_addr_pool_def n [symmetric]
  proof (rule wp_bndI [OF bufs], goal_cases)
    case (2 rc s2)
    then have b: "buf_building ctx c Map.empty (op_heap s) (trace s) (uring_state.more s) s2" by blast
    then obtain q where q: "ctx_heap s2 = [ctx \<mapsto> c\<lparr>buf_addr_pool := q\<rparr>]" by (auto simp: buf_building_def)
    have d: "dom (buf_nx s) = {}" "dom (buf_nx s2) = dom (buf_heap s2)" using f(1) by (auto simp: buf_nx_def)
    show ?case
    proof (cases "rc = 0")
      case True
      then have ch: "chain (buf_nx s2) (buf_head ctx s2) [a + n..<a + n + n]" "next_addr s2 = a + n + n"
        "dom (buf_heap s2) = {a + n..<a + n + n}" using 2 d by auto
      show ?thesis
        using alloc_stage_ring [OF ctx(1) q, of a n P U] True b ch q ops f d
        by (simp add: buf_building_def buf_sizes_def buf_head_def nx_comp)
    qed (simp add: wp_simps)
  qed (use f in simp)
qed

lemma alloc_buffers_ok:
  assumes ctx: "ctx \<noteq> NULL" "ctx_heap s = [ctx \<mapsto> c]" "io_op_pool c = NULL" "buf_addr_pool c = NULL"
    and f: "op_heap s = Map.empty" "buf_heap s = Map.empty" "next_addr s = a" "a \<noteq> NULL" "provided (trace s) = []"
      "inflight (trace s) = []" "ring_addrs (trace s)" and n: "n = nat (n_io_ops (config c))"
  shows "wp (iouring_alloc_buffers P U ctx)
    (\<lambda>rc s'. rc = (0 :: int) \<longrightarrow> buffers_ready ctx (config c) a n (uring_state.more s) s') s"
proof -
  have c: "c\<lparr>io_op_pool := NULL\<rparr> = c" using ctx(3) by (cases c) simp
  have "op_building ctx c Map.empty (buf_heap s) (trace s) (uring_state.more s) s" "op_head ctx s = NULL"
    using ctx by (auto simp: op_building_def op_head_def c intro!: exI [of _ NULL])
  note ops = op_builder.build_pool [OF this f(3,4), where n = n and P = P]
  have "wp (bnd (iouring_alloc_io_op_pool P ctx (n_io_ops (config c))) (\<lambda>rc. if rc \<noteq> 0 then ret (-1) else
      bnd (iouring_alloc_buf_addr_pool P ctx (n_io_ops (config c))) (\<lambda>rc. if rc \<noteq> 0 then ret (-1) else
      bnd (iouring_alloc_multishot_buffers P U ctx) (\<lambda>rc. if rc \<noteq> 0 then ret (-1) else ret 0))))
    (\<lambda>rc s'. rc = (0 :: int) \<longrightarrow> buffers_ready ctx (config c) a n (uring_state.more s) s') s"
    unfolding iouring_alloc_io_op_pool_def
  proof (rule wp_bndI [OF ops [unfolded n]], goal_cases)
    case (1 rc s1)
    then have b: "op_building ctx c Map.empty (buf_heap s) (trace s) (uring_state.more s) s1" by blast
    then obtain q where q: "ctx_heap s1 = [ctx \<mapsto> c\<lparr>io_op_pool := q\<rparr>]" by (auto simp: op_building_def)
    have d: "dom (op_nx s) = {}" "dom (op_nx s1) = dom (op_heap s1)" using f(1) by (auto simp: op_nx_def)
    show ?case
    proof (cases "rc = 0")
      case True
      then have ch: "chain (op_nx s1) (op_head ctx s1) [a..<a + n]" "next_addr s1 = a + n"
        "dom (op_heap s1) = {a..<a + n}" using 1 d n by auto
      show ?thesis
        using alloc_stage_bufs [OF ctx(1) q, of a n P U] True b ch q ctx(4) f n
        by (simp add: op_building_def op_head_def)
    qed (simp add: wp_simps)
  qed
  then show ?thesis
    using ctx by (simp add: iouring_alloc_buffers_def wp_simps USE_MULTI_RECV_def)
qed

lemma iouring_init_ready:
  assumes "fresh_state s" and "a = Suc (next_addr s)" and "n = nat (n_io_ops c)"
  shows "wp (iouring_init P U c) (\<lambda>ctx s'. ctx = NULL \<or>
    ctx = next_addr s \<and> buffers_ready ctx c a n (uring_state.more s) s') s"
proof -
  let ?c = "\<lparr>config = c, io_op_pool = NULL, buf_addr_pool = NULL, br_bufs = None, br = False, multi_recv_rearmed = 0\<rparr>"
  let ?s = "\<lambda>k. s\<lparr>next_addr := a, ctx_heap := [next_addr s \<mapsto> ?c], kw := k\<rparr>"
  have "wp (iouring_alloc_buffers P U (next_addr s))
      (\<lambda>rc s'. rc = (0 :: int) \<longrightarrow> buffers_ready (next_addr s) (config ?c) a n (uring_state.more (?s k)) s') (?s k)" for k
    by (rule alloc_buffers_ok) (use assms in \<open>simp_all add: fresh_state_def\<close>)
  note ab = this [THEN wp_conseq]
  show ?thesis
    using assms ab by (auto simp: iouring_init_def wp_simps fresh_state_def free_ctx_def split: prod.splits)
qed

section \<open>Cleanup\<close>

text \<open>The addresses of operations and buffers have been handed out by the allocator.\<close>

definition heap_bounded :: "('k, 'z) uring_state_scheme \<Rightarrow> bool" where
  "heap_bounded s \<longleftrightarrow> (\<forall>p \<in> dom (op_heap s) \<union> dom (buf_heap s). p < next_addr s)"

lemma ready_bounded: "buffers_ready ctx c a n z s \<Longrightarrow> ctx < a \<Longrightarrow> heap_bounded s"
proof -
  assume r: "buffers_ready ctx c a n z s" and "ctx < a"
  then have d: "dom (op_heap s) = {a..<a + n}" by (auto simp: buffers_ready_def ginv_def outstanding_def)
  have "lossless [a..<a + n] [a + n..<a + n + n] (ring_n ctx s) (op_heap s) (dom (buf_heap s)) (provided (trace s))"
    using r by (auto simp: buffers_ready_def ginv_def)
  moreover have "p \<in> set [a..<a + n]" if "op_heap s p = Some x" for p x using d that by auto
  ultimately have "b \<in> set [a + n..<a + n + n]" if "b \<in> dom (buf_heap s)" for b
    using that unfolding lossless_def by blast
  then have "dom (buf_heap s) \<subseteq> {a + n..<a + n + n}" by (intro subsetI) simp
  with d r \<open>ctx < a\<close> show "heap_bounded s" by (auto simp: buffers_ready_def heap_bounded_def)
qed

lemma free_io_op_pool_ok:
  assumes "ctx \<noteq> NULL" and "ctx_heap s ctx = Some c" and ch: "chain (op_nx s) (io_op_pool c) ops" and b: "heap_bounded s"
  shows "wp (iouring_free_io_op_pool ctx) (\<lambda>_ s'. dom (op_heap s') = dom (op_heap s) - set ops \<and>
    ctx_heap s' = (ctx_heap s)(ctx \<mapsto> c\<lparr>io_op_pool := NULL\<rparr>) \<and> buf_heap s' = buf_heap s \<and>
    next_addr s' = next_addr s \<and> uring_state.more s' = uring_state.more s) s"
proof -
  have "length ops \<le> next_addr s"
    by (rule chain_length_bound [OF ch]) (use b in \<open>auto simp: heap_bounded_def op_nx_def\<close>)
  note d = op_destroyer.destroy_chain [OF ch this]
  have "wp (bnd (iouring_free_io_op_pool_loop (next_addr s) (io_op_pool c)) (\<lambda>_. upd_ctx ctx (\<lambda>c. c\<lparr>io_op_pool := NULL\<rparr>)))
    (\<lambda>_ s'. dom (op_heap s') = dom (op_heap s) - set ops \<and>
    ctx_heap s' = (ctx_heap s)(ctx \<mapsto> c\<lparr>io_op_pool := NULL\<rparr>) \<and> buf_heap s' = buf_heap s \<and>
    next_addr s' = next_addr s \<and> uring_state.more s' = uring_state.more s) s"
  proof (rule wp_bndI [OF d], goal_cases)
    case (1 _ s1)
    then have "dom (op_nx s1) = dom (op_nx s) - set ops" by auto
    then have "dom (op_heap s1) = dom (op_heap s) - set ops" by (simp add: op_nx_def dom_def)
    then show ?case using 1 assms(1,2) by (simp add: wp_simps op_rest_def)
  qed
  then show ?thesis using assms(1,2) by (simp add: iouring_free_io_op_pool_def wp_simps)
qed

lemma free_buf_addr_pool_ok:
  assumes "ctx \<noteq> NULL" and "ctx_heap s ctx = Some c" and ch: "chain (buf_nx s) (buf_addr_pool c) bufs" and b: "heap_bounded s"
  shows "wp (iouring_free_buf_addr_pool ctx) (\<lambda>_ s'. dom (buf_heap s') = dom (buf_heap s) - set bufs \<and>
    ctx_heap s' = (ctx_heap s)(ctx \<mapsto> c\<lparr>buf_addr_pool := NULL\<rparr>) \<and> op_heap s' = op_heap s \<and>
    next_addr s' = next_addr s \<and> uring_state.more s' = uring_state.more s) s"
proof -
  have "length bufs \<le> next_addr s"
    by (rule chain_length_bound [OF ch]) (use b in \<open>auto simp: heap_bounded_def buf_nx_def\<close>)
  note d = buf_destroyer.destroy_chain [OF ch this]
  have "wp (bnd (iouring_free_buf_addr_pool_loop (next_addr s) (buf_addr_pool c)) (\<lambda>_. upd_ctx ctx (\<lambda>c. c\<lparr>buf_addr_pool := NULL\<rparr>)))
    (\<lambda>_ s'. dom (buf_heap s') = dom (buf_heap s) - set bufs \<and>
    ctx_heap s' = (ctx_heap s)(ctx \<mapsto> c\<lparr>buf_addr_pool := NULL\<rparr>) \<and> op_heap s' = op_heap s \<and>
    next_addr s' = next_addr s \<and> uring_state.more s' = uring_state.more s) s"
  proof (rule wp_bndI [OF d], goal_cases)
    case (1 _ s1)
    then have "dom (buf_nx s1) = dom (buf_nx s) - set bufs" by auto
    then have "dom (buf_heap s1) = dom (buf_heap s) - set bufs" by (simp add: buf_nx_def dom_def)
    then show ?case using 1 assms(1,2) by (simp add: wp_simps buf_rest_def)
  qed
  then show ?thesis using assms(1,2) by (simp add: iouring_free_buf_addr_pool_def wp_simps)
qed

text \<open>
  Cleanup frees the context and every pooled object, and nothing else: what is still in flight
  or in use stays allocated.
\<close>

lemma cleanup_frees:
  assumes u: "uinv ctx ops bufs s" and b: "heap_bounded s"
  shows "wp (iouring_cleanup U ctx) (\<lambda>_ s'. dom (op_heap s') = dom (op_heap s) - set ops \<and>
    dom (buf_heap s') = dom (buf_heap s) - set bufs \<and> ctx_heap s' = (ctx_heap s)(ctx := None) \<and>
    uring_state.more s' = uring_state.more s) s"
  using u
proof (rule uinvE, goal_cases)
  case c: (1 c mem)
  let ?Q = "\<lambda>s'. dom (op_heap s') = dom (op_heap s) - set ops \<and> dom (buf_heap s') = dom (buf_heap s) - set bufs \<and>
    ctx_heap s' = (ctx_heap s)(ctx := None) \<and> uring_state.more s' = uring_state.more s"
  have "wp (iouring_free_buffers U ctx) (\<lambda>_ s'. (\<exists>x. ctx_heap s' = (ctx_heap s)(ctx \<mapsto> x)) \<and>
      dom (op_heap s') = dom (op_heap s) - set ops \<and> dom (buf_heap s') = dom (buf_heap s) - set bufs \<and>
      uring_state.more s' = uring_state.more s) s"
    unfolding iouring_free_buffers_def
  proof (rule wp_bndI [OF free_io_op_pool_ok [OF c(1,2,6) b]], goal_cases)
    case (1 _ s1)
    have x: "ctx_heap s1 ctx = Some (c\<lparr>io_op_pool := NULL\<rparr>)" using 1 by simp
    have ch: "chain (buf_nx s1) (buf_addr_pool (c\<lparr>io_op_pool := NULL\<rparr>)) bufs" using 1 c(7) by (simp add: buf_nx_def)
    have b1: "heap_bounded s1" using b 1 c(2) by (auto simp: heap_bounded_def split: if_splits)
    show ?case
    proof (rule wp_bndI [OF free_buf_addr_pool_ok [OF c(1) x ch b1]], goal_cases)
      case (1 _ s2)
      then show ?case using \<open>dom (op_heap s1) = _ \<and> _\<close> c(1)
        by (auto simp: wp_simps USE_MULTI_RECV_def split: prod.splits)
    qed
  qed
  then have "wp (bnd (iouring_free_buffers U ctx) (\<lambda>_. bnd (kdo (queue_exit U)) (\<lambda>_. bnd (log_ev Ev_queue_exit) (\<lambda>_. free_ctx ctx))))
      (\<lambda>_. ?Q) s"
    by (rule wp_bndI) (use c(1) in \<open>auto simp: wp_simps free_ctx_def\<close>)
  then show ?case using c(1) by (simp add: iouring_cleanup_def)
qed

section \<open>The first receives\<close>

text \<open>A multishot receive is armed with an operation of the pool.\<close>

lemma ginv_pop_multi:
  assumes g: "ginv ctx (p # ops) bufs L s" and u: "uinv ctx ops bufs s'" and e: "same_env s s'"
    and h: "op_heap s' = (op_heap s)(p \<mapsto> r)"
  shows "ginv ctx ops bufs (insert p L) s'"
proof (rule ginv_pop [OF g u e])
  show "linked ops s'"
    by (rule linked_other [OF ginvD(2) [OF g] _ ginv_head(2) [OF g]]) (use e h in \<open>auto simp: same_env_def\<close>)
  show "idle ops (insert p L) (op_heap s')" using ginvD(7) [OF g] by (auto simp: idle_def h)
  show "lossless ops bufs (ring_n ctx s) (op_heap s') (dom (buf_heap s)) (provided (trace s))"
    unfolding h by (rule lossless_pop_bare [OF ginvD(6) [OF g] ginv_head(3) [OF g]])
qed

lemma initial_udp_recvs_ok:
  assumes g: "gi ctx {} s"
  shows "wp (iouring_initial_udp_recvs U ctx fd) (\<lambda>rc s'. kept U ctx s s' \<and> (if rc = 0 then gi ctx {} s' else live ctx {} s')) s"
proof -
  obtain ops0 bufs where g: "ginv ctx ops0 bufs {} s" using g by (auto simp: gi_def)
  note u = ginvD(1) [OF g]
  have "wp (iouring_submit_multishot_recvmsg U ctx fd)
    (\<lambda>rc s'. kept U ctx s s' \<and> (if rc = 0 then gi ctx {} s' else live ctx {} s')) s"
  proof (cases ops0)
    case Nil
    then have "io_op_alloc ctx OP_TYPE_UDP_RECV fd True s = Inr (NULL, s)"
      using io_op_alloc_none [of ctx bufs s] u by (simp add: io_op_alloc_def)
    then show ?thesis using u Nil
      by (auto simp: wp_def iouring_submit_multishot_recvmsg_def exec_simps live_def)
  next
    case (Cons p ops)
    note g = g [unfolded Cons] and u = u [unfolded Cons]
    show ?thesis
      unfolding iouring_submit_multishot_recvmsg_def
    proof (rule wp_bndI [OF io_op_alloc_multi [OF u]], goal_cases)
      case (1 p' s1)
      let ?new = "new_multi_op OP_TYPE_UDP_RECV fd"
      let ?r = "?new\<lparr>op_msg := (op_msg ?new)\<lparr>msg_namelen := SOCKADDR_STORAGE\<rparr>\<rparr>"
      let ?s = "s1\<lparr>op_heap := (op_heap s1)(p \<mapsto> ?r)\<rparr>"
      have r1: "op_heap s1 p = Some ?new" "p \<notin> set ops" "uinv ctx ops bufs s1" and e1: "same_env s s1" using 1 by auto
      have u2: "uinv ctx ops bufs ?s" by (rule uinv_upd_op [OF r1(3,1,2)]) auto
      have e2: "same_env s ?s" using e1 r1 by (auto simp: same_env_def)
      have g2: "ginv ctx ops bufs {p} ?s" by (rule ginv_pop_multi [OF g u2 e2, of ?r]) (use 1 in simp)
      have p2: "p \<notin> set (outstanding (trace ?s))" using ginv_head(2) [OF g] e1 by (simp add: same_env_def)
      have "wp (iouring_submit_multishot_recvmsg_op U ctx p) (submitted U ctx ops bufs p ?s) ?s"
        by (rule wp_conseq [OF submit_multishot_ok [OF u2, of p ?r]]) (auto simp: new_multi_op_def)
      then have "wp (iouring_submit_multishot_recvmsg_op U ctx p)
        (\<lambda>rc s'. kept U ctx s s' \<and> (if rc = 0 then gi ctx {} s' else live ctx {} s')) ?s"
      proof (rule wp_conseq, goal_cases)
        case (1 rc s')
        have k: "kept U ctx s s'" using 1 same_env_kept [OF e2] by (auto simp: submitted_def intro: kept_trans)
        show ?case
        proof (cases "rc = 0")
          case True
          note g3 = g_submitted [OF g2 _ p2 1 [unfolded True]]
          from 1 obtain r' where r': "op_heap s' p = Some r'" "same_holding ?r r'" by (auto simp: submitted_def)
          have "ginv ctx ops bufs ({p} - {p}) s'"
            by (rule g_release [OF g3(1) _ r'(1)]) (use g3(2) r'(2) in \<open>auto simp: same_holding_def new_multi_op_def\<close>)
          then show ?thesis using True k by (auto simp: gi_def)
        next
          case False
          then show ?thesis using 1 k by (auto simp: submitted_def live_def)
        qed
      qed
      then show ?case using 1 by (simp add: wp_simps)
    qed
  qed
  then show ?thesis by (simp add: iouring_initial_udp_recvs_def USE_MULTI_RECV_def)
qed

text \<open>The loop of single-shot receives, for any submission function that sends off what it is given.\<close>

lemma initial_loop_ok:
  assumes sub: "\<And>p L s r. gi ctx (insert p L) s \<Longrightarrow> p \<notin> L \<Longrightarrow> p \<notin> set (outstanding (trace s)) \<Longrightarrow> op_heap s p = Some r \<Longrightarrow>
      op_buf_addr r \<noteq> NULL \<Longrightarrow> op_type r = typ \<Longrightarrow> wp (submit_op p) (sent U ctx L p s) s"
  shows "gi ctx {} s \<Longrightarrow> wp (initial_recvs_loop U ctx typ fd submit_op n)
    (\<lambda>rc s'. kept U ctx s s' \<and> (if rc = 0 then gi ctx {} s' else live ctx {} s')) s"
proof (induction n arbitrary: s)
  case 0
  then show ?case by (simp add: wp_simps)
next
  case (Suc n)
  let ?Q = "\<lambda>s rc s'. kept U ctx s s' \<and> (if rc = 0 then gi ctx {} s' else live ctx {} s')"
  have later: "wp (initial_recvs_loop U ctx typ fd submit_op n) (?Q s) s1" if "kept U ctx s s1" "gi ctx {} s1" for s1
    by (rule wp_conseq [OF Suc.IH [OF that(2)]]) (use that(1) in \<open>auto intro: kept_trans\<close>)
  show ?case
    unfolding initial_recvs_loop.simps
  proof (rule wp_bndI [OF g_alloc [OF Suc.prems, where U = U]], goal_cases)
    case (1 p s1)
    show ?case
    proof (cases "p = NULL")
      case True
      then show ?thesis using 1 later [of s1] by (simp add: allocated_def)
    next
      case False
      with 1 obtain b where b: "b \<noteq> NULL" "op_heap s1 p = Some (new_op typ fd b)" by (auto simp: allocated_def)
      have k1: "kept U ctx s s1" and g1: "gi ctx {p} s1" "p \<notin> set (outstanding (trace s1))"
        using 1 False by (auto simp: allocated_def)
      have "wp (submit_op p) (sent U ctx {} p s1) s1"
        by (rule sub [OF _ _ _ b(2)]) (use g1 b(1) in \<open>auto simp: new_op_def zero_op_def\<close>)
      then have "wp (bnd (submit_op p) (\<lambda>rc. if rc < 0 then bnd (io_op_free U ctx p) (\<lambda>_. ret 1)
          else initial_recvs_loop U ctx typ fd submit_op n)) (?Q s) s1"
      proof (rule wp_bndI, goal_cases)
        case (1 rc s2)
        then have k2: "kept U ctx s s2" using k1 by (auto simp: sent_def intro: kept_trans)
        show ?case
        proof (cases "rc < 0")
          case True
          then have "live ctx {p} s2" using 1 by (auto simp: sent_def)
          from live_free [OF this singletonI, of U] k2 True show ?thesis
            by (auto simp: wp_simps elim!: wp_conseq intro: kept_trans)
        next
          case False
          then show ?thesis using 1 later [OF k2] by (simp add: sent_def)
        qed
      qed
      then show ?thesis using False by simp
    qed
  qed
qed

lemma initial_tun_reads_ok:
  assumes g: "gi ctx {} s"
  shows "wp (iouring_initial_tun_reads U ctx fd) (\<lambda>rc s'. kept U ctx s s' \<and> (if rc = 0 then gi ctx {} s' else live ctx {} s')) s"
proof -
  obtain c where "ctx_heap s ctx = Some c" "ctx \<noteq> NULL" using gi_live [OF g] by (auto simp: live_def uinv_def)
  with initial_loop_ok [OF sent_tun_read g] show ?thesis
    by (simp add: iouring_initial_tun_reads_def USE_MULTI_READ_def wp_simps)
qed

end
