(* ===== verification/Packet_Recv.thy ===== *)
theory Packet_Recv
  imports Uring_Setup
begin

text \<open>
  \<^verbatim>\<open>wait_for_recv\<close> of \<^verbatim>\<open>src/packet_handler.c\<close>: take completions off the queue until a receive (a
  UDP datagram or a TUN packet) has arrived. Completed sends and writes are released on the
  way, a completed receive is replaced by a new one (or the multishot receive is re-armed)
  before it is returned. The loop may wait for ever, so it takes fuel: \<open>None\<close> means that it is
  still waiting after that many completions and timeouts.
\<close>

section \<open>The code\<close>

text \<open>
  The switch on the type of the completed operation \<open>op\<close>, whose record is \<open>r\<close>: \<open>None\<close> to go on
  waiting, \<open>Some p\<close> to return \<open>p\<close>. A receive that could not be replaced is released.
\<close>

definition dispatch_completion ::
  "'k liburing \<Rightarrow> ptr \<Rightarrow> ptr \<Rightarrow> io_op \<Rightarrow> 32 word \<Rightarrow> (('k, 'z) uring_state_scheme, ptr option) prog" where
  "dispatch_completion U ctx op r flags =
     (let finish = (\<lambda>rc. if rc < 0 then bnd (io_op_free U ctx op) (\<lambda>_. ret (Some NULL)) else ret (Some op)) in
      if op_type r = OP_TYPE_UDP_RECV then
        bnd (if is_multi r then iouring_multishot_recvmsg_out U ctx op flags
             else iouring_resubmit_recv U ctx op) finish
      else if op_type r = OP_TYPE_UDP_SEND then
        bnd (c_assert (\<not> is_multi r)) (\<lambda>_. bnd (io_op_free U ctx op) (\<lambda>_. ret None))
      else if op_type r = OP_TYPE_TUN_READ then
        bnd (if is_multi r then bnd (c_assert False) (\<lambda>_. iouring_multishot_read_out ctx op flags)
             else iouring_resubmit_recv U ctx op) finish
      else if op_type r = OP_TYPE_TUN_WRITE then
        bnd (c_assert (\<not> is_multi r)) (\<lambda>_. bnd (io_op_free U ctx op) (\<lambda>_. ret None))
      else finish (-1))"

text \<open>
  The body of the loop for one completion. The log line for a failed completion reads the
  operation before it is tested for NULL.
\<close>

definition handle_completion ::
  "'k liburing \<Rightarrow> ptr \<Rightarrow> ptr \<Rightarrow> int \<Rightarrow> 32 word \<Rightarrow> (('k, 'z) uring_state_scheme, ptr option) prog" where
  "handle_completion U ctx op res flags =
     (if res < 0 then bnd (load op_heap op) (\<lambda>_. ret (Some NULL))
      else if op = NULL then ret (Some NULL)
      else
        bnd (upd_op op (\<lambda>r. r\<lparr>data_len := res\<rparr>)) (\<lambda>_.
        bnd (load op_heap op) (\<lambda>r.
        dispatch_completion U ctx op r flags)))"

fun wait_for_recv :: "'k liburing \<Rightarrow> nat \<Rightarrow> ptr \<Rightarrow> (('k, 'z) uring_state_scheme, ptr option) prog" where
  "wait_for_recv U 0 ctx = ret None"
| "wait_for_recv U (Suc n) ctx =
     bnd (iouring_wait_cqe U ctx) (\<lambda>(wait_ret, cqe).
     if wait_ret < 0 then (if wait_ret = -ETIME then wait_for_recv U n ctx else ret (Some NULL))
     else
       bnd (iouring_cqe_seen U ctx cqe) (\<lambda>_.
       bnd (handle_completion U ctx (cqe_data cqe) (cqe_res cqe) (cqe_flags cqe)) (\<lambda>r.
       case r of None \<Rightarrow> wait_for_recv U n ctx | Some p \<Rightarrow> ret (Some p))))"

section \<open>What it relies on and what it returns\<close>

text \<open>
  The layout of a multishot buffer: a header of 16 bytes (\<^verbatim>\<open>struct io_uring_recvmsg_out\<close>), room
  for the name of the message header that armed the receive, the payload. When a completion
  validates, the payload lies inside the buffer; a peer address fits into a
  \<^verbatim>\<open>sockaddr_storage\<close>.
\<close>

definition RECVMSG_OUT_SIZE :: nat where
  "RECVMSG_OUT_SIZE = 16"

definition recvmsg_ok :: "'k liburing \<Rightarrow> bool" where
  "recvmsg_ok U \<longleftrightarrow> (\<forall>buf res m. length buf = BUF_SIZE \<and> 0 \<le> res \<and> res \<le> int BUF_SIZE \<and>
     msg_namelen m = SOCKADDR_STORAGE \<and> recvmsg_validate U buf res m \<longrightarrow>
     (\<forall>k. recvmsg_name U buf = Some k \<longrightarrow>
        recvmsg_namelen U buf \<le> SOCKADDR_STORAGE \<and> k = RECVMSG_OUT_SIZE) \<and>
     0 \<le> recvmsg_payload_length U buf res m \<and>
     (\<forall>k. recvmsg_payload U buf m = Some k \<longrightarrow>
        k = RECVMSG_OUT_SIZE + SOCKADDR_STORAGE \<and> int k + recvmsg_payload_length U buf res m \<le> int BUF_SIZE))"

text \<open>
  A received packet: its bytes (at least as many as an IPv6 header has) and, from the network, the
  sender's address are readable memory. A packet in a ring buffer is shorter than the buffer.
\<close>

definition packet_ok :: "ptr \<Rightarrow> io_op \<Rightarrow> ('k, 'z) uring_state_scheme \<Rightarrow> bool" where
  "packet_ok ctx r s \<longleftrightarrow> 0 \<le> data_len r \<and> data_len r \<le> int BUF_SIZE \<and> (is_multi r \<longrightarrow> data_len r < int BUF_SIZE) \<and>
     valid_mem ctx s (op_buffer r) (max 40 (nat (data_len r))) \<and>
     (op_type r = OP_TYPE_UDP_RECV \<longrightarrow> 0 < op_addr_len r \<and> op_addr_len r \<le> SOCKADDR_STORAGE \<and>
        valid_mem ctx s (op_addr r) SOCKADDR_STORAGE)"

text \<open>
  A completed receive in the hands of the caller: a single-shot operation with its own buffer,
  no longer known to the kernel; or the multishot operation, armed again, with a ring buffer.
\<close>

definition received :: "ptr \<Rightarrow> ptr \<Rightarrow> ('k, 'z) uring_state_scheme \<Rightarrow> bool" where
  "received ctx p s \<longleftrightarrow> gi ctx {p} s \<and> (\<exists>r. op_heap s p = Some r \<and> packet_ok ctx r s \<and>
     (\<not> is_multi r \<and> op_type r \<in> {OP_TYPE_TUN_READ, OP_TYPE_UDP_RECV} \<and> op_buf_addr r \<noteq> NULL \<and> p \<notin> set (outstanding (trace s)) \<or>
      is_multi r \<and> op_type r = OP_TYPE_UDP_RECV \<and> 0 \<le> buf_idx r \<and> 0 < data_len r \<and> p \<in> set (outstanding (trace s))))"

section \<open>Updates of an operation in the program's hands\<close>

text \<open>The fields a receive fills in.\<close>

definition same_slot :: "io_op \<Rightarrow> io_op \<Rightarrow> bool" where
  "same_slot r r' \<longleftrightarrow> is_multi r' = is_multi r \<and> op_type r' = op_type r \<and> op_fd r' = op_fd r \<and> op_msg r' = op_msg r \<and>
     op_buf_addr r' = op_buf_addr r \<and> buf_idx r' = buf_idx r"

lemma g_upd_local:
  assumes g: "ginv ctx ops bufs L s" and p: "p \<in> L" and r: "op_heap s p = Some r" and same: "same_slot r r'"
    and x: "is_multi r \<or> p \<notin> set (outstanding (trace s)) \<and> op_buffer r' = op_buffer r \<and> op_addr r' = op_addr r"
  shows "ginv ctx ops bufs L (s\<lparr>op_heap := (op_heap s)(p \<mapsto> r')\<rparr>)"
proof -
  let ?s = "s\<lparr>op_heap := (op_heap s)(p \<mapsto> r')\<rparr>"
  note u = ginvD(1) [OF g] and pn = ginv_local(1) [OF g p]
  have "op_buf_addr r \<noteq> NULL \<longrightarrow> \<not> is_multi r" using live_buf(5) [OF u r pn] by auto
  then have "uinv ctx ops bufs ?s"
    by (intro uinv_upd_op [OF u r pn]) (use same x in \<open>auto simp: same_slot_def\<close>)
  moreover have "linked ops ?s"
  proof (cases "is_multi r")
    case True
    show ?thesis by (rule linked_multi [OF ginvD(2) [OF g] _ r True, of _ r']) (use True same in \<open>auto simp: same_slot_def\<close>)
  next
    case False
    show ?thesis by (rule linked_other [OF ginvD(2) [OF g], of _ p]) (use False x in auto)
  qed
  moreover have "lossless ops bufs (ring_n ctx s) (op_heap ?s) (dom (buf_heap s)) (provided (trace s))"
    by (rule lossless_same [OF ginvD(6) [OF g] _ r, where r' = r']) (use same in \<open>auto simp: same_slot_def\<close>)
  moreover have "idle ops L (op_heap ?s)" using ginvD(7) [OF g] p by (auto simp: idle_def)
  moreover have "insert p (dom (op_heap s)) = dom (op_heap s)" using r by auto
  ultimately show ?thesis using g by (simp add: ginv_def ring_n_def)
qed

lemma kept_upd_op: "op_heap s p = Some r \<Longrightarrow> kept U ctx s (s\<lparr>op_heap := (op_heap s)(p \<mapsto> r')\<rparr>)"
  by (auto simp: kept_def kpres_def)

lemma valid_mem_kept: "kept U ctx s s' \<Longrightarrow> valid_mem ctx s m n \<Longrightarrow> valid_mem ctx s' m n"
  by (cases m; cases "ctx_heap s ctx") (auto simp: kept_def valid_mem_def)

lemma valid_mem_kw [simp]: "valid_mem ctx (s\<lparr>kw := k\<rparr>) m n = valid_mem ctx s m n"
  by (cases m) (simp_all add: valid_mem_def)

lemma g_stats:
  assumes g: "ginv ctx ops bufs L s" and c: "ctx_heap s ctx = Some c"
  shows "ginv ctx ops bufs L (s\<lparr>ctx_heap := (ctx_heap s)(ctx \<mapsto> c\<lparr>multi_recv_rearmed := k\<rparr>)\<rparr>)"
  using assms by (auto simp: ginv_def uinv_def ring_ok_def linked_def ring_n_def op_nx_def buf_nx_def)

lemma kept_stats:
  "ctx_heap s ctx = Some c \<Longrightarrow> kept U ctx s (s\<lparr>ctx_heap := (ctx_heap s)(ctx \<mapsto> c\<lparr>multi_recv_rearmed := k\<rparr>)\<rparr>)"
  by (auto simp: kept_def kpres_def)

section \<open>A multishot receive\<close>

text \<open>
  The operation in the hands of the program with the ring buffer \<open>i\<close>, before the packet has been
  looked at.
\<close>

definition has_slot :: "ptr \<Rightarrow> ptr list \<Rightarrow> ptr list \<Rightarrow> ptr \<Rightarrow> io_op \<Rightarrow> nat \<Rightarrow> ('k, 'z) uring_state_scheme \<Rightarrow> bool" where
  "has_slot ctx ops bufs p r i s \<longleftrightarrow> ginv ctx ops bufs {p} s \<and> op_heap s p = Some r \<and> is_multi r \<and>
     op_type r = OP_TYPE_UDP_RECV \<and> buf_idx r = int i \<and> msg_namelen (op_msg r) = SOCKADDR_STORAGE"

lemma has_slot_upd:
  assumes "has_slot ctx ops bufs p r i s" and "same_slot r r'"
  shows "has_slot ctx ops bufs p r' i (s\<lparr>op_heap := (op_heap s)(p \<mapsto> r')\<rparr>)"
  using assms g_upd_local [of ctx ops bufs "{p}" s p r r'] by (auto simp: has_slot_def same_slot_def)

lemma has_slot_mem:
  assumes h: "has_slot ctx ops bufs p r i s" and "k + n \<le> BUF_SIZE"
  shows "valid_mem ctx s (MRing ctx (i * BUF_SIZE + k)) n" and "i < ring_n ctx s"
proof -
  have g: "ginv ctx ops bufs {p} s" using h by (simp add: has_slot_def)
  have "op_wf bufs (ring_n ctx s) (buf_heap s) (provided (trace s)) r"
    by (rule own_wf [OF uinv_ring_n [OF ginvD(1) [OF g]]]) (use h ginv_local(1) [OF g] in \<open>auto simp: has_slot_def\<close>)
  then show i: "i < ring_n ctx s" using h by (auto simp: op_wf_def has_slot_def)
  have "i * BUF_SIZE + BUF_SIZE \<le> BUF_SIZE * ring_n ctx s"
    using mult_le_mono2 [of "Suc i" "ring_n ctx s" BUF_SIZE] i by (simp add: algebra_simps)
  then show "valid_mem ctx s (MRing ctx (i * BUF_SIZE + k)) n"
    using assms(2) by (auto simp: valid_mem_def ring_n_def)
qed

text \<open>
  The last step: the multishot receive is armed again when this was its last completion, and the
  operation is ready for the caller.
\<close>

lemma rearm_ok:
  assumes h: "has_slot ctx ops bufs p r i s" and pk: "packet_ok ctx r s" "0 < data_len r"
    and m: "has_more f \<longleftrightarrow> p \<in> set (outstanding (trace s))"
  shows "wp (if \<not> has_more f then
      bnd (iouring_submit_multishot_recvmsg_op U ctx p) (\<lambda>rc. if rc \<noteq> 0 then ret (-1) else
        bnd (upd_ctx ctx (\<lambda>c. c\<lparr>multi_recv_rearmed := multi_recv_rearmed c + 1\<rparr>)) (\<lambda>_. ret 0))
      else ret 0)
    (\<lambda>rc s'. kept U ctx s s' \<and> (if rc < (0 :: int) then live ctx {p} s' else received ctx p s')) s"
proof (cases "has_more f")
  case True
  then show ?thesis using assms by (auto simp: wp_simps received_def has_slot_def gi_def)
next
  case False
  have g: "ginv ctx ops bufs {p} s" and r: "op_heap s p = Some r" "is_multi r" "msg_namelen (op_msg r) = SOCKADDR_STORAGE"
    using h by (auto simp: has_slot_def)
  have pn: "p \<notin> set ops" "p \<notin> set (outstanding (trace s))" using ginv_local(1) [OF g] m False by auto
  have "wp (bnd (iouring_submit_multishot_recvmsg_op U ctx p) (\<lambda>rc. if rc \<noteq> 0 then ret (-1) else
        bnd (upd_ctx ctx (\<lambda>c. c\<lparr>multi_recv_rearmed := multi_recv_rearmed c + 1\<rparr>)) (\<lambda>_. ret 0)))
    (\<lambda>rc s'. kept U ctx s s' \<and> (if rc < (0 :: int) then live ctx {p} s' else received ctx p s')) s"
  proof (rule wp_bndI [OF submit_multishot_ok [OF ginvD(1) [OF g] r, where U = U]], goal_cases)
    case (1 rc s1)
    then have s1: "uinv ctx ops bufs s1" "kept U ctx s s1" "op_heap s1 p = Some r" and sub: "submitted U ctx ops bufs p s rc s1"
      using r by (auto simp: submitted_def)
    show ?case
    proof (cases "rc = 0")
      case True
      note g1 = g_submitted [OF g singletonI pn(2) sub [unfolded True]]
      obtain c where c: "ctx_heap s1 ctx = Some c" "ctx \<noteq> NULL" using s1(1) by (auto simp: uinv_def)
      let ?s = "s1\<lparr>ctx_heap := (ctx_heap s1)(ctx \<mapsto> c\<lparr>multi_recv_rearmed := multi_recv_rearmed c + 1\<rparr>)\<rparr>"
      have k: "kept U ctx s ?s" using s1(2) kept_stats [OF c(1)] by (auto intro: kept_trans)
      have "gi ctx {p} ?s" using g_stats [OF g1(1) c(1)] by (auto simp: gi_def)
      moreover have "packet_ok ctx r ?s"
        using pk valid_mem_kept [OF k] by (auto simp: packet_ok_def)
      ultimately have "received ctx p ?s"
        using s1(3) g1(2) h pk(2) by (auto simp: received_def has_slot_def)
      then show ?thesis using True c k by (simp add: wp_simps)
    next
      case False
      then show ?thesis using s1 pn by (auto simp: wp_simps live_def)
    qed
  qed
  then show ?thesis using False by simp
qed

lemma recvmsg_okD:
  assumes "recvmsg_ok U" and "length buf = BUF_SIZE" and "0 \<le> res" and "res \<le> int BUF_SIZE"
    and "msg_namelen m = SOCKADDR_STORAGE" and "recvmsg_validate U buf res m"
  shows "recvmsg_name U buf = Some k \<Longrightarrow> recvmsg_namelen U buf \<le> SOCKADDR_STORAGE \<and> k = RECVMSG_OUT_SIZE"
    and "0 \<le> recvmsg_payload_length U buf res m"
    and "recvmsg_payload U buf m = Some k \<Longrightarrow>
      k = RECVMSG_OUT_SIZE + SOCKADDR_STORAGE \<and> int k + recvmsg_payload_length U buf res m \<le> int BUF_SIZE"
  using assms unfolding recvmsg_ok_def by metis+

lemma has_slot_live: "has_slot ctx ops bufs p r i s \<Longrightarrow> live ctx {p} s"
  using gi_live [of ctx "{p}" s] by (auto simp: has_slot_def gi_def)

lemma recvmsg_parse_ok:
  assumes U: "recvmsg_ok U" and l: "length buf = BUF_SIZE" and h: "has_slot ctx ops bufs p r i s" and base: "base = i * BUF_SIZE"
    and r: "0 \<le> data_len r" "data_len r \<le> int BUF_SIZE" and m: "has_more f \<longleftrightarrow> p \<in> set (outstanding (trace s))"
  shows "wp (recvmsg_parse U ctx p f base buf)
    (\<lambda>rc s'. kept U ctx s s' \<and> (if rc < 0 then live ctx {p} s' else received ctx p s')) s"
proof (cases "recvmsg_validate U buf (data_len r) (op_msg r)")
  case False
  then show ?thesis using h has_slot_live [OF h] uinv_live_nonnull [of ctx ops bufs s p r]
    by (auto simp: recvmsg_parse_def wp_simps has_slot_def ginv_def)
next
  case True
  let ?Q = "\<lambda>(rc :: int) s'. kept U ctx s s' \<and> (if rc < 0 then live ctx {p} s' else received ctx p s')"
  let ?adr = "mp_of ctx base (recvmsg_name U buf)" and ?al = "recvmsg_namelen U buf"
  let ?pay = "mp_of ctx base (recvmsg_payload U buf (op_msg r))" and ?len = "recvmsg_payload_length U buf (data_len r) (op_msg r)"
  let ?ra = "r\<lparr>op_addr := ?adr, op_addr_len := ?al\<rparr>"
  let ?rb = "?ra\<lparr>op_buffer := ?pay, data_len := ?len\<rparr>"
  let ?sa = "s\<lparr>op_heap := (op_heap s)(p \<mapsto> ?ra)\<rparr>"
  let ?sb = "s\<lparr>op_heap := (op_heap s)(p \<mapsto> ?rb)\<rparr>"
  have p: "op_heap s p = Some r" "p \<noteq> NULL" "op_type r = OP_TYPE_UDP_RECV" and n: "msg_namelen (op_msg r) = SOCKADDR_STORAGE"
    using h uinv_live_nonnull [of ctx ops bufs s p r] by (auto simp: has_slot_def ginv_def)
  note U = recvmsg_okD [OF U l r n True]
  have ha: "has_slot ctx ops bufs p ?ra i ?sa" by (rule has_slot_upd [OF h]) (simp add: same_slot_def)
  have hb: "has_slot ctx ops bufs p ?rb i ?sb" using has_slot_upd [OF ha, of ?rb] by (simp add: same_slot_def)
  have ka: "kept U ctx s ?sa" "kept U ctx s ?sb" using kept_upd_op [OF p(1)] by auto
  have fin: "wp (bnd (load_bytes ?pay 4) (\<lambda>_. if \<not> has_more f then
      bnd (iouring_submit_multishot_recvmsg_op U ctx p) (\<lambda>rc. if rc \<noteq> 0 then ret (-1) else
        bnd (upd_ctx ctx (\<lambda>c. c\<lparr>multi_recv_rearmed := multi_recv_rearmed c + 1\<rparr>)) (\<lambda>_. ret 0))
      else ret 0)) ?Q ?sb" if ne: "?adr \<noteq> MNull" "?al \<noteq> 0" "?pay \<noteq> MNull" "?len \<noteq> 0"
  proof -
    from ne obtain ka kp where nm: "recvmsg_name U buf = Some ka" "?adr = MRing ctx (base + ka)"
      and pay: "recvmsg_payload U buf (op_msg r) = Some kp" "?pay = MRing ctx (base + kp)"
      by (auto simp: mp_of_def split: option.splits)
    note layout = RECVMSG_OUT_SIZE_def SOCKADDR_STORAGE_def BUF_SIZE_def
    note nb = U(1) [OF nm(1)] and pb = U(3) [OF pay(1)]
    have v: "valid_mem ctx ?sb (MRing ctx (base + kp)) 4" "valid_mem ctx ?sb (MRing ctx (base + kp)) (max 40 (nat ?len))"
      "valid_mem ctx ?sb (MRing ctx (base + ka)) SOCKADDR_STORAGE"
      using has_slot_mem(1) [OF hb, of kp 4] has_slot_mem(1) [OF hb, of kp "max 40 (nat ?len)"]
        has_slot_mem(1) [OF hb, of ka SOCKADDR_STORAGE] nb pb U(2)
      by (auto simp: base layout)
    have "?len < int BUF_SIZE" using pb by (simp add: layout)
    then have pk: "packet_ok ctx ?rb ?sb" using v nb pb U(2) ne nm pay p(3) by (auto simp: packet_ok_def)
    have "uinv ctx ops bufs ?sb" using hb by (simp add: has_slot_def ginv_def)
    from load_bytes_valid [OF this v(1)] show ?thesis
      unfolding pay(2)
    proof (rule wp_bndI, goal_cases)
      case (1 bs s')
      then have s': "s' = ?sb" using pay(2) by simp
      show ?case unfolding s'
        by (rule wp_conseq [OF rearm_ok [OF hb pk, where f = f and U = U]])
          (use ne U(2) m ka in \<open>auto intro: kept_trans\<close>)
    qed
  qed
  show ?thesis
    using p True has_slot_live [OF ha] has_slot_live [OF hb] ka fin
    by (simp add: recvmsg_parse_def wp_simps Let_def)
qed

text \<open>The whole of \<^verbatim>\<open>iouring_multishot_recvmsg_out\<close> once the buffer is in the program's hands.\<close>

lemma recvmsg_out_ok:
  assumes U: "recvmsg_ok U" and b: "has_buffer f" and r: "op_heap s p = Some r" "0 \<le> data_len r" "data_len r \<le> int BUF_SIZE"
    and h: "has_slot ctx ops bufs p (r\<lparr>buf_idx := int (buffer_id f)\<rparr>) (buffer_id f)
      (s\<lparr>op_heap := (op_heap s)(p \<mapsto> r\<lparr>buf_idx := int (buffer_id f)\<rparr>)\<rparr>)"
    and m: "has_more f \<longleftrightarrow> p \<in> set (outstanding (trace s))"
  shows "wp (iouring_multishot_recvmsg_out U ctx p f)
    (\<lambda>rc s'. kept U ctx s s' \<and> (if rc < 0 then live ctx {p} s' else received ctx p s')) s"
proof -
  let ?i = "buffer_id f" and ?Q = "\<lambda>(rc :: int) s'. kept U ctx s s' \<and> (if rc < 0 then live ctx {p} s' else received ctx p s')"
  let ?r1 = "r\<lparr>buf_idx := int ?i\<rparr>"
  let ?s1 = "s\<lparr>op_heap := (op_heap s)(p \<mapsto> ?r1)\<rparr>"
  have g1: "ginv ctx ops bufs {p} ?s1" using h by (simp add: has_slot_def)
  have p: "p \<noteq> NULL" by (rule uinv_live_nonnull [OF ginvD(1) [OF g1], of _ ?r1]) simp
  have k1: "kept U ctx s ?s1" by (rule kept_upd_op [OF r(1)])
  have "valid_mem ctx ?s1 (MRing ctx (?i * BUF_SIZE)) BUF_SIZE" using has_slot_mem(1) [OF h, of 0 BUF_SIZE] by simp
  note load = load_bytes_valid [OF ginvD(1) [OF g1] this]
  have "wp (bnd (load_bytes (MRing ctx (?i * BUF_SIZE)) BUF_SIZE) (\<lambda>buf. recvmsg_parse U ctx p f (?i * BUF_SIZE) buf)) ?Q ?s1"
  proof (rule wp_bndI [OF load], goal_cases)
    case (1 buf s1)
    then have s1: "s1 = ?s1" and l: "length buf = BUF_SIZE" by auto
    show ?case unfolding s1
      by (rule wp_conseq [OF recvmsg_parse_ok [OF U l h refl, where f = f]]) (use r m k1 in \<open>auto intro: kept_trans\<close>)
  qed
  then show ?thesis
    using b r p by (simp add: iouring_multishot_recvmsg_out_def wp_simps Let_def)
qed

section \<open>A completion comes in\<close>

lemma linked_cqe:
  assumes l: "linked ops s" and "op_heap s' = op_heap s" and tr: "trace s' = Ev_cqe p f # trace s"
  shows "linked ops s'"
proof -
  have "set (inflight (trace s')) \<subseteq> set (inflight (trace s))" using set_remove_sqe [of p] by (auto simp: tr)
  moreover have "distinct (outstanding (trace s'))" using l by (simp add: tr linked_def distinct_remove1)
  ultimately show ?thesis using l assms(2) by (auto simp: linked_def)
qed

lemma outstanding_after:
  assumes "distinct (outstanding tr)" and "p \<in> set (outstanding tr)"
  shows "set (outstanding tr) = insert p (set (outstanding (Ev_cqe p f # tr)))"
    and "p \<in> set (outstanding (Ev_cqe p f # tr)) \<longleftrightarrow> has_more f"
  using assms by auto

text \<open>Memory writes of the kernel leave the ledger alone.\<close>

lemma ginv_mem:
  assumes "ginv ctx ops bufs L s" and "uinv ctx ops bufs s1" and "same_but_mem ctx s s1"
  shows "ginv ctx ops bufs L s1"
  using assms by (auto simp: ginv_def same_but_mem_def ring_n_def linked_def)

text \<open>A single-shot operation completes: it is in the program's hands.\<close>

lemma complete_single:
  assumes g: "ginv ctx ops bufs {} s" and p: "p \<in> set (outstanding (trace s))" and f: "\<not> has_buffer f" "\<not> has_more f"
  shows "ginv ctx ops bufs {p} (s\<lparr>kw := k, trace := Ev_cqe p f # trace s\<rparr>)"
    and "p \<notin> set (outstanding (Ev_cqe p f # trace s))"
proof -
  let ?s = "s\<lparr>kw := k, trace := Ev_cqe p f # trace s\<rparr>"
  have d: "distinct (outstanding (trace s))" using ginvD(2) [OF g] by (simp add: linked_def)
  note o = outstanding_after [OF d p, of f]
  show "p \<notin> set (outstanding (Ev_cqe p f # trace s))" using o(2) f by simp
  have "uinv ctx ops bufs ?s" by (rule uinv_frame [OF ginvD(1) [OF g]]) (use f in auto)
  moreover have "linked ops ?s" by (rule linked_cqe [OF ginvD(2) [OF g]]) auto
  moreover have "p \<notin> set ops" by (rule linked_out [OF ginvD(2) [OF g] p])
  moreover have "idle ops {p} (op_heap s)" using ginvD(7) [OF g] by (auto simp: idle_def)
  ultimately show "ginv ctx ops bufs {p} ?s"
    using g o(1) f by (auto simp: ginv_def ring_n_def)
qed

text \<open>A multishot operation completes with the ring buffer \<open>i\<close>.\<close>

lemma complete_multi:
  assumes g: "ginv ctx ops bufs {} s" and p: "p \<in> set (outstanding (trace s))" and r: "op_heap s p = Some r" "is_multi r"
    and f: "has_buffer f" "buffer_id f \<in> set (provided (trace s))"
    and r': "is_multi r'" "op_type r' = OP_TYPE_UDP_RECV" "op_fd r' = op_fd r" "op_msg r' = op_msg r" "op_buf_addr r' = op_buf_addr r"
      "buf_idx r' = int (buffer_id f)"
  shows "ginv ctx ops bufs {p} (s\<lparr>kw := k, trace := Ev_cqe p f # trace s, op_heap := (op_heap s)(p \<mapsto> r')\<rparr>)"
proof -
  let ?t = "s\<lparr>kw := k, trace := Ev_cqe p f # trace s\<rparr>"
  let ?s = "s\<lparr>kw := k, trace := Ev_cqe p f # trace s, op_heap := (op_heap s)(p \<mapsto> r')\<rparr>"
  note u = ginvD(1) [OF g] and pn = linked_out [OF ginvD(2) [OF g] p]
  have d: "distinct (outstanding (trace s))" using ginvD(2) [OF g] by (simp add: linked_def)
  note o = outstanding_after [OF d p, of f]
  have b: "op_buf_addr r = NULL" "buf_idx r < 0" "p \<noteq> NULL"
    using live_multi(1) [OF u r(1) pn r(2)] ginvD(7) [OF g] r pn uinv_live_nonnull [OF u r(1)] by (auto simp: idle_def)
  have uv: "uinv ctx ops bufs ?s"
    using u
  proof (rule uinvE, goal_cases)
    case c: (1 c mem)
    have "own ops bufs (nat (br_n_bufs (config c))) ((op_heap s)(p \<mapsto> r')) (buf_heap s) (remove1 (buffer_id f) (provided (trace s)))"
      by (rule own_receive [OF c(11) r(1) pn f(2)]) (use r' b in auto)
    with c pn b f show ?case by (auto simp: uinv_def ring_ok_def nx_comp)
  qed
  have "linked ops ?t" by (rule linked_cqe [OF ginvD(2) [OF g]]) auto
  then have "linked ops ?s"
    by (rule linked_multi [where q = p and r = r and r' = r']) (use r r' in auto)
  moreover have "lossless ops bufs (ring_n ctx s) ((op_heap s)(p \<mapsto> r')) (dom (buf_heap s)) (remove1 (buffer_id f) (provided (trace s)))"
    by (rule lossless_receive [OF ginvD(6) [OF g] r(1) pn b(1,2) r'(6)]) (use uinv_no_null [OF u] in simp)
  moreover have "idle ops {p} ((op_heap s)(p \<mapsto> r'))" using ginvD(7) [OF g] by (auto simp: idle_def)
  moreover have "insert p (dom (op_heap s)) = dom (op_heap s)" using r by auto
  ultimately show ?thesis
    using g uv o(1) f pn by (auto simp: ginv_def ring_n_def)
qed

section \<open>Replacing a completed receive\<close>

lemma resubmit_ok:
  assumes g: "gi ctx {p} s" and p: "p \<notin> set (outstanding (trace s))" and r: "op_heap s p = Some r"
    and t: "op_type r \<in> {OP_TYPE_TUN_READ, OP_TYPE_UDP_RECV}"
  shows "wp (iouring_resubmit_recv U ctx p) (\<lambda>rc s'. kept U ctx s s' \<and> op_heap s' p = Some r \<and>
    (if rc < 0 then live ctx {p} s' else gi ctx {p} s' \<and> p \<notin> set (outstanding (trace s')))) s"
proof -
  let ?Q = "\<lambda>rc s'. kept U ctx s s' \<and> op_heap s' p = Some r \<and>
    (if rc < (0 :: int) then live ctx {p} s' else gi ctx {p} s' \<and> p \<notin> set (outstanding (trace s')))"
  have p0: "p \<noteq> NULL" using g r uinv_live_nonnull by (auto simp: gi_def ginv_def)
  have "wp (bnd (io_op_alloc ctx (op_type r) (op_fd r) False) (\<lambda>new_op.
     if new_op = NULL then ret (-1)
     else if op_type r = OP_TYPE_TUN_READ then iouring_submit_tun_read U ctx new_op
     else if op_type r = OP_TYPE_UDP_RECV then iouring_submit_udp_recv U ctx new_op
     else ret (-1))) ?Q s"
  proof (rule wp_bndI [OF g_alloc [OF g, where U = U]], goal_cases)
    case (1 q s1)
    then have k1: "kept U ctx s s1" "op_heap s1 p = Some r" "trace s1 = trace s" using r by (auto simp: allocated_def)
    show ?case
    proof (cases "q = NULL")
      case True
      then show ?thesis using 1 k1 by (auto simp: allocated_def wp_simps intro: gi_live)
    next
      case False
      then obtain b where q: "b \<noteq> NULL" "op_heap s1 q = Some (new_op (op_type r) (op_fd r) b)" "q \<noteq> p" "gi ctx (insert q {p}) s1"
        "q \<notin> set (outstanding (trace s1))" using 1 by (auto simp: allocated_def)
      have fin: "?Q rc s2" if "sent U ctx {p} q s1 rc s2" for rc s2
        using that k1 q(3) p by (auto simp: sent_def intro: kept_trans live_mono)
      have rd: "wp (iouring_submit_tun_read U ctx q) ?Q s1" if "op_type r = OP_TYPE_TUN_READ"
        by (rule wp_conseq [OF sent_tun_read [OF q(4) _ q(5,2)] fin]) (use that q in \<open>auto simp: new_op_def zero_op_def\<close>)
      have rc: "wp (iouring_submit_udp_recv U ctx q) ?Q s1" if "op_type r = OP_TYPE_UDP_RECV"
        by (rule wp_conseq [OF sent_udp_recv [OF q(4) _ q(5,2)] fin]) (use that q in \<open>auto simp: new_op_def zero_op_def\<close>)
      from t show ?thesis
      proof (elim insertE emptyE)
        assume "op_type r = OP_TYPE_TUN_READ"
        with False rd show ?thesis by simp
      next
        assume "op_type r = OP_TYPE_UDP_RECV"
        with False rc show ?thesis by (simp add: op_type_defs)
      qed
    qed
  qed
  then show ?thesis using p0 r by (simp add: iouring_resubmit_recv_def wp_simps)
qed

section \<open>One completion\<close>

text \<open>The outcomes of the loop body and of the whole wait.\<close>

definition outcome :: "ptr \<Rightarrow> ptr option \<Rightarrow> ('k, 'z) uring_state_scheme \<Rightarrow> bool" where
  "outcome ctx w s = (case w of None \<Rightarrow> gi ctx {} s
     | Some p \<Rightarrow> if p = NULL then live ctx {} s else received ctx p s)"

lemma uinv_cqe: "uinv ctx ops bufs s \<Longrightarrow> uinv ctx ops bufs (s\<lparr>kw := k, trace := Ev_cqe p f # trace s\<rparr>)"
  by (auto simp: uinv_def op_nx_def buf_nx_def intro: own_prov_remove)

text \<open>The end of the body: a failed receive is released.\<close>

lemma finish_ok:
  assumes "kept U ctx s s'" and "if rc < (0 :: int) then live ctx {p} s' else received ctx p s'" and "p \<noteq> NULL"
  shows "wp (if rc < 0 then bnd (io_op_free U ctx p) (\<lambda>_. ret (Some NULL)) else ret (Some p))
    (\<lambda>w s''. kept U ctx s s'' \<and> outcome ctx w s'') s'"
proof (cases "rc < 0")
  case True
  then have "live ctx {p} s'" using assms(2) by simp
  from live_free [OF this singletonI, where U = U] show ?thesis
    using True assms(1) by (auto simp: wp_simps outcome_def elim!: wp_conseq intro: kept_trans)
next
  case False
  then show ?thesis using assms by (simp add: wp_simps outcome_def)
qed

lemma handle_single_recv:
  assumes g: "gi ctx {p} s" and p: "p \<notin> set (outstanding (trace s))" and r: "op_heap s p = Some r" "\<not> is_multi r" "op_buf_addr r \<noteq> NULL"
    and t: "op_type r \<in> {OP_TYPE_TUN_READ, OP_TYPE_UDP_RECV}" and pk: "packet_ok ctx r s"
  shows "wp (bnd (iouring_resubmit_recv U ctx p)
      (\<lambda>rc. if rc < 0 then bnd (io_op_free U ctx p) (\<lambda>_. ret (Some NULL)) else ret (Some p)))
    (\<lambda>w s'. kept U ctx s s' \<and> outcome ctx w s') s"
proof (rule wp_bndI [OF resubmit_ok [OF g p r(1) t, where U = U]], goal_cases)
  case (1 rc s1)
  have "p \<noteq> NULL" using g r uinv_live_nonnull by (auto simp: gi_def ginv_def)
  have "received ctx p s1" if "\<not> rc < 0"
    using 1 that r t pk valid_mem_kept [of U ctx s s1] by (auto simp: received_def packet_ok_def)
  then show ?case using 1 \<open>p \<noteq> NULL\<close> by (intro finish_ok) auto
qed

lemma handle_send:
  assumes g: "gi ctx {p} s" and p: "p \<notin> set (outstanding (trace s))" and r: "op_heap s p = Some r" "\<not> is_multi r"
  shows "wp (bnd (io_op_free U ctx p) (\<lambda>_. ret None)) (\<lambda>w s'. kept U ctx s s' \<and> outcome ctx w s') s"
  by (rule wp_bndI [OF g_free_single [OF g singletonI p r, where U = U]]) (simp add: wp_simps outcome_def freed_def)

lemma handle_multi:
  assumes U: "recvmsg_ok U" and g: "ginv ctx ops bufs {} s0" and p: "p \<in> set (outstanding (trace s0))"
    and r: "op_heap s0 p = Some r" "is_multi r" "msg_namelen (op_msg r) = SOCKADDR_STORAGE"
    and s: "s = s0\<lparr>kw := k, trace := Ev_cqe p f # trace s0, op_heap := (op_heap s0)(p \<mapsto> r\<lparr>data_len := res\<rparr>)\<rparr>"
    and res: "0 \<le> res" "res \<le> int BUF_SIZE" and f: "has_buffer f \<Longrightarrow> buffer_id f \<in> set (provided (trace s0))"
  shows "wp (bnd (iouring_multishot_recvmsg_out U ctx p f)
      (\<lambda>rc. if rc < 0 then bnd (io_op_free U ctx p) (\<lambda>_. ret (Some NULL)) else ret (Some p)))
    (\<lambda>w s'. kept U ctx s s' \<and> outcome ctx w s') s"
proof (cases "has_buffer f")
  case True
  note u = ginvD(1) [OF g] and pn = linked_out [OF ginvD(2) [OF g] p]
  have p0: "p \<noteq> NULL" by (rule uinv_live_nonnull [OF u r(1)])
  have d: "distinct (outstanding (trace s0))" using ginvD(2) [OF g] by (simp add: linked_def)
  let ?r = "r\<lparr>data_len := res, buf_idx := int (buffer_id f)\<rparr>"
  have "ginv ctx ops bufs {p} (s0\<lparr>kw := k, trace := Ev_cqe p f # trace s0, op_heap := (op_heap s0)(p \<mapsto> ?r)\<rparr>)"
    by (rule complete_multi [OF g p r(1,2) True f [OF True]]) (use r(2) live_multi(2) [OF u r(1) pn r(2)] in auto)
  then have h: "has_slot ctx ops bufs p ?r (buffer_id f) (s\<lparr>op_heap := (op_heap s)(p \<mapsto> ?r)\<rparr>)"
    using r live_multi(2) [OF u r(1) pn r(2)] by (simp add: has_slot_def s)
  have "wp (iouring_multishot_recvmsg_out U ctx p f)
    (\<lambda>rc s'. kept U ctx s s' \<and> (if rc < 0 then live ctx {p} s' else received ctx p s')) s"
    by (rule recvmsg_out_ok [OF U True, of _ _ "r\<lparr>data_len := res\<rparr>"])
      (use h res outstanding_after(2) [OF d p, of f] in \<open>auto simp: s\<close>)
  then show ?thesis by (rule wp_bndI) (elim conjE, rule finish_ok [OF _ _ p0])
next
  case False
  note u = ginvD(1) [OF g] and pn = linked_out [OF ginvD(2) [OF g] p]
  have p0: "p \<noteq> NULL" by (rule uinv_live_nonnull [OF u r(1)])
  have "uinv ctx ops bufs s"
    unfolding s by (rule uinv_upd_op [OF uinv_cqe [OF u, where k = k and p = p and f = f], of p r "r\<lparr>data_len := res\<rparr>", simplified]) (use r pn in auto)
  then have "live ctx {p} s" using pn by (auto simp: live_def s)
  then show ?thesis using False finish_ok [of U ctx s s "-1" p] p0
    by (simp add: iouring_multishot_recvmsg_out_def wp_simps)
qed

text \<open>
  A legal completion never faults: it is a released send or write, a replaced receive, or a
  failure after which the ownership invariant still holds.
\<close>

lemma handle_ok:
  assumes U: "recvmsg_ok U" and g: "ginv ctx ops bufs {} s0" and e: "e \<in> set (inflight (trace s0))"
    and c: "cqe_legal ctx (trace s0) c e" and s: "s = s0\<lparr>kw := k, trace := Ev_cqe (cqe_data c) (cqe_flags c) # trace s0\<rparr>"
  shows "wp (handle_completion U ctx (cqe_data c) (cqe_res c) (cqe_flags c))
    (\<lambda>w s'. kept U ctx s s' \<and> outcome ctx w s') s"
proof -
  let ?p = "cqe_data c" and ?f = "cqe_flags c" and ?Q = "\<lambda>w s'. kept U ctx s s' \<and> outcome ctx w s'"
  have ud: "sqe_user_data e = ?p" using c by (simp add: cqe_legal_def)
  have out: "?p \<in> set (outstanding (trace s0))" using e ud by (force simp: outstanding_def)
  from ginvD(2) [OF g] e ud obtain r where r: "op_heap s0 ?p = Some r" "sqe_for ?p r e" by (auto simp: linked_def)
  note u = ginvD(1) [OF g] and pn = linked_out [OF ginvD(2) [OF g] out]
  have p0: "?p \<noteq> NULL" by (rule uinv_live_nonnull [OF u r(1)])
  show ?thesis
  proof (cases "cqe_res c < 0")
    case True
    have "uinv ctx ops bufs s" unfolding s by (rule uinv_cqe [OF u])
    then show ?thesis using True p0 r by (auto simp: handle_completion_def wp_simps outcome_def live_def s)
  next
    case res: False
    let ?r = "r\<lparr>data_len := cqe_res c\<rparr>"
    let ?s = "s\<lparr>op_heap := (op_heap s)(?p \<mapsto> ?r)\<rparr>"
    have ks: "kept U ctx s ?s" by (rule kept_upd_op [of _ _ r]) (simp add: s r)
    have trans: "wp m ?Q ?s" if "wp m (\<lambda>w s'. kept U ctx ?s s' \<and> outcome ctx w s') ?s" for m
      by (rule wp_conseq [OF that]) (use ks in \<open>auto intro: kept_trans\<close>)
    have single: "gi ctx {?p} ?s" "?p \<notin> set (outstanding (trace ?s))" if "\<not> is_multishot e" "\<not> is_multi r"
    proof -
      have "\<not> has_buffer ?f" "\<not> has_more ?f" using c that by (auto simp: cqe_legal_def)
      note cs = complete_single(1) [OF g out this, where k = k] complete_single(2) [OF g out this]
      show "?p \<notin> set (outstanding (trace ?s))" using cs(2) by (simp add: s)
      have "ginv ctx ops bufs {?p} s" using cs(1) by (simp add: s)
      from g_upd_local [OF this singletonI, of r ?r] r(1) cs(2) show "gi ctx {?p} ?s"
        by (auto simp: gi_def s same_slot_def)
    qed
    have "wp (dispatch_completion U ctx ?p ?r ?f) ?Q ?s"
    proof (cases e)
      case (Sqe_read fd m n x)
      have "packet_ok ctx ?r ?s" using r res c live_buf [OF u r(1) pn] Sqe_read
        by (auto simp: packet_ok_def cqe_legal_def valid_mem_def s op_type_defs BUF_SIZE_def)
      from handle_single_recv [OF single, of ?r U] this r Sqe_read trans show ?thesis
        by (simp add: dispatch_completion_def op_type_defs)
    next
      case (Sqe_recvmsg fd h v x)
      have "packet_ok ctx ?r ?s" using r res c live_buf [OF u r(1) pn] Sqe_recvmsg
        by (auto simp: packet_ok_def cqe_legal_def valid_mem_def s SOCKADDR_STORAGE_def BUF_SIZE_def)
      from handle_single_recv [OF single, of ?r U] this r Sqe_recvmsg trans show ?thesis
        by (simp add: dispatch_completion_def op_type_defs)
    next
      case (Sqe_write fd m n x)
      from handle_send [OF single, of ?r U] r Sqe_write trans show ?thesis
        by (simp add: dispatch_completion_def op_type_defs)
    next
      case (Sqe_sendmsg fd h v x)
      from handle_send [OF single, of ?r U] r Sqe_sendmsg trans show ?thesis
        by (simp add: dispatch_completion_def op_type_defs)
    next
      case (Sqe_recvmsg_multishot fd h gid x)
      have rm: "is_multi r" "msg_namelen (op_msg r) = SOCKADDR_STORAGE" using r Sqe_recvmsg_multishot by auto
      have "wp (bnd (iouring_multishot_recvmsg_out U ctx ?p ?f)
          (\<lambda>rc. if rc < 0 then bnd (io_op_free U ctx ?p) (\<lambda>_. ret (Some NULL)) else ret (Some ?p)))
          (\<lambda>w s'. kept U ctx ?s s' \<and> outcome ctx w s') ?s"
        by (rule handle_multi [OF U g out r(1) rm, where k = k and f = ?f and res = "cqe_res c"])
          (use res c Sqe_recvmsg_multishot in \<open>auto simp: s cqe_legal_def\<close>)
      from trans [OF this] rm live_multi(2) [OF u r(1) pn rm(1)] show ?thesis by (simp add: dispatch_completion_def)
    qed
    then show ?thesis using res p0 r by (simp add: handle_completion_def wp_bnd wp_upd wp_load s)
  qed
qed

section \<open>The wait\<close>

text \<open>The kernel's writes for a legal completion hit memory that the completed operation owns.\<close>

lemma writes_valid:
  assumes g: "ginv ctx ops bufs L s" and e: "e \<in> set (inflight (trace s))" and c: "cqe_legal ctx (trace s) c e"
  shows "\<forall>(m, bs) \<in> set (cqe_writes c). valid_mem ctx s m (length bs)"
proof (intro ballI, clarify)
  fix m bs
  assume w: "(m, bs) \<in> set (cqe_writes c)"
  note u = ginvD(1) [OF g]
  from ginvD(2) [OF g] e obtain r where r: "op_heap s (sqe_user_data e) = Some r" "sqe_for (sqe_user_data e) r e"
    "sqe_user_data e \<notin> set ops" by (auto simp: linked_def)
  have mw: "may_write ctx (trace s) (cqe_flags c) e (m, bs)" using w c by (auto simp: cqe_legal_def list_all_iff)
  note lb = live_buf [OF u r(1,3)]
  show "valid_mem ctx s m (length bs)"
  proof (cases e)
    case (Sqe_recvmsg_multishot fd h gid x)
    let ?i = "buffer_id (cqe_flags c)"
    from mw Sqe_recvmsg_multishot obtain off sl where off: "Ev_br_add ?i off sl \<in> set (trace s)" "m = MRing ctx off"
      and len: "length bs \<le> BUF_SIZE" "has_buffer (cqe_flags c)"
      by (auto split: event.splits)
    have "?i < ring_n ctx s"
      using own_prov [OF uinv_ring_n [OF u]] c len(2) by (auto simp: cqe_legal_def)
    then have "?i * BUF_SIZE + BUF_SIZE \<le> BUF_SIZE * ring_n ctx s"
      using mult_le_mono2 [of "Suc ?i" "ring_n ctx s" BUF_SIZE] by (simp add: algebra_simps)
    moreover have "off = ?i * BUF_SIZE" using ginvD(3) [OF g] off(1) by (auto simp: ring_addrs_def)
    ultimately show ?thesis using off(2) len(1) by (auto simp: valid_mem_def ring_n_def)
  qed (use mw r lb in \<open>auto simp: valid_mem_def\<close>)
qed

definition kept_wait :: "ptr \<Rightarrow> ('k, 'z) uring_state_scheme \<Rightarrow> ('k, 'z) uring_state_scheme \<Rightarrow> bool" where
  "kept_wait ctx s s' \<longleftrightarrow> uring_state.more s' = uring_state.more s \<and> next_addr s' = next_addr s \<and>
     map_option config (ctx_heap s' ctx) = map_option config (ctx_heap s ctx) \<and>
     dom (op_heap s') = dom (op_heap s) \<and> dom (buf_heap s') = dom (buf_heap s)"

lemma kept_wait_trans: "kept_wait ctx s s' \<Longrightarrow> kept_wait ctx s' s'' \<Longrightarrow> kept_wait ctx s s''"
  by (simp add: kept_wait_def)

lemma kept_kept_wait: "kept U ctx s s' \<Longrightarrow> kept_wait ctx s s'"
  by (simp add: kept_def kept_wait_def)

text \<open>One round with a completion, and what it leaves.\<close>

lemma wait_completion:
  assumes "ctx \<noteq> NULL" and "wait_cqe_timeout U (kw s) = ((rc, c), k')" and "\<not> rc < 0"
  shows "wait_for_recv U (Suc n) ctx s = bnd (bnd (dma (cqe_writes c)) (\<lambda>_. bnd (iouring_cqe_seen U ctx c) (\<lambda>_.
    handle_completion U ctx (cqe_data c) (cqe_res c) (cqe_flags c)))) (\<lambda>r.
    case r of None \<Rightarrow> wait_for_recv U n ctx | Some p \<Rightarrow> ret (Some p)) (s\<lparr>kw := k'\<rparr>)"
proof -
  let ?f = "\<lambda>(rc, cqe). if rc < 0 then (if rc = -ETIME then wait_for_recv U n ctx else ret (Some NULL)) else
      bnd (iouring_cqe_seen U ctx cqe) (\<lambda>_. bnd (handle_completion U ctx (cqe_data cqe) (cqe_res cqe) (cqe_flags cqe)) (\<lambda>r.
      case r of None \<Rightarrow> wait_for_recv U n ctx | Some p \<Rightarrow> ret (Some p)))"
  have "bnd (iouring_wait_cqe U ctx) ?f s = bnd (bnd (dma (cqe_writes c)) (\<lambda>_. ret (0, c))) ?f (s\<lparr>kw := k'\<rparr>)"
    using assms by (simp add: iouring_wait_cqe_def bnd_def [of _ ?f] exec_base exec_prims(2) [of "kcall _"])
  then show ?thesis by (simp add: bnd_assoc bnd_ret)
qed

lemma wait_round:
  assumes U: "recvmsg_ok U" and K: "kernel_ok U ctx K" and g: "gi ctx {} s" and k: "K (kw s) (trace s)"
    and w: "wait_cqe_timeout U (kw s) = ((rc, c), k')" "\<not> rc < 0"
  shows "wp (bnd (dma (cqe_writes c)) (\<lambda>_. bnd (iouring_cqe_seen U ctx c) (\<lambda>_.
      handle_completion U ctx (cqe_data c) (cqe_res c) (cqe_flags c))))
    (\<lambda>w s'. outcome ctx w s' \<and> K (kw s') (trace s') \<and> kept_wait ctx s s') (s\<lparr>kw := k'\<rparr>)"
proof -
  obtain ops bufs where g: "ginv ctx ops bufs {} s" using g by (auto simp: gi_def)
  have ctx: "ctx \<noteq> NULL" using ginvD(1) [OF g] by (auto simp: uinv_def)
  note kw = kernel_wait(2) [OF K k w]
  from kw obtain e where e: "e \<in> set (inflight (trace s))" "cqe_legal ctx (trace s) c e"
    by (auto simp: cqe_ok_def list_ex_iff)
  have u1: "uinv ctx ops bufs (s\<lparr>kw := k'\<rparr>)" using ginvD(1) [OF g] by simp
  have v: "\<forall>(m, bs) \<in> set (cqe_writes c). valid_mem ctx (s\<lparr>kw := k'\<rparr>) m (length bs)"
    using writes_valid [OF g e] by simp
  show ?thesis
  proof (rule wp_bndI [OF dma_uinv [OF u1 v]], goal_cases)
    case (1 _ s1)
    then have m: "same_but_mem ctx (s\<lparr>kw := k'\<rparr>) s1" "uinv ctx ops bufs s1" by auto
    have g1: "ginv ctx ops bufs {} s1"
      by (rule ginv_mem [OF _ m(2,1)]) (use g in \<open>auto simp: ginv_def linked_def ring_n_def\<close>)
    have tr: "trace s1 = trace s" "kw s1 = k'" using m(1) by (auto simp: same_but_mem_def)
    let ?s = "s1\<lparr>kw := cqe_seen U k', trace := Ev_cqe (cqe_data c) (cqe_flags c) # trace s1\<rparr>"
    have "wp (handle_completion U ctx (cqe_data c) (cqe_res c) (cqe_flags c)) (\<lambda>w s'. kept U ctx ?s s' \<and> outcome ctx w s') ?s"
      by (rule handle_ok [OF U g1 _ _ refl]) (use e tr in auto)
    then have "wp (handle_completion U ctx (cqe_data c) (cqe_res c) (cqe_flags c))
        (\<lambda>w s'. outcome ctx w s' \<and> K (kw s') (trace s') \<and> kept_wait ctx s s') ?s"
    proof (rule wp_conseq, goal_cases)
      case (1 w s2)
      have "K (kw ?s) (trace ?s)" using kw by (simp add: tr)
      then have "K (kw s2) (trace s2)" using 1 K by (auto simp: kept_def kpres_def)
      moreover have "kept_wait ctx s ?s" using m(1) by (simp add: kept_wait_def same_but_mem_def)
      ultimately show ?case using 1 kept_kept_wait kept_wait_trans by blast
    qed
    then show ?case using ctx tr by (simp add: iouring_cqe_seen_def wp_simps)
  qed
qed

lemma wait_for_recv_ok:
  assumes U: "recvmsg_ok U" and K: "kernel_ok U ctx K"
  shows "gi ctx {} s \<Longrightarrow> K (kw s) (trace s) \<Longrightarrow>
    wp (wait_for_recv U n ctx) (\<lambda>w s'. outcome ctx w s' \<and> K (kw s') (trace s') \<and> kept_wait ctx s s') s"
proof (induction n arbitrary: s)
  case 0
  then show ?case by (simp add: wp_simps outcome_def kept_wait_def)
next
  case (Suc n)
  let ?Q = "\<lambda>w s'. outcome ctx w s' \<and> K (kw s') (trace s') \<and> kept_wait ctx s s'"
  have ctx: "ctx \<noteq> NULL" using Suc.prems(1) by (auto simp: gi_def ginv_def uinv_def)
  obtain rc c k' where w: "wait_cqe_timeout U (kw s) = ((rc, c), k')" by (metis prod.exhaust)
  have again: "wp (wait_for_recv U n ctx) ?Q s1" if "gi ctx {} s1" "K (kw s1) (trace s1)" "kept_wait ctx s s1" for s1
    by (rule wp_conseq [OF Suc.IH [OF that(1,2)]]) (use that(3) in \<open>auto intro: kept_wait_trans\<close>)
  show ?case
  proof (cases "rc < 0")
    case True
    have "gi ctx {} (s\<lparr>kw := k'\<rparr>)" using Suc.prems(1) by (auto simp: gi_def ginv_def linked_def ring_n_def)
    with again [of "s\<lparr>kw := k'\<rparr>"] kernel_wait(1) [OF K Suc.prems(2) w True] True ctx w show ?thesis
      by (auto simp: wp_simps iouring_wait_cqe_def outcome_def kept_wait_def ETIME_def intro: gi_live)
  next
    case False
    have "wp (bnd (bnd (dma (cqe_writes c)) (\<lambda>_. bnd (iouring_cqe_seen U ctx c) (\<lambda>_.
        handle_completion U ctx (cqe_data c) (cqe_res c) (cqe_flags c)))) (\<lambda>r.
        case r of None \<Rightarrow> wait_for_recv U n ctx | Some p \<Rightarrow> ret (Some p))) ?Q (s\<lparr>kw := k'\<rparr>)"
    proof (rule wp_bndI [OF wait_round [OF U K Suc.prems w False]], goal_cases)
      case (1 w s2)
      then show ?case using again [of s2] by (cases w) (auto simp: wp_simps outcome_def)
    qed
    then show ?thesis unfolding wp_def wait_completion [OF ctx w False] .
  qed
qed

end
