(* ===== verification/Connection.thy ===== *)
theory Connection
  imports Dtls_Context Packet_Recv
begin

text \<open>
  \<^verbatim>\<open>src/connection.c\<close>: a connection to a peer (socket, peer address, DTLS state), encryption and
  decryption of one packet, and the DTLS handshake over the io-uring receive loop. Functions that
  fill a caller's buffer return the bytes written next to the return code; the callers store them.
\<close>

section \<open>OpenSSL calls on a connection\<close>

text \<open>
  Plaintext that OpenSSL accepts or yields and ciphertext that goes through the BIOs is recorded
  in the trace.
\<close>

definition SSL_write :: "'t openssl \<Rightarrow> ptr \<Rightarrow> byte list \<Rightarrow> int \<Rightarrow> ('k, 't, int) net_prog" where
  "SSL_write T ssl data n = with_ssl ssl (
     if length data < nat n then throwf Out_of_bounds else
     bnd (tcall (ssl_write T ssl (take (nat n) data))) (\<lambda>w.
     if w \<le> 0 then ret w else bnd (log_ev (Ev_ssl_write ssl (take (nat n) data))) (\<lambda>_. ret w)))"

definition SSL_read :: "'t openssl \<Rightarrow> ptr \<Rightarrow> int \<Rightarrow> ('k, 't, int \<times> byte list) net_prog" where
  "SSL_read T ssl n = with_ssl ssl (
     bnd (tcall (ssl_read T ssl (nat n))) (\<lambda>(r, bs).
     if r \<le> 0 then ret (r, []) else bnd (log_ev (Ev_ssl_read ssl bs)) (\<lambda>_. ret (r, bs))))"

definition BIO_write :: "'t openssl \<Rightarrow> ptr \<Rightarrow> byte list \<Rightarrow> int \<Rightarrow> ('k, 't, int) net_prog" where
  "BIO_write T b data n = (if length data < nat n then throwf Out_of_bounds else
     bnd (tcall (bio_write T b (take (nat n) data))) (\<lambda>w.
     if w \<le> 0 then ret w else bnd (log_ev (Ev_bio_write b (take (nat n) data))) (\<lambda>_. ret w)))"

definition BIO_read :: "'t openssl \<Rightarrow> ptr \<Rightarrow> int \<Rightarrow> ('k, 't, int \<times> byte list) net_prog" where
  "BIO_read T b n = bnd (tcall (bio_read T b (nat n))) (\<lambda>(r, bs).
     if r \<le> 0 then ret (r, []) else bnd (log_ev (Ev_bio_read b bs)) (\<lambda>_. ret (r, bs)))"

definition BIO_pending :: "'t openssl \<Rightarrow> ptr \<Rightarrow> ('k, 't, int) net_prog" where
  "BIO_pending T b = gets (\<lambda>s. bio_pending T b (tw s))"

lemma wp_bio_pending [wp_simps]: "wp (BIO_pending T b) Q = (\<lambda>s. Q (bio_pending T b (tw s)) s)"
  by (simp add: BIO_pending_def wp_simps)

section \<open>Creating a connection\<close>

fun conn_role_str :: "conn_role \<Rightarrow> string" where
  "conn_role_str CONN_ROLE_CLIENT = ''CLIENT''"
| "conn_role_str CONN_ROLE_SERVER = ''SERVER''"

text \<open>The second half of \<^verbatim>\<open>create_connection\<close>: socket, local port, role.\<close>

definition connection_socket ::
  "'k posix \<Rightarrow> ptr \<Rightarrow> conn_role \<Rightarrow> 16 word \<Rightarrow> ('k, 't, ptr) net_prog" where
  "connection_socket P conn rl local_port =
     bnd (udp_socket_create P) (\<lambda>fd.
     bnd (upd_conn conn (\<lambda>c. c\<lparr>udp_fd := fd\<rparr>)) (\<lambda>_.
     if fd < 0 then bnd (free_conn conn) (\<lambda>_. ret NULL) else
     bnd (if local_port > 0 then udp_socket_bind P fd local_port None else ret 0) (\<lambda>rc.
     if rc < 0 then bnd (do_close P fd) (\<lambda>_. bnd (free_conn conn) (\<lambda>_. ret NULL)) else
     bnd (upd_conn conn (\<lambda>c. c\<lparr>role := rl\<rparr>)) (\<lambda>_.
     ret conn))))"

definition create_connection ::
  "'k posix \<Rightarrow> conn_role \<Rightarrow> string option \<Rightarrow> 16 word \<Rightarrow> 16 word \<Rightarrow> ('k, 't, ptr) net_prog" where
  "create_connection P rl remote_host remote_port local_port =
     (if rl = CONN_ROLE_CLIENT \<and> (remote_host = None \<or> remote_port = 0) then ret NULL else
      bnd (calloc_conn P) (\<lambda>conn.
      if conn = NULL then ret NULL else
      if rl = CONN_ROLE_CLIENT then
        bnd (resolve_hostname P (the remote_host) remote_port) (\<lambda>(rc, adr).
        if rc < 0 then bnd (free_conn conn) (\<lambda>_. ret NULL) else
        bnd (upd_conn conn (\<lambda>c. c\<lparr>conn_addr := overwrite 0 adr (conn_addr c), conn_addr_len := length adr\<rparr>)) (\<lambda>_.
        bnd (load conn_heap conn) (\<lambda>c.
        bnd (addr_to_string (\<lambda>_. []) (conn_addr c)) (\<lambda>_.
        connection_socket P conn rl local_port))))
      else connection_socket P conn rl local_port))"

definition init_dtls_connection ::
  "'k posix \<Rightarrow> 't openssl \<Rightarrow> ptr \<Rightarrow> string option \<Rightarrow> string option \<Rightarrow> string option \<Rightarrow> ('k, 't, int) net_prog" where
  "init_dtls_connection P T conn cert_file key_file ca_file =
     bnd (load conn_heap conn) (\<lambda>c.
     bnd (if role c = CONN_ROLE_CLIENT then dtls_client_context_init P T ca_file
          else dtls_server_context_init P T cert_file key_file) (\<lambda>d.
     bnd (upd_conn conn (\<lambda>c. c\<lparr>conn_dtls := d\<rparr>)) (\<lambda>_.
     if d = NULL then ret (-1) else
     bnd (dtls_create_ssl T d) (\<lambda>ssl.
     bnd (upd_conn conn (\<lambda>c. c\<lparr>conn_ssl := ssl\<rparr>)) (\<lambda>_.
     if ssl = NULL then ret (-1) else
     bnd (dtls_setup_bio_pair T ssl) (\<lambda>(rc, rb, wb).
     if rc < 0 then bnd (SSL_free T ssl) (\<lambda>_. ret (-1)) else
     bnd (upd_conn conn (\<lambda>c. c\<lparr>rbio := rb, wbio := wb\<rparr>)) (\<lambda>_.
     bnd (upd_conn conn (\<lambda>c. c\<lparr>conn_st := CONN_STATE_HANDSHAKING\<rparr>)) (\<lambda>_.
     bnd (kcall (sys_time P)) (\<lambda>now.
     bnd (upd_conn conn (\<lambda>c. c\<lparr>last_activity := now\<rparr>)) (\<lambda>_.
     ret 0))))))))))"

section \<open>Encryption and decryption\<close>

definition dtls_encrypt_packet ::
  "'t openssl \<Rightarrow> ptr \<Rightarrow> byte list \<Rightarrow> int \<Rightarrow> int \<Rightarrow> ('k, 't, int \<times> byte list) net_prog" where
  "dtls_encrypt_packet T dtls data len result_size =
     bnd (load conn_heap dtls) (\<lambda>c.
     bnd (SSL_write T (conn_ssl c) data len) (\<lambda>written.
     if written \<le> 0 then bnd (dtls_get_error_string T (conn_ssl c) written) (\<lambda>_. ret (-1, [])) else
     bnd (BIO_read T (wbio c) result_size) (\<lambda>(rd, bs).
     if rd \<le> 0 then ret (-1, []) else
     ret (rd, bs))))"

text \<open>The repeated \<^verbatim>\<open>SSL_read\<close>: at most \<open>i\<close> more tries while the error is \<^verbatim>\<open>WANT_READ\<close>.\<close>

fun ssl_read_retry ::
  "'t openssl \<Rightarrow> ptr \<Rightarrow> int \<Rightarrow> nat \<Rightarrow> int \<times> byte list \<times> int \<Rightarrow> ('k, 't, int \<times> byte list \<times> int) net_prog" where
  "ssl_read_retry T ssl n 0 r = ret r"
| "ssl_read_retry T ssl n (Suc i) r =
     bnd (SSL_read T ssl n) (\<lambda>(rd, bs).
     bnd (SSL_get_error T ssl rd) (\<lambda>err.
     if err \<noteq> SSL_ERROR_WANT_READ then ret (rd, bs, err) else ssl_read_retry T ssl n i (rd, bs, err)))"

definition dtls_decrypt_packet ::
  "'t openssl \<Rightarrow> ptr \<Rightarrow> byte list \<Rightarrow> int \<Rightarrow> int \<Rightarrow> ('k, 't, int \<times> byte list) net_prog" where
  "dtls_decrypt_packet T dtls encrypted encrypted_len decrypted_size =
     bnd (load conn_heap dtls) (\<lambda>c.
     bnd (BIO_write T (rbio c) encrypted encrypted_len) (\<lambda>written.
     if written \<le> 0 then ret (-1, []) else
     if written \<noteq> encrypted_len then ret (-1, []) else
     bnd (c_assert (encrypted_len < decrypted_size)) (\<lambda>_.
     bnd (SSL_read T (conn_ssl c) encrypted_len) (\<lambda>(rd, bs).
     bnd (SSL_get_error T (conn_ssl c) rd) (\<lambda>err.
     bnd (if err = SSL_ERROR_WANT_READ then ssl_read_retry T (conn_ssl c) encrypted_len 4 (rd, bs, err)
          else ret (rd, bs, err)) (\<lambda>(rd, bs, err).
     if err \<noteq> SSL_ERROR_NONE then
       (if err = SSL_ERROR_ZERO_RETURN then ret (-1, [])
        else bnd (dtls_get_error_string T (conn_ssl c) rd) (\<lambda>_. ret (-1, [])))
     else ret (rd, bs)))))))"

section \<open>The handshake\<close>

text \<open>
  The bytes from a pointer to the end of its object; the program reads some of them (a packet
  header, a socket address) without asking for the whole.
\<close>

fun object_at :: "mptr \<Rightarrow> (('k, 'z) uring_state_scheme, byte list) prog" where
  "object_at MNull = ret []"
| "object_at (MBuf b) = bnd (load buf_heap b) (\<lambda>r. ret (ba_buf r))"
| "object_at (MAddr b) = bnd (load buf_heap b) (\<lambda>r. ret (ba_addr r))"
| "object_at (MRing c off) = bnd (load ctx_heap c) (\<lambda>x.
     case br_bufs x of None \<Rightarrow> throwf Bad_pointer | Some mem \<Rightarrow> ret (drop off mem))"

text \<open>
  The peer address of the first packet becomes the address of the connection; the log line reads
  it back. \<^verbatim>\<open>conn->addr\<close> is a \<^verbatim>\<open>sockaddr_storage\<close>.
\<close>

definition set_peer :: "ptr \<Rightarrow> io_op \<Rightarrow> ('k, 't, unit) net_prog" where
  "set_peer conn r =
     bnd (c_assert (0 < op_addr_len r)) (\<lambda>_.
     bnd (load_bytes (op_addr r) (op_addr_len r)) (\<lambda>adr.
     if SOCKADDR_STORAGE < op_addr_len r then throwf Out_of_bounds else
     bnd (upd_conn conn (\<lambda>c. c\<lparr>conn_addr := overwrite 0 adr (conn_addr c), conn_addr_len := op_addr_len r\<rparr>)) (\<lambda>_.
     bnd (load conn_heap conn) (\<lambda>c.
     bnd (addr_to_string (\<lambda>_. []) (conn_addr c)) (\<lambda>_. ret ())))))"

text \<open>Send what OpenSSL has put into the write BIO; -1 when the submission fails.\<close>

definition handshake_send :: "'t openssl \<Rightarrow> 'k liburing \<Rightarrow> ptr \<Rightarrow> ptr \<Rightarrow> ('k, 't, int) net_prog" where
  "handshake_send T U uring conn =
     bnd (load conn_heap conn) (\<lambda>c.
     bnd (BIO_pending T (wbio c)) (\<lambda>ssl_send.
     if ssl_send = 0 then ret 0 else
     bnd (BIO_read T (wbio c) (int BUF_SIZE)) (\<lambda>(rd, buffer).
     bnd (c_assert (0 < rd)) (\<lambda>_.
     bnd (io_op_alloc uring OP_TYPE_UDP_SEND (udp_fd c) False) (\<lambda>new_op.
     bnd (c_assert (new_op \<noteq> NULL)) (\<lambda>_.
     bnd (iouring_submit_udp_send U uring new_op (Some (conn_addr c)) (conn_addr_len c) (Some buffer) rd) (\<lambda>rc.
     if rc < 0 then ret (-1) else ret 0)))))))"

text \<open>
  A received datagram goes into the read BIO. A datagram for another socket is dropped (the
  operation is not released). The result says whether the handshake may go on.
\<close>

definition handshake_recv :: "'t openssl \<Rightarrow> 'k liburing \<Rightarrow> ptr \<Rightarrow> ptr \<Rightarrow> ptr \<Rightarrow> ('k, 't, unit) net_prog" where
  "handshake_recv T U uring conn op =
     bnd (load op_heap op) (\<lambda>r.
     bnd (c_assert (op_type r = OP_TYPE_UDP_RECV)) (\<lambda>_.
     bnd (load conn_heap conn) (\<lambda>c.
     if op_fd r \<noteq> udp_fd c then ret () else
     bnd (if conn_addr_len c = 0 then set_peer conn r else ret ()) (\<lambda>_.
     bnd (load_bytes (op_buffer r) (nat (data_len r))) (\<lambda>data.
     bnd (BIO_write T (rbio c) data (data_len r)) (\<lambda>_.
     bnd (io_op_free U uring op) (\<lambda>_. ret ())))))))"

text \<open>\<open>None\<close>: the handshake is still going on after that many rounds, or is still waiting for a packet.\<close>

fun handshake_loop :: "'t openssl \<Rightarrow> 'k liburing \<Rightarrow> nat \<Rightarrow> nat \<Rightarrow> ptr \<Rightarrow> ptr \<Rightarrow> ('k, 't, int option) net_prog" where
  "handshake_loop T U w 0 uring conn = ret None"
| "handshake_loop T U w (Suc n) uring conn =
     bnd (load conn_heap conn) (\<lambda>c.
     bnd (with_ssl (conn_ssl c) (tcall (ssl_do_handshake T (conn_ssl c)))) (\<lambda>rc.
     bnd (dtls_get_error_string T (conn_ssl c) rc) (\<lambda>_.
     bnd (handshake_send T U uring conn) (\<lambda>sent.
     if sent < 0 then ret (Some (-1)) else
     if rc = 1 then bnd (upd_conn conn (\<lambda>c. c\<lparr>conn_st := CONN_STATE_ESTABLISHED\<rparr>)) (\<lambda>_. ret (Some 0))
     else if rc = 0 then ret (Some (-1)) else
     bnd (SSL_get_error T (conn_ssl c) rc) (\<lambda>err.
     if err = SSL_ERROR_WANT_READ then
       bnd (BIO_pending T (rbio c)) (\<lambda>pend.
       if pend \<noteq> 0 then ret (Some (-1)) else
       bnd (wait_for_recv U w uring) (\<lambda>got. case got of None \<Rightarrow> ret None | Some op \<Rightarrow>
       if op = NULL then ret (Some (-1)) else
       bnd (handshake_recv T U uring conn op) (\<lambda>_.
       handshake_loop T U w n uring conn)))
     else if err = SSL_ERROR_WANT_WRITE then
       bnd (BIO_pending T (wbio c)) (\<lambda>pend.
       if 0 < pend then ret (Some (-1)) else handshake_loop T U w n uring conn)
     else bnd (dtls_get_error_string T (conn_ssl c) rc) (\<lambda>_. ret (Some (-1))))))))"

definition do_dtls_handshake :: "'t openssl \<Rightarrow> 'k liburing \<Rightarrow> nat \<Rightarrow> nat \<Rightarrow> ptr \<Rightarrow> ptr \<Rightarrow> ('k, 't, int option) net_prog" where
  "do_dtls_handshake T U w n uring conn =
     (if conn = NULL then ret (Some (-1)) else
      bnd (tdo (err_clear_error T)) (\<lambda>_. handshake_loop T U w n uring conn))"

section \<open>Encryption and decryption keep the other components\<close>

text \<open>
  What the code relies on from OpenSSL: a read of at most \<open>n\<close> bytes that reports \<open>r > 0\<close> has
  delivered exactly \<open>r\<close> bytes, and \<open>r\<close> is at most \<open>n\<close>.
\<close>

definition openssl_ok :: "'t openssl \<Rightarrow> bool" where
  "openssl_ok T \<longleftrightarrow> (\<forall>b n t r bs t'. bio_read T b n t = ((r, bs), t') \<and> 0 < r \<longrightarrow> r \<le> int n \<and> length bs = nat r) \<and>
     (\<forall>p n t r bs t'. ssl_read T p n t = ((r, bs), t') \<and> 0 < r \<longrightarrow> r \<le> int n \<and> length bs = nat r)"

text \<open>A stretch of the program that only talks to OpenSSL.\<close>

definition tls_step :: "('k, 't) net_state \<Rightarrow> ('k, 't) net_state \<Rightarrow> bool" where
  "tls_step s s' \<longleftrightarrow> (\<exists>t evs. s' = s\<lparr>tw := t, trace := evs @ trace s\<rparr> \<and> list_all off_ring evs)"

lemma tls_step_refl: "tls_step s s"
  unfolding tls_step_def by (rule exI [of _ "tw s"], rule exI [of _ "[]"]) simp

lemma tls_step_trans:
  assumes "tls_step s s'" and "tls_step s' s''"
  shows "tls_step s s''"
proof -
  from assms obtain t evs t' evs' where "s' = s\<lparr>tw := t, trace := evs @ trace s\<rparr>" "list_all off_ring evs"
    "s'' = s'\<lparr>tw := t', trace := evs' @ trace s'\<rparr>" "list_all off_ring evs'" by (auto simp: tls_step_def)
  then show ?thesis unfolding tls_step_def by (intro exI [of _ t'] exI [of _ "evs' @ evs"]) simp
qed

lemma tls_step_tw: "tls_step s (s\<lparr>tw := t\<rparr>)"
  unfolding tls_step_def by (rule exI [of _ t], rule exI [of _ "[]"]) simp

lemma tls_step_ev: "off_ring e \<Longrightarrow> tls_step s (s\<lparr>tw := t, trace := e # trace s\<rparr>)"
  unfolding tls_step_def by (rule exI [of _ t], rule exI [of _ "[e]"]) simp

lemma off_ring_trace:
  assumes "list_all off_ring evs"
  shows "inflight (evs @ tr) = inflight tr" and "provided (evs @ tr) = provided tr"
    and "ring_addrs (evs @ tr) = ring_addrs tr"
proof -
  have *: "inflight (evs @ tr) = inflight tr \<and> provided (evs @ tr) = provided tr \<and> ring_addrs (evs @ tr) = ring_addrs tr"
    using assms
  proof (induction evs)
    case (Cons e evs)
    then show ?case by (cases e) auto
  qed simp
  then show "inflight (evs @ tr) = inflight tr" and "provided (evs @ tr) = provided tr"
    and "ring_addrs (evs @ tr) = ring_addrs tr" by blast+
qed

lemma off_ring_kpres:
  assumes "list_all off_ring evs" and "kernel_ok U ctx K" and "K k tr"
  shows "K k (evs @ tr)"
  using assms(1) by (induction evs) (use assms(2,3) in \<open>auto intro: kernel_okD(6)\<close>)

lemma tls_stepD:
  assumes "tls_step s s'"
  shows "kpres U ctx s s'" and "ctx_heap s' = ctx_heap s" and "op_heap s' = op_heap s" and "buf_heap s' = buf_heap s"
    and "inflight (trace s') = inflight (trace s)" and "provided (trace s') = provided (trace s)"
    and "ring_addrs (trace s') = ring_addrs (trace s)" and "next_addr s' = next_addr s" and "conn_heap s' = conn_heap s"
    and "outstanding (trace s') = outstanding (trace s)" and "fwd_heap s' = fwd_heap s"
  using assms off_ring_kpres unfolding tls_step_def kpres_def
  by (auto simp: off_ring_trace outstanding_def)

lemma SSL_write_ok:
  assumes "ssl \<noteq> NULL" and "nat n \<le> length data"
  shows "wp (SSL_write T ssl data n) (\<lambda>_. tls_step s) s"
  using assms by (auto simp: SSL_write_def wp_simps tls_step_tw tls_step_ev split: prod.splits)

lemma BIO_write_ok:
  assumes "nat n \<le> length data"
  shows "wp (BIO_write T b data n) (\<lambda>_. tls_step s) s"
  using assms by (auto simp: BIO_write_def wp_simps tls_step_tw tls_step_ev split: prod.splits)

text \<open>What a read returns.\<close>

definition read_result :: "int \<Rightarrow> int \<times> byte list \<Rightarrow> bool" where
  "read_result n = (\<lambda>(r, bs). if r \<le> 0 then bs = [] else r \<le> int (nat n) \<and> length bs = nat r)"

lemma BIO_read_ok:
  assumes "openssl_ok T"
  shows "wp (BIO_read T b n) (\<lambda>r s'. tls_step s s' \<and> read_result n r) s"
proof -
  obtain r bs t where e: "bio_read T b (nat n) (tw s) = ((r, bs), t)" by (metis prod.exhaust)
  then have "0 < r \<longrightarrow> r \<le> int (nat n) \<and> length bs = nat r" using assms unfolding openssl_ok_def by blast
  then show ?thesis using e by (auto simp: BIO_read_def wp_simps read_result_def tls_step_tw tls_step_ev)
qed

lemma SSL_read_ok:
  assumes "openssl_ok T" and "ssl \<noteq> NULL"
  shows "wp (SSL_read T ssl n) (\<lambda>r s'. tls_step s s' \<and> read_result n r) s"
proof -
  obtain r bs t where e: "ssl_read T ssl (nat n) (tw s) = ((r, bs), t)" by (metis prod.exhaust)
  then have "0 < r \<longrightarrow> r \<le> int (nat n) \<and> length bs = nat r" using assms unfolding openssl_ok_def by blast
  then show ?thesis using e assms(2) by (auto simp: SSL_read_def wp_simps read_result_def tls_step_tw tls_step_ev)
qed

lemma ssl_read_retry_ok:
  assumes T: "openssl_ok T" and ssl: "ssl \<noteq> NULL"
  shows "read_result n (got, bs) \<Longrightarrow>
    wp (ssl_read_retry T ssl n i (got, bs, err)) (\<lambda>(got, bs, err) s'. tls_step s s' \<and> read_result n (got, bs)) s"
proof (induction i arbitrary: got bs err s)
  case 0
  then show ?case by (simp add: wp_simps tls_step_refl)
next
  case (Suc i)
  show ?case unfolding ssl_read_retry.simps
  proof (rule wp_bndI [OF SSL_read_ok [OF T ssl]], goal_cases)
    case (1 r s1)
    then obtain got bs where r: "r = (got, bs)" "tls_step s s1" "read_result n (got, bs)" by (cases r) auto
    have "wp (ssl_read_retry T ssl n i (got, bs, err)) (\<lambda>(got, bs, err) s'. tls_step s s' \<and> read_result n (got, bs)) s1" for err
      by (rule wp_conseq [OF Suc.IH [OF r(3)]]) (use r(2) tls_step_trans in blast)
    then show ?case using r ssl by (simp add: wp_simps)
  qed
qed

lemma encrypt_ok:
  assumes T: "openssl_ok T" and c: "conn \<noteq> NULL" "conn_heap s conn = Some c" "conn_ssl c \<noteq> NULL" and n: "nat n \<le> length data"
  shows "wp (dtls_encrypt_packet T conn data n cap) (\<lambda>(got, bs) s'. tls_step s s' \<and>
    (got = -1 \<and> bs = [] \<or> 0 < got \<and> got \<le> int (nat cap) \<and> length bs = nat got)) s"
  unfolding dtls_encrypt_packet_def
proof (rule wp_loadI [where h = conn_heap, OF c(2,1)], goal_cases)
  case 1
  show ?case
  proof (rule wp_bndI [OF SSL_write_ok [where T = T]], goal_cases)
    case (3 w s1)
    show ?case
    proof (cases "w \<le> 0")
      case True
      then show ?thesis using 3 c by (simp add: wp_simps)
    next
      case False
      have "wp (bnd (BIO_read T (wbio c) cap) (\<lambda>(got, bs). if got \<le> 0 then ret (-1, []) else ret (got, bs)))
        (\<lambda>(got, bs) s'. tls_step s s' \<and> (got = -1 \<and> bs = [] \<or> 0 < got \<and> got \<le> int (nat cap) \<and> length bs = nat got)) s1"
        by (rule wp_bndI [OF BIO_read_ok [OF T]])
          (use 3 in \<open>auto simp: wp_simps read_result_def intro: tls_step_trans split: if_splits\<close>)
      then show ?thesis using False by simp
    qed
  qed (use c n in auto)
qed

lemma decrypt_ok:
  assumes T: "openssl_ok T" and c: "conn \<noteq> NULL" "conn_heap s conn = Some c" "conn_ssl c \<noteq> NULL"
    and n: "nat n \<le> length data" "n < cap"
  shows "wp (dtls_decrypt_packet T conn data n cap) (\<lambda>(got, bs) s'. tls_step s s' \<and> read_result n (got, bs)) s"
  unfolding dtls_decrypt_packet_def
proof (rule wp_loadI [where h = conn_heap, OF c(2,1)], goal_cases)
  case 1
  let ?Q = "\<lambda>(got, bs) s'. tls_step s s' \<and> read_result n (got, bs)"
  let ?tail = "\<lambda>(got, bs, err). if err \<noteq> SSL_ERROR_NONE then
       (if err = SSL_ERROR_ZERO_RETURN then ret (-1, [])
        else bnd (dtls_get_error_string T (conn_ssl c) got) (\<lambda>_. ret (-1, [])))
     else ret (got, bs)"
  have fin: "wp (?tail (got, bs, err)) ?Q s'" if "tls_step s s'" "read_result n (got, bs)" for got bs err s'
    using that c by (auto simp: wp_simps read_result_def)
  have rest: "wp (bnd (SSL_read T (conn_ssl c) n) (\<lambda>(got, bs).
     bnd (SSL_get_error T (conn_ssl c) got) (\<lambda>err.
     bnd (if err = SSL_ERROR_WANT_READ then ssl_read_retry T (conn_ssl c) n 4 (got, bs, err)
          else ret (got, bs, err)) ?tail))) ?Q s1" if t: "tls_step s s1" for s1
  proof (rule wp_bndI [OF SSL_read_ok [OF T c(3)]], goal_cases)
    case (1 r s2)
    then obtain got bs where r: "r = (got, bs)" "tls_step s s2" "read_result n (got, bs)"
      using t by (cases r) (auto intro: tls_step_trans)
    have "wp (bnd (if err = SSL_ERROR_WANT_READ then ssl_read_retry T (conn_ssl c) n 4 (got, bs, err) else ret (got, bs, err)) ?tail) ?Q s2" for err
    proof (cases "err = SSL_ERROR_WANT_READ")
      case True
      have "wp (bnd (ssl_read_retry T (conn_ssl c) n 4 (got, bs, err)) ?tail) ?Q s2"
        by (rule wp_bndI [OF ssl_read_retry_ok [OF T c(3) r(3)]]) (use r(2) fin tls_step_trans in blast)
      then show ?thesis using True by simp
    next
      case False
      then show ?thesis using fin [OF r(2,3)] by (simp add: wp_bnd wp_ret)
    qed
    then show ?case using r(1) c(3) by (simp add: wp_bnd wp_tls_objs)
  qed
  show ?case
  proof (rule wp_bndI [OF BIO_write_ok [OF n(1), where T = T]], goal_cases)
    case (1 w s1)
    then show ?case using rest [of s1] n(2) by (auto simp: wp_ret read_result_def)
  qed
qed
end
