(* ===== verification/Packet_Handler.thy ===== *)
theory Packet_Handler
  imports Connection
begin

text \<open>
  The rest of \<^verbatim>\<open>src/packet_handler.c\<close>: the four ways a received packet leaves again. With DTLS a
  packet from the TUN device is encrypted into a new send operation, and a datagram is decrypted
  into a new TUN write; without DTLS the received buffer itself is handed over to the new
  operation. The model is the Debug build: asserts and debug output are on, so the header of
  every packet is read for the log.
\<close>

section \<open>The code\<close>

text \<open>A pointer to packet bytes: an array on the stack, or memory of the io-uring component.\<close>

datatype bytes_at = Stack "byte list" | Heap mptr

fun read_src :: "bytes_at \<Rightarrow> (('k, 'z) uring_state_scheme, byte list) prog" where
  "read_src (Stack bs) = ret bs"
| "read_src (Heap m) = object_at m"

text \<open>Conversions between \<^verbatim>\<open>int\<close> and \<^verbatim>\<open>size_t\<close>.\<close>

definition size_of_int :: "int \<Rightarrow> nat" where
  "size_of_int n = nat (n mod 2 ^ 64)"

definition int_of_size :: "nat \<Rightarrow> int" where
  "int_of_size n = (int n + 2 ^ 31) mod 2 ^ 32 - 2 ^ 31"

definition print_packet :: "bytes_at \<Rightarrow> nat \<Rightarrow> (('k, 'z) uring_state_scheme, unit) prog" where
  "print_packet data len = bnd (read_src data) (\<lambda>bs. bnd (print_ip_packet_info bs len) (\<lambda>_. ret ()))"

text \<open>
  \<^verbatim>\<open>op->data_len = f(..., op->buffer, BUF_SIZE)\<close>: the bytes that \<^verbatim>\<open>f\<close> has produced are in the buffer of
  the operation, its result in \<^verbatim>\<open>data_len\<close>.
\<close>

definition fill_op :: "ptr \<Rightarrow> int \<Rightarrow> byte list \<Rightarrow> (('k, 'z) uring_state_scheme, unit) prog" where
  "fill_op op n bs =
     bnd (load op_heap op) (\<lambda>r.
     bnd (store_bytes (op_buffer r) bs) (\<lambda>_.
     upd_op op (\<lambda>r. r\<lparr>data_len := n\<rparr>)))"

definition dtls_encrypt_and_send_udp ::
  "'t openssl \<Rightarrow> 'k liburing \<Rightarrow> ptr \<Rightarrow> bytes_at \<Rightarrow> nat \<Rightarrow> ptr \<Rightarrow> ('k, 't, int) net_prog" where
  "dtls_encrypt_and_send_udp T U conn data len uring =
     bnd (print_packet data len) (\<lambda>_.
     bnd (load conn_heap conn) (\<lambda>c.
     bnd (io_op_alloc uring OP_TYPE_UDP_SEND (udp_fd c) False) (\<lambda>op.
     if op = NULL then ret (-1) else
     bnd (read_src data) (\<lambda>d.
     bnd (dtls_encrypt_packet T conn d (int_of_size len) (int BUF_SIZE)) (\<lambda>(rd, bs).
     bnd (fill_op op rd bs) (\<lambda>_.
     if rd < 0 then bnd (io_op_free U uring op) (\<lambda>_. ret (-1)) else
     bnd (iouring_submit_udp_send U uring op (Some (conn_addr c)) (conn_addr_len c) None rd) (\<lambda>rc.
     if rc < 0 then bnd (io_op_free U uring op) (\<lambda>_. ret (-1)) else
     ret 0)))))))"

definition dtls_decrypt_and_write_tun ::
  "'t openssl \<Rightarrow> 'k liburing \<Rightarrow> ptr \<Rightarrow> int \<Rightarrow> bytes_at \<Rightarrow> int \<Rightarrow> ptr \<Rightarrow> ('k, 't, int) net_prog" where
  "dtls_decrypt_and_write_tun T U conn tunfd encrypted encrypted_len uring =
     bnd (io_op_alloc uring OP_TYPE_TUN_WRITE tunfd False) (\<lambda>tun_op.
     if tun_op = NULL then ret (-1) else
     bnd (read_src encrypted) (\<lambda>d.
     bnd (dtls_decrypt_packet T conn d encrypted_len (int BUF_SIZE)) (\<lambda>(rd, bs).
     bnd (fill_op tun_op rd bs) (\<lambda>_.
     if rd < 0 then bnd (io_op_free U uring tun_op) (\<lambda>_. ret (-1)) else
     bnd (load op_heap tun_op) (\<lambda>r.
     bnd (print_packet (Heap (op_buffer r)) (size_of_int (data_len r))) (\<lambda>_.
     bnd (upd_op tun_op (\<lambda>r. r\<lparr>op_fd := tunfd\<rparr>)) (\<lambda>_.
     bnd (iouring_submit_tun_write U uring tun_op None (data_len r)) (\<lambda>rc.
     if rc < 0 then bnd (io_op_free U uring tun_op) (\<lambda>_. ret (-1)) else
     ret 0))))))))"

definition tun_to_udp :: "'k liburing \<Rightarrow> ptr \<Rightarrow> ptr \<Rightarrow> ptr \<Rightarrow> ('k, 't, int) net_prog" where
  "tun_to_udp U conn op uring =
     bnd (load op_heap op) (\<lambda>r.
     bnd (print_packet (Heap (op_buffer r)) (size_of_int (data_len r))) (\<lambda>_.
     bnd (load conn_heap conn) (\<lambda>c.
     bnd (io_op_alloc_buf uring OP_TYPE_UDP_SEND (udp_fd c) False op) (\<lambda>send_op.
     if send_op = NULL then ret (-1) else
     bnd (load op_heap send_op) (\<lambda>o'.
     bnd (iouring_submit_udp_send U uring send_op (Some (conn_addr c)) (conn_addr_len c) None (data_len o')) (\<lambda>rc.
     if rc < 0 then bnd (io_op_free U uring send_op) (\<lambda>_. ret (-1)) else
     ret 0))))))"

definition udp_to_tun :: "'k liburing \<Rightarrow> int \<Rightarrow> ptr \<Rightarrow> ptr \<Rightarrow> ('k, 't, int) net_prog" where
  "udp_to_tun U tunfd op uring =
     bnd (load op_heap op) (\<lambda>r.
     bnd (print_packet (Heap (op_buffer r)) (size_of_int (data_len r))) (\<lambda>_.
     bnd (io_op_alloc_buf uring OP_TYPE_TUN_WRITE tunfd False op) (\<lambda>send_op.
     if send_op = NULL then ret (-1) else
     bnd (load op_heap op) (\<lambda>r.
     bnd (iouring_submit_tun_write U uring send_op None (data_len r)) (\<lambda>rc.
     if rc < 0 then bnd (io_op_free U uring send_op) (\<lambda>_. ret (-1)) else
     ret 0)))))"

section \<open>The ledger across the layers\<close>

text \<open>The ledger does not depend on what the upper layers do with their own state.\<close>

lemma gi_env:
  assumes "gi ctx L s" and "ctx_heap s' = ctx_heap s" and "op_heap s' = op_heap s" and "buf_heap s' = buf_heap s"
    and "inflight (trace s') = inflight (trace s)" and "provided (trace s') = provided (trace s)"
    and "ring_addrs (trace s) \<Longrightarrow> ring_addrs (trace s')"
  shows "gi ctx L s'"
proof -
  from assms(1) obtain ops bufs where g: "ginv ctx ops bufs L s" by (auto simp: gi_def)
  have "uinv ctx ops bufs s'" by (rule uinv_frame [OF ginvD(1) [OF g]]) (use assms in auto)
  with g assms have "ginv ctx ops bufs L s'" by (simp add: ginv_def linked_def outstanding_def ring_n_def)
  then show ?thesis by (auto simp: gi_def)
qed

lemma live_env:
  assumes "live ctx L s" and "ctx_heap s' = ctx_heap s" and "op_heap s' = op_heap s" and "buf_heap s' = buf_heap s"
    and "provided (trace s') = provided (trace s)"
  shows "live ctx L s'"
proof -
  from assms(1) obtain ops bufs where u: "uinv ctx ops bufs s" "L \<subseteq> dom (op_heap s) - set ops" by (auto simp: live_def)
  have "uinv ctx ops bufs s'" by (rule uinv_frame [OF u(1)]) (use assms in auto)
  then show ?thesis using u(2) assms(3) by (auto simp: live_def)
qed

text \<open>
  What the whole program keeps between two waits: the kernel's view, and which operations and
  buffers exist.
\<close>

definition across :: "'k liburing \<Rightarrow> ptr \<Rightarrow> ('k, 'z) uring_state_scheme \<Rightarrow> ('k, 'z) uring_state_scheme \<Rightarrow> bool" where
  "across U ctx s s' \<longleftrightarrow> kpres U ctx s s' \<and> next_addr s' = next_addr s \<and>
     dom (op_heap s') = dom (op_heap s) \<and> dom (buf_heap s') = dom (buf_heap s)"

lemma across_refl [simp]: "across U ctx s s"
  by (simp add: across_def kpres_refl)

lemma across_trans [trans]: "across U ctx s s' \<Longrightarrow> across U ctx s' s'' \<Longrightarrow> across U ctx s s''"
  by (auto simp: across_def intro: kpres_trans)

lemma kept_across: "kept U ctx s s' \<Longrightarrow> across U ctx s s'"
  by (simp add: across_def kept_def)

lemma kept_more: "kept U ctx s s' \<Longrightarrow> uring_state.more s' = uring_state.more s"
  by (simp add: kept_def)

lemma tls_across: "tls_step s s' \<Longrightarrow> across U ctx s s'"
  by (simp add: across_def tls_stepD)

text \<open>The same after \<^verbatim>\<open>free(p)\<close> of one operation.\<close>

definition across_free :: "ptr \<Rightarrow> ('k, 'z) uring_state_scheme \<Rightarrow> ('k, 'z) uring_state_scheme \<Rightarrow> bool" where
  "across_free p s s' \<longleftrightarrow> next_addr s' = next_addr s \<and> dom (op_heap s') = dom (op_heap s) - ({p} - {NULL}) \<and> buf_heap s' = buf_heap s \<and>
     ctx_heap s' = ctx_heap s \<and> uring_state.more s' = uring_state.more s \<and> kw s' = kw s"

text \<open>
  A received operation that the program still has to release: a single-shot operation the kernel
  no longer knows, or the armed multishot operation with a ring buffer or a buffer given away.
\<close>

definition held :: "ptr \<Rightarrow> ('k, 'z) uring_state_scheme \<Rightarrow> bool" where
  "held p s \<longleftrightarrow> (\<exists>r. op_heap s p = Some r \<and>
     (\<not> is_multi r \<and> p \<notin> set (outstanding (trace s)) \<or>
      is_multi r \<and> p \<in> set (outstanding (trace s)) \<and> buf_idx r \<noteq> -1 \<and> -2 \<le> buf_idx r))"

text \<open>
  What \<^verbatim>\<open>io_op_free\<close> leaves in the caller's variable: NULL, or the multishot operation itself, which
  is not in the pool.
\<close>

lemma free_result:
  assumes u: "uinv ctx ops bufs s" and r: "op_heap s p = Some r" "p \<notin> set ops"
  shows "wp (io_op_free U ctx p) (\<lambda>r' s'. r' = NULL \<or> r' = p \<and> live ctx {p} s') s"
proof -
  have n: "p \<noteq> NULL" by (rule uinv_live_nonnull [OF u r(1)])
  consider (multi) "is_multi r" "0 \<le> buf_idx r" | (armed) "is_multi r" "buf_idx r = DO_NOT_FREE"
    | (other) "\<not> is_multi r \<or> \<not> 0 \<le> buf_idx r \<and> buf_idx r \<noteq> DO_NOT_FREE" by auto
  then show ?thesis
  proof cases
    case multi
    show ?thesis by (rule wp_conseq [OF io_op_free_multi [OF u r multi, where U = U]]) (use r in \<open>auto simp: live_def\<close>)
  next
    case armed
    then show ?thesis using n r u by (auto simp: io_op_free_def wp_simps DO_NOT_FREE_def live_def)
  next
    case other
    from u_free [OF u r, where U = U] obtain a s' where e: "io_op_free U ctx p s = Inr (a, s')" by (auto simp: wp_iff)
    have "a = NULL" using e other r n
      by (auto simp: io_op_free_def bnd_def load_def ret_def c_assert_def throwf_def split: if_splits sum.splits)
    then show ?thesis by (simp add: wp_def e)
  qed
qed

lemma free_err:
  assumes "live ctx {p} s"
  shows "wp (io_op_free U ctx p) (\<lambda>r' s'. (r' = NULL \<or> r' = p \<and> live ctx {p} s') \<and> live ctx {} s' \<and> kept U ctx s s') s"
proof -
  from assms obtain ops bufs r where u: "uinv ctx ops bufs s" "op_heap s p = Some r" "p \<notin> set ops" by (auto simp: live_def)
  show ?thesis
    by (rule wp_conseq [OF wp_conj [OF free_result [OF u] live_free [OF assms singletonI, where U = U]]]) auto
qed

lemma release_ok:
  assumes "gi ctx {p} s" and "held p s"
  shows "wp (io_op_free U ctx p) (\<lambda>r' s'. (r' = NULL \<or> r' = p \<and> live ctx {p} s') \<and> gi ctx {} s' \<and> kept U ctx s s') s"
proof -
  from assms(2) obtain r where r: "op_heap s p = Some r" by (auto simp: held_def)
  have "wp (io_op_free U ctx p) (\<lambda>_ s'. kept U ctx s s' \<and> gi ctx {} s') s"
  proof (cases "is_multi r")
    case True
    show ?thesis
      by (rule wp_conseq [OF g_free_multi [OF assms(1) _ r True]]) (use assms(2) r True in \<open>auto simp: held_def freed_def\<close>)
  next
    case False
    show ?thesis
      by (rule wp_conseq [OF g_free_single [OF assms(1) singletonI _ r False]]) (use assms(2) r False in \<open>auto simp: held_def freed_def\<close>)
  qed
  from wp_conseq [OF wp_conj [OF this free_err [OF gi_live [OF assms(1)], where U = U]]] show ?thesis by auto
qed

text \<open>\<^verbatim>\<open>free(op)\<close> at the end of an event loop: nothing of the pools is touched.\<close>

lemma free_op_ok:
  assumes "p = NULL \<or> live ctx {p} s" and "live ctx {} s"
  shows "wp (free_op p) (\<lambda>_ s'. live ctx {} s' \<and> across_free p s s') s"
proof (cases "p = NULL")
  case True
  then show ?thesis using assms(2) by (simp add: free_op_def wp_ret across_free_def)
next
  case False
  with assms(1) obtain ops bufs r where u: "uinv ctx ops bufs s" "op_heap s p = Some r" "p \<notin> set ops" by (auto simp: live_def)
  let ?s = "s\<lparr>op_heap := (op_heap s)(p := None), trace := Ev_free p # trace s\<rparr>"
  have "uinv ctx ops bufs ?s"
    using u(1)
  proof (rule uinvE, goal_cases)
    case c: (1 c mem)
    have "own ops bufs (nat (br_n_bufs (config c))) ((op_heap s)(p := None)) (buf_heap s) (provided (trace s))"
      using c(11) by (auto simp: own_def split: if_splits)
    moreover have "map_option op_next \<circ> (op_heap s)(p := None) = (map_option op_next \<circ> op_heap s)(p := None)"
      by (simp add: fun_eq_iff)
    ultimately show ?case using c u(3) by (auto simp: uinv_def ring_ok_def nx_comp)
  qed
  then have "live ctx {} ?s" unfolding live_def by blast
  then show ?thesis using False u(2) by (auto simp: free_op_def wp_simps across_free_def)
qed

lemma received_held: "received ctx p s \<Longrightarrow> gi ctx {p} s \<and> held p s"
  by (auto simp: received_def held_def)

text \<open>
  What a handler of a received packet \<open>p\<close> leaves: on success (0) the ledger with \<open>p\<close> still to be
  released, on failure (-1) the ownership invariant.
\<close>

definition handled :: "'k liburing \<Rightarrow> ptr \<Rightarrow> ptr \<Rightarrow> ('k, 'z) uring_state_scheme \<Rightarrow> int \<Rightarrow> ('k, 'z) uring_state_scheme \<Rightarrow> bool" where
  "handled U ctx p s rc s' \<longleftrightarrow> across U ctx s s' \<and>
     (rc = 0 \<and> gi ctx {p} s' \<and> held p s' \<or> rc = -1 \<and> live ctx {p} s')"

section \<open>Reading packets\<close>

lemma print_ip_packet_info_wp:
  assumes "40 \<le> length p"
  shows "wp (print_ip_packet_info p n) (\<lambda>_ s'. s' = s) s"
proof -
  have "p \<noteq> []" using assms by auto
  then show ?thesis using assms by (simp add: wp_def print_ip_packet_info_def exec_simps exec_rd_bytes Let_def)
qed

lemma object_at_valid:
  assumes u: "uinv ctx ops bufs s" and m: "valid_mem ctx s m n"
  shows "wp (object_at m) (\<lambda>bs s'. s' = s \<and> n \<le> length bs) s"
  using u
proof (rule uinvE, goal_cases)
  case c: (1 c mem)
  then show ?case using m
    by (cases m) (auto simp: wp_simps valid_mem_def buf_sizes_def domI intro!: Nat.gr0I split: option.splits)
qed

lemma print_packet_heap:
  assumes u: "uinv ctx ops bufs s" and m: "valid_mem ctx s m n" "40 \<le> n"
  shows "wp (print_packet (Heap m) k) (\<lambda>_ s'. s' = s) s"
  unfolding print_packet_def read_src.simps
proof (rule wp_bndI [OF object_at_valid [OF u m(1)]], goal_cases)
  case (1 bs s')
  then show ?case using m(2) print_ip_packet_info_wp [of bs k s'] by (simp add: wp_simps)
qed

section \<open>Without DTLS\<close>

definition conn_ok :: "ptr \<Rightarrow> ('k, 't) net_state \<Rightarrow> bool" where
  "conn_ok conn s \<longleftrightarrow> conn \<noteq> NULL \<and> (\<exists>c. conn_heap s conn = Some c \<and> length (conn_addr c) = SOCKADDR_STORAGE \<and>
     conn_addr_len c \<le> SOCKADDR_STORAGE)"

lemma receivedE:
  assumes "received ctx p s" and "op_heap s p = Some r"
  obtains ops bufs where "ginv ctx ops bufs {p} s" and "packet_ok ctx r s" and "p \<noteq> NULL"
    and "\<not> is_multi r \<and> op_type r \<in> {OP_TYPE_TUN_READ, OP_TYPE_UDP_RECV} \<and> op_buf_addr r \<noteq> NULL \<and> p \<notin> set (outstanding (trace s)) \<or>
      is_multi r \<and> op_type r = OP_TYPE_UDP_RECV \<and> 0 \<le> buf_idx r \<and> 0 < data_len r \<and> p \<in> set (outstanding (trace s))"
proof -
  from assms(1) obtain ops bufs where g: "ginv ctx ops bufs {p} s" by (auto simp: received_def gi_def)
  show ?thesis
    by (rule that [OF g _ uinv_live_nonnull [OF ginvD(1) [OF g] assms(2)]]) (use assms in \<open>auto simp: received_def\<close>)
qed

lemma print_received:
  assumes "received ctx p s" and "op_heap s p = Some r"
  shows "wp (print_packet (Heap (op_buffer r)) k) (\<lambda>_ s'. s' = s) s"
  by (rule receivedE [OF assms]) (rule print_packet_heap [OF ginvD(1)], auto simp: packet_ok_def)

text \<open>
  After the submission of the operation that took the buffer over: a failed one is released.
\<close>

lemma free_after:
  assumes "live ctx (insert q L) s1" and "q \<notin> L" and k: "across U ctx s s1" and m: "uring_state.more s1 = z"
  shows "wp (bnd (io_op_free U ctx q) (\<lambda>_. ret (-1)))
    (\<lambda>rc s'. rc = (-1 :: int) \<and> live ctx L s' \<and> across U ctx s s' \<and> uring_state.more s' = z) s1"
proof (rule wp_bndI [OF live_free [OF assms(1) insertI1, where U = U]], goal_cases)
  case (1 a s')
  then have "kept U ctx s1 s'" by simp
  from across_trans [OF k kept_across [OF this]] kept_more [OF this] 1 assms(2) m show ?case by (simp add: wp_ret)
qed

lemma sent_or_freed:
  assumes k: "across U ctx s s1" and q: "op_heap s1 p = Some r" "p \<noteq> q"
    and h: "\<not> is_multi r \<and> p \<notin> set (outstanding (trace s1)) \<or>
      is_multi r \<and> p \<in> set (outstanding (trace s1)) \<and> buf_idx r \<noteq> -1 \<and> -2 \<le> buf_idx r"
    and t: "sent U ctx {p} q s1 rc s2" and m: "uring_state.more s1 = z"
  shows "wp (if rc < 0 then bnd (io_op_free U ctx q) (\<lambda>_. ret (-1)) else ret 0)
    (\<lambda>rc s'. handled U ctx p s rc s' \<and> uring_state.more s' = z) s2"
proof (cases "rc < 0")
  case True
  then have l: "live ctx (insert q {p}) s2" and k2: "kept U ctx s1 s2" using t by (auto simp: sent_def)
  have "wp (bnd (io_op_free U ctx q) (\<lambda>_. ret (-1))) (\<lambda>rc s'. handled U ctx p s rc s' \<and> uring_state.more s' = z) s2"
    by (rule wp_conseq [OF free_after [OF l _ across_trans [OF k kept_across [OF k2]]]])
      (use q(2) kept_more [OF k2] m in \<open>auto simp: handled_def\<close>)
  then show ?thesis using True by simp
next
  case False
  then have s2: "gi ctx {p} s2" "outstanding (trace s2) = q # outstanding (trace s1)" "op_heap s2 p = Some r"
    and k2: "kept U ctx s1 s2" using t q by (auto simp: sent_def)
  then have "held p s2" using h q(2) by (auto simp: held_def)
  then show ?thesis using False s2 across_trans [OF k kept_across [OF k2]] kept_more [OF k2] m
    by (simp add: wp_ret handled_def)
qed

lemma tun_to_udp_ok:
  assumes rc: "received ctx p s" and r: "op_heap s p = Some r" and t: "op_type r = OP_TYPE_TUN_READ" and c: "conn_ok conn s"
  shows "wp (tun_to_udp U conn p ctx) (\<lambda>rc s'. handled U ctx p s rc s' \<and> uring_state.more s' = uring_state.more s) s"
proof (rule receivedE [OF rc r], goal_cases)
  case (1 ops bufs)
  let ?Q = "\<lambda>rc s'. handled U ctx p s rc s' \<and> uring_state.more s' = uring_state.more s"
  from c obtain c where c: "conn \<noteq> NULL" "conn_heap s conn = Some c" "length (conn_addr c) = SOCKADDR_STORAGE"
    "conn_addr_len c \<le> SOCKADDR_STORAGE" by (auto simp: conn_ok_def)
  have g: "gi ctx {p} s" using 1 by (auto simp: gi_def)
  have o: "\<not> is_multi r" "op_buf_addr r \<noteq> NULL" "p \<notin> set (outstanding (trace s))" using 1 t by (auto simp: op_type_defs)
  have "wp (bnd (io_op_alloc_buf ctx OP_TYPE_UDP_SEND (udp_fd c) False p) (\<lambda>send_op.
     if send_op = NULL then ret (-1) else
     bnd (load op_heap send_op) (\<lambda>o'.
     bnd (iouring_submit_udp_send U ctx send_op (Some (conn_addr c)) (conn_addr_len c) None (data_len o')) (\<lambda>rc.
     if rc < 0 then bnd (io_op_free U ctx send_op) (\<lambda>_. ret (-1)) else ret 0)))) ?Q s"
  proof (rule wp_bndI [OF g_transfer [OF g singletonI o(3) r o(1) refl o(2), where U = U]], goal_cases)
    case (1 q s1)
    show ?case
    proof (cases "q = NULL")
      case True
      then show ?thesis using 1 g by (auto simp: transferred_def wp_simps handled_def intro: gi_live)
    next
      case False
      let ?r = "(new_op OP_TYPE_UDP_SEND (udp_fd c) (op_buf_addr r))\<lparr>data_len := data_len r\<rparr>"
      have s1: "kept U ctx s s1" "gi ctx (insert q {p}) s1" "q \<noteq> p" "q \<notin> set (outstanding (trace s1))" "trace s1 = trace s"
        "op_heap s1 q = Some ?r" "op_heap s1 p = Some (r\<lparr>op_buf_addr := NULL\<rparr>)"
        using 1 False by (auto simp: transferred_def)
      have "wp (iouring_submit_udp_send U ctx q (Some (conn_addr c)) (conn_addr_len c) None (data_len r)) (sent U ctx {p} q s1) s1"
        by (rule sent_udp_send [OF s1(2) _ s1(4,6)]) (use c o s1(3) in \<open>auto simp: new_op_def in_place_def\<close>)
      then have "wp (bnd (iouring_submit_udp_send U ctx q (Some (conn_addr c)) (conn_addr_len c) None (data_len r)) (\<lambda>rc.
        if rc < 0 then bnd (io_op_free U ctx q) (\<lambda>_. ret (-1)) else ret 0)) ?Q s1"
        by (rule wp_bndI) (rule sent_or_freed [OF kept_across [OF s1(1)] s1(7)], use s1 o in \<open>auto simp: kept_def\<close>)
      then show ?thesis using False s1 by (simp add: wp_bnd wp_load)
    qed
  qed
  then show ?thesis
    unfolding tun_to_udp_def
    by (intro wp_loadI [where h = op_heap, OF r] wp_skipI [OF print_received [OF rc r]] wp_loadI [where h = conn_heap, OF c(2)]) (use 1 c in auto)
qed

lemma udp_to_tun_ok:
  assumes rc: "received ctx p s" and r: "op_heap s p = Some r"
  shows "wp (udp_to_tun U tunfd p ctx) (\<lambda>rc s'. handled U ctx p s rc s' \<and> uring_state.more s' = uring_state.more s) s"
proof (rule receivedE [OF rc r], goal_cases)
  case (1 ops bufs)
  let ?Q = "\<lambda>rc s'. handled U ctx p s rc s' \<and> uring_state.more s' = uring_state.more s"
  have g: "gi ctx {p} s" using 1 by (auto simp: gi_def)
  have pk: "packet_ok ctx r s" using 1 by simp
  have step: "wp (if q = NULL then ret (-1) else
     bnd (load op_heap p) (\<lambda>r.
     bnd (iouring_submit_tun_write U ctx q None (data_len r)) (\<lambda>rc.
     if rc < 0 then bnd (io_op_free U ctx q) (\<lambda>_. ret (-1)) else ret 0))) ?Q s1"
    if tr: "transferred U ctx {p} p s q rq rp s1" and rq: "op_type rq = OP_TYPE_TUN_WRITE" "\<not> is_multi rq" "data_len rq = data_len rp"
      and rp: "\<not> is_multi rp \<and> p \<notin> set (outstanding (trace s)) \<or>
        is_multi rp \<and> p \<in> set (outstanding (trace s)) \<and> buf_idx rp \<noteq> -1 \<and> -2 \<le> buf_idx rp" for q rq rp s1
  proof (cases "q = NULL")
    case True
    then show ?thesis using tr g by (auto simp: transferred_def wp_simps handled_def intro: gi_live)
  next
    case False
    have s1: "kept U ctx s s1" "gi ctx (insert q {p}) s1" "q \<noteq> p" "q \<notin> set (outstanding (trace s1))" "trace s1 = trace s"
      "op_heap s1 q = Some rq" "op_heap s1 p = Some rp"
      using tr False by (auto simp: transferred_def)
    have "wp (iouring_submit_tun_write U ctx q None (data_len rp)) (sent U ctx {p} q s1) s1"
      by (rule sent_tun_write [OF s1(2) _ s1(4,6)]) (use rq s1(3) in \<open>auto simp: in_place_def\<close>)
    then have "wp (bnd (iouring_submit_tun_write U ctx q None (data_len rp)) (\<lambda>rc.
      if rc < 0 then bnd (io_op_free U ctx q) (\<lambda>_. ret (-1)) else ret 0)) ?Q s1"
      by (rule wp_bndI) (rule sent_or_freed [OF kept_across [OF s1(1)] s1(7)], use s1 rp in \<open>auto simp: kept_def\<close>)
    then show ?thesis using False s1 1 by (simp add: wp_bnd wp_load)
  qed
  have "wp (bnd (io_op_alloc_buf ctx OP_TYPE_TUN_WRITE tunfd False p) (\<lambda>send_op.
     if send_op = NULL then ret (-1) else
     bnd (load op_heap p) (\<lambda>r.
     bnd (iouring_submit_tun_write U ctx send_op None (data_len r)) (\<lambda>rc.
     if rc < 0 then bnd (io_op_free U ctx send_op) (\<lambda>_. ret (-1)) else ret 0)))) ?Q s"
  proof (cases "is_multi r")
    case True
    show ?thesis
    proof (rule wp_bndI [OF g_transfer_ring [OF g singletonI r True, where U = U]], goal_cases)
      case t: (1 q s1)
      show ?case by (rule step [OF t]) (use 1 True in \<open>auto simp: zero_op_def DO_NOT_FREE_def\<close>)
    qed
  next
    case False
    then have o: "op_buf_addr r \<noteq> NULL" "p \<notin> set (outstanding (trace s))" using 1 by auto
    show ?thesis
    proof (rule wp_bndI [OF g_transfer [OF g singletonI o(2) r False refl o(1), where U = U]], goal_cases)
      case t: (1 q s1)
      show ?case by (rule step [OF t]) (use o False in \<open>auto simp: new_op_def zero_op_def\<close>)
    qed
  qed
  then show ?thesis
    unfolding udp_to_tun_def by (intro wp_loadI [where h = op_heap, OF r] wp_skipI [OF print_received [OF rc r]]) (use 1 in auto)
qed
section \<open>With DTLS\<close>

lemma more_eqD:
  assumes "uring_state.more s' = uring_state.more (s :: ('k, 't) net_state)"
  shows "conn_heap s' = conn_heap s" and "tw s' = tw s" and "fwd_heap s' = fwd_heap s"
    and "tun_heap s' = tun_heap s" and "dtls_heap s' = dtls_heap s"
  using assms by (cases s; cases s'; simp)+

text \<open>At least \<open>n\<close> readable bytes.\<close>

definition src_ok :: "ptr \<Rightarrow> ('k, 'z) uring_state_scheme \<Rightarrow> bytes_at \<Rightarrow> nat \<Rightarrow> bool" where
  "src_ok ctx s d n = (case d of Stack bs \<Rightarrow> n \<le> length bs | Heap m \<Rightarrow> valid_mem ctx s m n)"

lemma read_src_ok:
  assumes "uinv ctx ops bufs s" and "src_ok ctx s d n"
  shows "wp (read_src d) (\<lambda>bs s'. s' = s \<and> n \<le> length bs) s"
  using assms object_at_valid [OF assms(1)] by (cases d) (auto simp: src_ok_def wp_simps)

lemma print_packet_ok:
  assumes "uinv ctx ops bufs s" and "src_ok ctx s d n" and "40 \<le> n"
  shows "wp (print_packet d k) (\<lambda>_ s'. s' = s) s"
  unfolding print_packet_def
proof (rule wp_bndI [OF read_src_ok [OF assms(1,2)]], goal_cases)
  case (1 bs s')
  then show ?case using assms(3) print_ip_packet_info_wp [of bs k s'] by (simp add: wp_simps)
qed

lemma src_ok_kept: "kept U ctx s s' \<Longrightarrow> src_ok ctx s d n \<Longrightarrow> src_ok ctx s' d n"
  by (auto simp: src_ok_def intro: valid_mem_kept split: bytes_at.splits)

text \<open>The bytes of a packet are put into the buffer of a new operation \<open>q\<close>.\<close>

lemma fill_op_ok:
  assumes g: "gi ctx L s" and q: "q \<in> L" "q \<notin> set (outstanding (trace s))" and r: "op_heap s q = Some r" "op_buf_addr r \<noteq> NULL"
    and n: "length bs \<le> BUF_SIZE"
  shows "wp (fill_op q n bs) (\<lambda>_ s'. kept U ctx s s' \<and> trace s' = trace s \<and> gi ctx L s' \<and>
    op_heap s' = (op_heap s)(q \<mapsto> r\<lparr>data_len := n\<rparr>)) s"
proof -
  obtain ops bufs where g: "ginv ctx ops bufs L s" using g by (auto simp: gi_def)
  note u = ginvD(1) [OF g] and qn = ginv_local(1) [OF g q(1)]
  have q0: "q \<noteq> NULL" by (rule uinv_live_nonnull [OF u r(1)])
  have v: "valid_mem ctx s (op_buffer r) (length bs)" using live_buf [OF u r(1) qn r(2)] n by (auto simp: valid_mem_def)
  show ?thesis
    unfolding fill_op_def
  proof (rule wp_loadI [where h = op_heap, OF r(1) q0], rule wp_bndI [OF store_bytes_uinv [OF u v]], goal_cases)
    case (1 _ s1)
    then have m: "same_but_mem ctx s s1" and u1: "uinv ctx ops bufs s1" by auto
    have g1: "ginv ctx ops bufs L s1" by (rule ginv_mem [OF g u1 m])
    have h: "op_heap s1 = op_heap s" "trace s1 = trace s" using m by (auto simp: same_but_mem_def)
    have "ginv ctx ops bufs L (s1\<lparr>op_heap := (op_heap s1)(q \<mapsto> r\<lparr>data_len := n\<rparr>)\<rparr>)"
      by (rule g_upd_local [OF g1 q(1)]) (use r q h in \<open>auto simp: same_slot_def\<close>)
    then have "gi ctx L (s1\<lparr>op_heap := (op_heap s1)(q \<mapsto> r\<lparr>data_len := n\<rparr>)\<rparr>)" by (auto simp: gi_def)
    moreover have "kept U ctx s (s1\<lparr>op_heap := (op_heap s1)(q \<mapsto> r\<lparr>data_len := n\<rparr>)\<rparr>)"
      using m r by (auto simp: kept_def same_but_mem_def kpres_def)
    ultimately show ?case using q0 r h by (simp add: wp_simps)
  qed
qed

text \<open>The new operation \<open>q\<close> is filled (\<open>n\<close> bytes, negative for a failure) and sent off, or released.\<close>

lemma fill_and_send:
  assumes k: "across U ctx s s2" and g: "gi ctx {q, p} s2" and pq: "p \<noteq> q"
    and q: "q \<notin> set (outstanding (trace s2))" "op_heap s2 q = Some r" "op_buf_addr r \<noteq> NULL" and n: "length bs \<le> BUF_SIZE"
    and p: "held p s2"
    and sub: "\<And>s3. kept U ctx s2 s3 \<Longrightarrow> trace s3 = trace s2 \<Longrightarrow> gi ctx {q, p} s3 \<Longrightarrow>
      op_heap s3 = (op_heap s2)(q \<mapsto> r\<lparr>data_len := n\<rparr>) \<Longrightarrow> \<not> n < 0 \<Longrightarrow> wp (sub n) (sent U ctx {p} q s3) s3"
  shows "wp (bnd (fill_op q n bs) (\<lambda>_.
     if n < 0 then bnd (io_op_free U ctx q) (\<lambda>_. ret (-1)) else
     bnd (sub n) (\<lambda>rc. if rc < 0 then bnd (io_op_free U ctx q) (\<lambda>_. ret (-1)) else ret 0)))
    (\<lambda>rc s'. handled U ctx p s rc s' \<and> uring_state.more s' = uring_state.more s2) s2"
proof (rule wp_bndI [OF fill_op_ok [OF g insertI1 q n, where U = U and n = n]], goal_cases)
  case (1 _ s3)
  then have s3: "kept U ctx s2 s3" "trace s3 = trace s2" "gi ctx {q, p} s3" "op_heap s3 = (op_heap s2)(q \<mapsto> r\<lparr>data_len := n\<rparr>)"
    by auto
  from p pq s3 obtain rp where rp: "op_heap s3 p = Some rp" "\<not> is_multi rp \<and> p \<notin> set (outstanding (trace s3)) \<or>
      is_multi rp \<and> p \<in> set (outstanding (trace s3)) \<and> buf_idx rp \<noteq> -1 \<and> -2 \<le> buf_idx rp" by (auto simp: held_def)
  have k3: "across U ctx s s3" "uring_state.more s3 = uring_state.more s2"
    using across_trans [OF k kept_across [OF s3(1)]] s3(1) by (auto simp: kept_def)
  show ?case
  proof (cases "n < 0")
    case True
    have "wp (bnd (io_op_free U ctx q) (\<lambda>_. ret (-1)))
      (\<lambda>rc s'. handled U ctx p s rc s' \<and> uring_state.more s' = uring_state.more s2) s3"
      by (rule wp_conseq [OF free_after [OF gi_live [OF s3(3)] _ k3]]) (use pq in \<open>auto simp: handled_def\<close>)
    then show ?thesis using True by simp
  next
    case False
    have "wp (bnd (sub n) (\<lambda>rc. if rc < 0 then bnd (io_op_free U ctx q) (\<lambda>_. ret (-1)) else ret 0))
      (\<lambda>rc s'. handled U ctx p s rc s' \<and> uring_state.more s' = uring_state.more s2) s3"
      by (rule wp_bndI [OF sub [OF s3 False] sent_or_freed [OF k3(1) rp(1) pq rp(2) _ k3(2)]])
    then show ?thesis using False by simp
  qed
qed

text \<open>
  After the packet has gone through OpenSSL (from \<open>s1\<close>, where the new operation \<open>q\<close> has been
  allocated, to \<open>s2\<close>) the ledger is as before.
\<close>

lemma alloc_tls:
  assumes a: "allocated U ctx {p} typ fd s q s1" "q \<noteq> NULL" and t: "tls_step s1 s2" and h: "held p s"
  shows "across U ctx s s2" and "gi ctx {q, p} s2" and "p \<noteq> q"
    and "q \<notin> set (outstanding (trace s2))" and "\<exists>b. b \<noteq> NULL \<and> op_heap s2 q = Some (new_op typ fd b)" and "held p s2"
    and "conn_heap s2 = conn_heap s" and "fwd_heap s2 = fwd_heap s"
proof -
  note ta = tls_across [OF t] and t = tls_stepD [OF t]
  have a: "kept U ctx s s1" "q \<noteq> p" "gi ctx {q, p} s1" "q \<notin> set (outstanding (trace s1))" "trace s1 = trace s"
    "\<exists>b. b \<noteq> NULL \<and> op_heap s1 q = Some (new_op typ fd b)" "op_heap s1 p = op_heap s p"
    using a by (auto simp: allocated_def)
  show "across U ctx s s2" by (rule across_trans [OF kept_across [OF a(1)] ta])
  show "gi ctx {q, p} s2" by (rule gi_env [OF a(3)]) (use t in auto)
  show "p \<noteq> q" "q \<notin> set (outstanding (trace s2))" "\<exists>b. b \<noteq> NULL \<and> op_heap s2 q = Some (new_op typ fd b)"
    using a t(3,10) by auto
  show "held p s2" using h a(5,7) t(3,10) by (auto simp: held_def)
  have "uring_state.more s1 = uring_state.more s" using a(1) by (simp add: kept_def)
  from more_eqD [OF this] show "conn_heap s2 = conn_heap s" "fwd_heap s2 = fwd_heap s" using t(9,11) by auto
qed

lemma int_of_size_small: "n \<le> BUF_SIZE \<Longrightarrow> int_of_size n = int n"
  by (simp add: int_of_size_def BUF_SIZE_def)

text \<open>
  Both directions: a new operation is allocated, OpenSSL produces its bytes, it is filled and
  sent off.
\<close>

lemma new_packet_ok:
  assumes g: "gi ctx {p} s" and h: "held p s"
    and prod: "\<And>q s1. kept U ctx s s1 \<Longrightarrow> gi ctx {q, p} s1 \<Longrightarrow>
      wp produce (\<lambda>(n, bs) s2. tls_step s1 s2 \<and> length bs \<le> BUF_SIZE) s1"
    and sub: "\<And>q b n s3. gi ctx {q, p} s3 \<Longrightarrow> q \<noteq> p \<Longrightarrow> q \<notin> set (outstanding (trace s3)) \<Longrightarrow> b \<noteq> NULL \<Longrightarrow>
      op_heap s3 q = Some ((new_op typ fd b)\<lparr>data_len := n\<rparr>) \<Longrightarrow> \<not> n < 0 \<Longrightarrow> wp (sub q n) (sent U ctx {p} q s3) s3"
  shows "wp (bnd (io_op_alloc ctx typ fd False) (\<lambda>op. if op = NULL then ret (-1) else
     bnd produce (\<lambda>(n, bs). bnd (fill_op op n bs) (\<lambda>_.
     if n < 0 then bnd (io_op_free U ctx op) (\<lambda>_. ret (-1)) else
     bnd (sub op n) (\<lambda>rc. if rc < 0 then bnd (io_op_free U ctx op) (\<lambda>_. ret (-1)) else ret 0)))))
    (\<lambda>rc s'. handled U ctx p s rc s' \<and> conn_heap s' = conn_heap s \<and> fwd_heap s' = fwd_heap s) s"
proof (rule wp_bndI [OF g_alloc [OF g, where U = U]], goal_cases)
  case al: (1 q s1)
  let ?Q = "\<lambda>rc s'. handled U ctx p s rc s' \<and> conn_heap s' = conn_heap s \<and> fwd_heap s' = fwd_heap s"
  show ?case
  proof (cases "q = NULL")
    case True
    then have "kept U ctx s s1" "gi ctx {p} s1" using al by (auto simp: allocated_def)
    with True kept_across [OF this(1)] more_eqD [OF kept_more [OF this(1)]] show ?thesis
      by (simp add: wp_ret handled_def gi_live)
  next
    case False
    have k1: "kept U ctx s s1" "gi ctx {q, p} s1" using al False by (auto simp: allocated_def)
    have "wp (bnd produce (\<lambda>(n, bs). bnd (fill_op q n bs) (\<lambda>_.
      if n < 0 then bnd (io_op_free U ctx q) (\<lambda>_. ret (-1)) else
      bnd (sub q n) (\<lambda>rc. if rc < 0 then bnd (io_op_free U ctx q) (\<lambda>_. ret (-1)) else ret 0)))) ?Q s1"
    proof (rule wp_bndI [OF prod [OF k1]], goal_cases)
      case (1 nb s2)
      then obtain n bs where nb: "nb = (n, bs)" and t: "tls_step s1 s2" and n: "length bs \<le> BUF_SIZE" by (cases nb) auto
      note a2 = alloc_tls [OF al False t h]
      from a2(5) obtain b where b: "b \<noteq> NULL" "op_heap s2 q = Some (new_op typ fd b)" by auto
      have "wp (bnd (fill_op q n bs) (\<lambda>_. if n < 0 then bnd (io_op_free U ctx q) (\<lambda>_. ret (-1)) else
        bnd (sub q n) (\<lambda>rc. if rc < 0 then bnd (io_op_free U ctx q) (\<lambda>_. ret (-1)) else ret 0)))
        (\<lambda>rc s'. handled U ctx p s rc s' \<and> uring_state.more s' = uring_state.more s2) s2"
      proof (rule fill_and_send [OF a2(1-4) b(2) _ n a2(6)], goal_cases)
        case (2 s3)
        then show ?case using a2(3,4) b by (intro sub) auto
      qed (use b in \<open>simp add: new_op_def\<close>)
      then show ?case unfolding nb using more_eqD(1,3) [of _ s2] a2(7,8)
        by (auto simp: wp_case_prod elim!: wp_conseq)
    qed
    then show ?thesis using False by simp
  qed
qed

text \<open>A connection with its SSL object.\<close>

definition conn_tls :: "ptr \<Rightarrow> ('k, 't) net_state \<Rightarrow> bool" where
  "conn_tls conn s \<longleftrightarrow> conn_ok conn s \<and> (\<exists>c. conn_heap s conn = Some c \<and> conn_ssl c \<noteq> NULL)"

lemma kept_conn: "kept U ctx s s1 \<Longrightarrow> conn_heap s1 = conn_heap (s :: ('k, 't) net_state)"
  by (rule more_eqD(1)) (simp add: kept_def)

lemma encrypt_and_send_ok:
  assumes T: "openssl_ok T" and g: "gi ctx {p} s" and h: "held p s" and d: "src_ok ctx s d (max 40 len)" and len: "len \<le> BUF_SIZE"
    and c: "conn_tls conn s"
  shows "wp (dtls_encrypt_and_send_udp T U conn d len ctx)
    (\<lambda>rc s'. handled U ctx p s rc s' \<and> conn_heap s' = conn_heap s \<and> fwd_heap s' = fwd_heap s) s"
proof -
  obtain c where c: "conn \<noteq> NULL" "conn_heap s conn = Some c" "conn_ssl c \<noteq> NULL"
    and ca: "length (conn_addr c) = SOCKADDR_STORAGE" "conn_addr_len c \<le> SOCKADDR_STORAGE"
    using c by (auto simp: conn_tls_def conn_ok_def)
  obtain ops bufs where u: "uinv ctx ops bufs s" using g by (auto simp: gi_def ginv_def)
  have prod: "wp (bnd (read_src d) (\<lambda>x. dtls_encrypt_packet T conn x (int_of_size len) (int BUF_SIZE)))
      (\<lambda>(n, bs) s2. tls_step s1 s2 \<and> length bs \<le> BUF_SIZE) s1" if k: "kept U ctx s s1" and g1: "gi ctx {q, p} s1" for q s1
  proof -
    from g1 obtain ops' bufs' where u1: "uinv ctx ops' bufs' s1" by (auto simp: gi_def ginv_def)
    have c1: "conn_heap s1 conn = Some c" using c(2) kept_conn [OF k] by simp
    show ?thesis
    proof (rule wp_bndI [OF read_src_ok [OF u1 src_ok_kept [OF k d]]], goal_cases)
      case (1 x s')
      then have x: "nat (int_of_size len) \<le> length x" and s': "s' = s1" using int_of_size_small [OF len] by auto
      show ?case unfolding s' by (rule wp_conseq [OF encrypt_ok [OF T c(1) c1 c(3) x]]) auto
    qed
  qed
  have "wp (bnd (io_op_alloc ctx OP_TYPE_UDP_SEND (udp_fd c) False) (\<lambda>op. if op = NULL then ret (-1) else
     bnd (bnd (read_src d) (\<lambda>x. dtls_encrypt_packet T conn x (int_of_size len) (int BUF_SIZE))) (\<lambda>(n, bs).
     bnd (fill_op op n bs) (\<lambda>_. if n < 0 then bnd (io_op_free U ctx op) (\<lambda>_. ret (-1)) else
     bnd (iouring_submit_udp_send U ctx op (Some (conn_addr c)) (conn_addr_len c) None n) (\<lambda>rc.
     if rc < 0 then bnd (io_op_free U ctx op) (\<lambda>_. ret (-1)) else ret 0)))))
    (\<lambda>rc s'. handled U ctx p s rc s' \<and> conn_heap s' = conn_heap s \<and> fwd_heap s' = fwd_heap s) s"
  proof (rule new_packet_ok [OF g h prod], goal_cases)
    case (3 q b n s3)
    show ?case by (rule sent_udp_send [OF 3(1)]) (use 3 ca in \<open>auto simp: new_op_def in_place_def\<close>)
  qed auto
  then show ?thesis
    unfolding dtls_encrypt_and_send_udp_def bnd_assoc
    by (intro wp_skipI [OF print_packet_ok [OF u d]] wp_loadI [where h = conn_heap, OF c(2,1)]) auto
qed

lemma decrypt_and_write_ok:
  assumes T: "openssl_ok T" and g: "gi ctx {p} s" and h: "held p s" and d: "src_ok ctx s d (nat len)" and len: "len < int BUF_SIZE"
    and c: "conn_tls conn s"
  shows "wp (dtls_decrypt_and_write_tun T U conn tunfd d len ctx)
    (\<lambda>rc s'. handled U ctx p s rc s' \<and> conn_heap s' = conn_heap s \<and> fwd_heap s' = fwd_heap s) s"
proof -
  obtain c where c: "conn \<noteq> NULL" "conn_heap s conn = Some c" "conn_ssl c \<noteq> NULL"
    using c by (auto simp: conn_tls_def conn_ok_def)
  have prod: "wp (bnd (read_src d) (\<lambda>x. dtls_decrypt_packet T conn x len (int BUF_SIZE)))
      (\<lambda>(n, bs) s2. tls_step s1 s2 \<and> length bs \<le> BUF_SIZE) s1" if k: "kept U ctx s s1" and g1: "gi ctx {q, p} s1" for q s1
  proof -
    from g1 obtain ops' bufs' where u1: "uinv ctx ops' bufs' s1" by (auto simp: gi_def ginv_def)
    have c1: "conn_heap s1 conn = Some c" using c(2) kept_conn [OF k] by simp
    show ?thesis
    proof (rule wp_bndI [OF read_src_ok [OF u1 src_ok_kept [OF k d]]], goal_cases)
      case (1 x s')
      then have x: "nat len \<le> length x" and s': "s' = s1" by auto
      show ?case unfolding s'
        by (rule wp_conseq [OF decrypt_ok [OF T c(1) c1 c(3) x len]]) (use len in \<open>auto simp: read_result_def split: if_splits\<close>)
    qed
  qed
  let ?sub = "\<lambda>q (n :: int). bnd (load op_heap q) (\<lambda>r. bnd (print_packet (Heap (op_buffer r)) (size_of_int (data_len r))) (\<lambda>_.
     bnd (upd_op q (\<lambda>r. r\<lparr>op_fd := tunfd\<rparr>)) (\<lambda>_. iouring_submit_tun_write U ctx q None (data_len r))))"
  have "wp (bnd (io_op_alloc ctx OP_TYPE_TUN_WRITE tunfd False) (\<lambda>op. if op = NULL then ret (-1) else
     bnd (bnd (read_src d) (\<lambda>x. dtls_decrypt_packet T conn x len (int BUF_SIZE))) (\<lambda>(n, bs).
     bnd (fill_op op n bs) (\<lambda>_. if n < 0 then bnd (io_op_free U ctx op) (\<lambda>_. ret (-1)) else
     bnd (?sub op n) (\<lambda>rc. if rc < 0 then bnd (io_op_free U ctx op) (\<lambda>_. ret (-1)) else ret 0)))))
    (\<lambda>rc s'. handled U ctx p s rc s' \<and> conn_heap s' = conn_heap s \<and> fwd_heap s' = fwd_heap s) s"
  proof (rule new_packet_ok [OF g h prod], goal_cases)
    case (3 q b n s3)
    let ?r = "(new_op OP_TYPE_TUN_WRITE tunfd b)\<lparr>data_len := n\<rparr>"
    obtain ops bufs where g3: "ginv ctx ops bufs {q, p} s3" using 3(1) by (auto simp: gi_def)
    note u3 = ginvD(1) [OF g3] and q0 = uinv_live_nonnull [OF ginvD(1) [OF g3] 3(5)]
    have v: "valid_mem ctx s3 (op_buffer ?r) 40"
      using live_buf(1) [OF u3 3(5) ginv_local(1) [OF g3 insertI1]] 3(4) by (auto simp: valid_mem_def new_op_def BUF_SIZE_def)
    have "(op_heap s3)(q \<mapsto> ?r\<lparr>op_fd := tunfd\<rparr>) = op_heap s3" using 3(5) by (auto simp: fun_eq_iff new_op_def)
    then have upd: "wp (upd_op q (\<lambda>r. r\<lparr>op_fd := tunfd\<rparr>)) (\<lambda>_ s'. s' = s3) s3" using 3(5) q0 by (simp add: wp_simps)
    have "wp (iouring_submit_tun_write U ctx q None (data_len ?r)) (sent U ctx {p} q s3) s3"
      by (rule sent_tun_write [OF 3(1)]) (use 3 in \<open>auto simp: new_op_def in_place_def zero_op_def\<close>)
    then show ?case
      by (intro wp_loadI [where h = op_heap, OF 3(5) q0] wp_skipI [OF print_packet_heap [OF u3 v order_refl]] wp_skipI [OF upd])
  qed auto
  then show ?thesis
    unfolding dtls_decrypt_and_write_tun_def bnd_assoc .
qed

end
