(* ===== verification/Recv_Kinds.thy ===== *)
theory Recv_Kinds
  imports Packet_Recv
begin

text \<open>
  The build uses multishot receives for UDP: every receive operation ever allocated for a socket is
  a multishot operation. \<open>stable_on F m\<close> says that the program \<open>m\<close> keeps it so, and receives from no other sockets than before. The fact matters for
  decryption, which asserts that a datagram is shorter than a buffer: this is true of ring buffers
  (header and address take room) and not of single-shot receives. The sockets matter for the handshake, which drops what it
  gets from a foreign one.
\<close>

definition recv_on :: "int set \<Rightarrow> io_op \<Rightarrow> bool" where
  "recv_on F r \<longleftrightarrow> (op_type r = OP_TYPE_UDP_RECV \<longrightarrow> is_multi r \<and> op_fd r \<in> F)"

definition all_recv :: "int set \<Rightarrow> ('k, 'z) uring_state_scheme \<Rightarrow> bool" where
  "all_recv F s \<longleftrightarrow> (\<forall>p r. op_heap s p = Some r \<longrightarrow> recv_on F r)"

abbreviation all_multi :: "('k, 'z) uring_state_scheme \<Rightarrow> bool" where
  "all_multi \<equiv> all_recv UNIV"

definition stable_on :: "int set \<Rightarrow> (('k, 'z) uring_state_scheme, 'a) prog \<Rightarrow> bool" where
  "stable_on F m \<longleftrightarrow> (\<forall>s a s'. all_recv F s \<and> m s = Inr (a, s') \<longrightarrow> all_recv F s')"

abbreviation stable :: "(('k, 'z) uring_state_scheme, 'a) prog \<Rightarrow> bool" where
  "stable \<equiv> stable_on UNIV"

lemma stableD: "stable_on F m \<Longrightarrow> wlp m (\<lambda>_ s'. all_recv F s \<longrightarrow> all_recv F s') s"
  unfolding stable_on_def wlp_def by blast

lemma all_recv_mono: "all_recv F s \<Longrightarrow> F \<subseteq> G \<Longrightarrow> all_recv G s"
  by (auto simp: all_recv_def recv_on_def)

named_theorems stable_rules \<open>programs that keep every UDP receive a multishot receive\<close>

lemma stable_ret [stable_rules]: "stable_on F (ret a)"
  and stable_throwf [stable_rules]: "stable_on F (throwf e)"
  and stable_c_assert [stable_rules]: "stable_on F (c_assert b)"
  and stable_gets [stable_rules]: "stable_on F (gets g)"
  by (auto simp: stable_on_def exec_simps)

lemma stable_bnd [stable_rules]: "stable_on F m \<Longrightarrow> (\<And>a. stable_on F (f a)) \<Longrightarrow> stable_on F (bnd m f)"
  unfolding stable_on_def
proof (intro allI impI, elim conjE, goal_cases)
  case (1 s b s')
  from 1(4) obtain a s1 where "m s = Inr (a, s1)" "f a s1 = Inr (b, s')" by (auto simp: exec_simps split: sum.splits)
  with 1(1-3) show ?case by blast
qed

lemma stable_if [stable_rules]: "(b \<Longrightarrow> stable_on F m) \<Longrightarrow> (\<not> b \<Longrightarrow> stable_on F n) \<Longrightarrow> stable_on F (if b then m else n)"
  by simp

lemma stable_case_option [stable_rules]:
  "stable_on F m \<Longrightarrow> (\<And>a. stable_on F (f a)) \<Longrightarrow> stable_on F (case x of None \<Rightarrow> m | Some a \<Rightarrow> f a)"
  by (cases x) auto

lemma stable_case_prod [stable_rules]: "(\<And>a b. stable_on F (f a b)) \<Longrightarrow> stable_on F (case_prod f x)"
  by (cases x) auto

lemma stable_load [stable_rules]: "stable_on F (load h p)"
  by (auto simp: stable_on_def exec_simps split: option.splits if_splits)

lemma stable_calls [stable_rules]: "stable_on F (kcall f)" "stable_on F (kdo g)" "stable_on F (log_ev e)"
  by (auto simp: stable_on_def all_recv_def exec_simps split: prod.splits)

lemma stable_upd [stable_rules]:
  "stable_on F (upd_ctx p f)" "stable_on F (upd_buf p h)" "(\<And>r. recv_on F r \<Longrightarrow> recv_on F (g r)) \<Longrightarrow> stable_on F (upd_op p g)"
  by (auto simp: stable_on_def all_recv_def exec_simps split: option.splits if_splits)

text \<open>The functions of the io-uring component.\<close>

lemma recv_on_simps [simp]:
  "recv_on F (r\<lparr>buf_idx := i\<rparr>) = recv_on F r" "recv_on F (r\<lparr>op_next := n\<rparr>) = recv_on F r"
  "recv_on F (r\<lparr>data_len := n'\<rparr>) = recv_on F r" "recv_on F (r\<lparr>op_addr := m, op_addr_len := l\<rparr>) = recv_on F r"
  "recv_on F (r\<lparr>op_buffer := m\<rparr>) = recv_on F r" "recv_on F zero_op"
  by (simp_all add: recv_on_def zero_op_def op_type_defs)

lemma stable_pool [stable_rules]:
  "stable_on F (iouring_get_io_op ctx)" "stable_on F (iouring_put_io_op ctx p)"
  "stable_on F (iouring_get_buf_addr ctx)" "stable_on F (iouring_put_buf_addr ctx b)"
  unfolding iouring_get_io_op_def iouring_put_io_op_def iouring_get_buf_addr_def iouring_put_buf_addr_def Let_def
  by (auto intro!: stable_rules)

lemma stable_free [stable_rules]: "stable_on F (iouring_recycle_buffer U ctx p)" "stable_on F (io_op_free U ctx p)"
  unfolding iouring_recycle_buffer_def io_op_free_def uring_call_defs
  by (auto intro!: stable_rules simp: iouring_recycle_buffer_def uring_call_defs)

lemma stable_alloc:
  assumes "typ \<noteq> OP_TYPE_UDP_RECV"
  shows "stable_on F (io_op_alloc ctx typ fd False)"
  unfolding io_op_alloc_def io_op_alloc_buf_def
  using assms by (auto intro!: stable_rules simp: recv_on_def)

lemma stable_submit [stable_rules]:
  "stable_on F (iouring_submit_tun_read U ctx p)" "stable_on F (iouring_submit_multishot_recvmsg_op U ctx p)"
  unfolding iouring_submit_tun_read_def iouring_submit_multishot_recvmsg_op_def uring_call_defs
  by (auto intro!: stable_rules)

lemma stable_memory [stable_rules]: "stable_on F (load_bytes m n)" "stable_on F (store_bytes m bs)"
  by (cases m; auto intro!: stable_rules)+

lemma stable_dma [stable_rules]: "stable_on F (dma ws)"
  by (induction ws rule: dma.induct) (auto intro!: stable_rules)

lemma stable_recvmsg_out [stable_rules]: "stable_on F (iouring_multishot_recvmsg_out U ctx p f)"
  unfolding iouring_multishot_recvmsg_out_def recvmsg_parse_def Let_def
  by (auto intro!: stable_rules)

lemma stable_completion [stable_rules]: "stable_on F (iouring_wait_cqe U ctx)" "stable_on F (iouring_cqe_seen U ctx c)"
  unfolding iouring_wait_cqe_def iouring_cqe_seen_def by (auto intro!: stable_rules)

text \<open>
  Only the replacement of a completed receive depends on the operation: a single-shot receive is
  not a UDP receive, so a single-shot operation of the same type may follow it.
\<close>

lemma stable_resubmit:
  assumes "all_recv F s" and "op_heap s p = Some r" and "\<not> is_multi r" and "iouring_resubmit_recv U ctx p s = Inr (rc, s')"
  shows "all_recv F s'"
proof -
  have t: "op_type r \<noteq> OP_TYPE_UDP_RECV" using assms(1-3) by (auto simp: all_recv_def recv_on_def)
  have "p \<noteq> NULL" using assms(4) by (cases "p = NULL") (simp_all add: iouring_resubmit_recv_def bnd_def load_def)
  then have e: "bnd (io_op_alloc ctx (op_type r) (op_fd r) False) (\<lambda>new_op. if new_op = NULL then ret (-1)
     else if op_type r = OP_TYPE_TUN_READ then iouring_submit_tun_read U ctx new_op
     else if op_type r = OP_TYPE_UDP_RECV then iouring_submit_udp_recv U ctx new_op else ret (-1)) s = Inr (rc, s')"
    using assms(2,4) by (simp add: iouring_resubmit_recv_def bnd_def load_def)
  have "stable_on F (bnd (io_op_alloc ctx (op_type r) (op_fd r) False) (\<lambda>new_op. if new_op = NULL then ret (-1)
     else if op_type r = OP_TYPE_TUN_READ then iouring_submit_tun_read U ctx new_op
     else if op_type r = OP_TYPE_UDP_RECV then iouring_submit_udp_recv U ctx new_op else ret (-1)))"
    using t by (auto intro!: stable_rules stable_alloc)
  with e assms(1) show ?thesis unfolding stable_on_def by blast
qed

lemma stable_finish: "stable_on F (if rc < (0 :: int) then bnd (io_op_free U ctx p) (\<lambda>_. ret (Some NULL)) else ret (Some p))"
  by (auto intro!: stable_rules)

lemma stable_dispatch:
  assumes "all_recv F s" and "op_heap s p = Some r" and "dispatch_completion U ctx p r f s = Inr (w, s')"
  shows "all_recv F s'"
proof (cases "is_multi r \<or> op_type r \<notin> {OP_TYPE_UDP_RECV, OP_TYPE_TUN_READ}")
  case True
  then have "stable_on F (dispatch_completion U ctx p r f)"
    unfolding dispatch_completion_def iouring_multishot_read_out_def Let_def by (auto intro!: stable_rules)
  with assms(1,3) show ?thesis unfolding stable_on_def by blast
next
  case False
  then have "bnd (iouring_resubmit_recv U ctx p) (\<lambda>rc. if rc < 0 then bnd (io_op_free U ctx p) (\<lambda>_. ret (Some NULL)) else ret (Some p)) s
    = Inr (w, s')" using assms(3) by (auto simp: dispatch_completion_def op_type_defs split: if_splits)
  then obtain rc s1 where e: "iouring_resubmit_recv U ctx p s = Inr (rc, s1)"
    "(if rc < 0 then bnd (io_op_free U ctx p) (\<lambda>_. ret (Some NULL)) else ret (Some p)) s1 = Inr (w, s')"
    by (auto simp: bnd_def split: sum.splits)
  have "all_recv F s1" by (rule stable_resubmit [OF assms(1,2) _ e(1)]) (use False in auto)
  then show ?thesis using e(2) stable_finish [of F rc U ctx p] unfolding stable_on_def by blast
qed

lemma stable_handle [stable_rules]: "stable_on F (handle_completion U ctx p res f)"
proof (cases "res < 0 \<or> p = NULL")
  case True
  then show ?thesis unfolding handle_completion_def by (auto intro!: stable_rules)
next
  case False
  show ?thesis
    unfolding stable_on_def
  proof (intro allI impI, elim conjE)
    fix s w s'
    assume a: "all_recv F s" and e: "handle_completion U ctx p res f s = Inr (w, s')"
    from e False obtain r where r: "op_heap s p = Some r"
      by (cases "op_heap s p") (simp_all add: handle_completion_def bnd_def load_def upd_op_def)
    let ?s = "s\<lparr>op_heap := (op_heap s)(p \<mapsto> r\<lparr>data_len := res\<rparr>)\<rparr>"
    have m: "all_recv F ?s" using a r by (auto simp: all_recv_def)
    have d: "dispatch_completion U ctx p (r\<lparr>data_len := res\<rparr>) f ?s = Inr (w, s')"
      using e False r by (simp add: handle_completion_def bnd_def load_def upd_op_def modify_def)
    show "all_recv F s'" by (rule stable_dispatch [OF m _ d]) simp
  qed
qed

lemma stable_wait: "stable_on F (wait_for_recv U n ctx)"
  by (induction n) (auto intro!: stable_rules)

end
