(* ===== verification/Tun_Udp_Run.thy ===== *)
theory Tun_Udp_Run
  imports Packet_Handler Recv_Kinds
begin

text \<open>
  \<^verbatim>\<open>src/tun_udp_run.c\<close>: the event loops of an edge, with and without DTLS. The two loops differ in what
  they do with a received packet and share the rest, so the loop is written once with the handler
  as an argument. A locale states what a handler has to keep; the facts about the loop are proved
  from that contract and hold for both loops by interpretation. The loop runs until the signal
  handler clears the flag, so it takes fuel (\<open>n\<close> packets, each waited for with fuel \<open>w\<close>).
\<close>

section \<open>The code\<close>

text \<open>
  The result is the final value of \<^verbatim>\<open>op\<close> with the return code, or \<open>None\<close> when the loop is still
  running.
\<close>

fun event_loop ::
  "'k posix \<Rightarrow> 'k liburing \<Rightarrow> nat \<Rightarrow> nat \<Rightarrow> ptr \<Rightarrow> (ptr \<Rightarrow> io_op \<Rightarrow> ('k, 't, int) net_prog) \<Rightarrow> ptr \<Rightarrow> int
    \<Rightarrow> ('k, 't, (ptr \<times> int) option) net_prog" where
  "event_loop P U w 0 uring handle op rc = ret None"
| "event_loop P U w (Suc n) uring handle op rc =
     bnd (gets (\<lambda>s. sig_running P (kw s))) (\<lambda>running.
     if \<not> running then ret (Some (op, rc)) else
     bnd (wait_for_recv U w uring) (\<lambda>got. case got of None \<Rightarrow> ret None | Some op \<Rightarrow>
     if op = NULL then ret (Some (NULL, -1)) else
     bnd (load op_heap op) (\<lambda>r.
     bnd (handle op r) (\<lambda>rc.
     bnd (io_op_free U uring op) (\<lambda>op.
     if rc < 0 then ret (Some (op, rc)) else event_loop P U w n uring handle op rc)))))"

text \<open>The two switches on the type of the received operation.\<close>

definition dtls_packet :: "'t openssl \<Rightarrow> 'k liburing \<Rightarrow> ptr \<Rightarrow> int \<Rightarrow> ptr \<Rightarrow> ptr \<Rightarrow> io_op \<Rightarrow> ('k, 't, int) net_prog" where
  "dtls_packet T U conn tunfd uring op r =
     (if op_type r = OP_TYPE_TUN_READ then
        dtls_encrypt_and_send_udp T U conn (Heap (op_buffer r)) (size_of_int (data_len r)) uring
      else if op_type r = OP_TYPE_UDP_RECV then
        dtls_decrypt_and_write_tun T U conn tunfd (Heap (op_buffer r)) (data_len r) uring
      else ret (-1))"

definition zero_packet :: "'k liburing \<Rightarrow> ptr \<Rightarrow> int \<Rightarrow> ptr \<Rightarrow> ptr \<Rightarrow> io_op \<Rightarrow> ('k, 't, int) net_prog" where
  "zero_packet U conn tunfd uring op r =
     (if op_type r = OP_TYPE_TUN_READ then tun_to_udp U conn op uring
      else if op_type r = OP_TYPE_UDP_RECV then
        bnd (load conn_heap conn) (\<lambda>c.
        bnd (if conn_addr_len c = 0 then set_peer conn r else ret ()) (\<lambda>_.
        udp_to_tun U tunfd op uring))
      else ret (-1))"

definition run_events ::
  "'k posix \<Rightarrow> 'k liburing \<Rightarrow> nat \<Rightarrow> nat \<Rightarrow> ptr \<Rightarrow> ptr \<Rightarrow> int \<Rightarrow> (ptr \<Rightarrow> io_op \<Rightarrow> ('k, 't, int) net_prog)
    \<Rightarrow> ('k, 't, int option) net_prog" where
  "run_events P U w n uring conn tunfd handle =
     (if uring = NULL \<or> conn = NULL \<or> tunfd < 0 then ret (Some (-1)) else
      bnd (event_loop P U w n uring handle NULL 0) (\<lambda>res. case res of None \<Rightarrow> ret None
      | Some (op, rc) \<Rightarrow> bnd (free_op op) (\<lambda>_. ret (Some rc))))"

definition tun_udp_run ::
  "'k posix \<Rightarrow> 't openssl \<Rightarrow> 'k liburing \<Rightarrow> nat \<Rightarrow> nat \<Rightarrow> ptr \<Rightarrow> ptr \<Rightarrow> int \<Rightarrow> ('k, 't, int option) net_prog" where
  "tun_udp_run P T U w n uring conn tunfd = run_events P U w n uring conn tunfd (dtls_packet T U conn tunfd uring)"

definition tun_udp_run_zero ::
  "'k posix \<Rightarrow> 'k liburing \<Rightarrow> nat \<Rightarrow> nat \<Rightarrow> ptr \<Rightarrow> ptr \<Rightarrow> int \<Rightarrow> ('k, 't, int option) net_prog" where
  "tun_udp_run_zero P U w n uring conn tunfd = run_events P U w n uring conn tunfd (zero_packet U conn tunfd uring)"

section \<open>One turn of the loop as a step\<close>

text \<open>
  \<open>turn s s'\<close>: with the flag still set, a packet is received, handled without an error, and its
  operation released. The loop continues from \<open>s'\<close>.
\<close>

inductive turn ::
  "'k posix \<Rightarrow> 'k liburing \<Rightarrow> nat \<Rightarrow> ptr \<Rightarrow> (ptr \<Rightarrow> io_op \<Rightarrow> ('k, 't, int) net_prog) \<Rightarrow>
    ('k, 't) net_state \<Rightarrow> ('k, 't) net_state \<Rightarrow> bool" for P U w uring handle where
  "sig_running P (kw s) \<Longrightarrow> wait_for_recv U w uring s = Inr (Some op, s1) \<Longrightarrow> op \<noteq> NULL \<Longrightarrow> op_heap s1 op = Some r \<Longrightarrow>
   handle op r s1 = Inr (rc, s2) \<Longrightarrow> 0 \<le> rc \<Longrightarrow> io_op_free U uring op s2 = Inr (op', s3) \<Longrightarrow> turn P U w uring handle s s3"

inductive_cases turnE: "turn P U w uring handle s s'"

inductive turns ::
  "'k posix \<Rightarrow> 'k liburing \<Rightarrow> nat \<Rightarrow> ptr \<Rightarrow> (ptr \<Rightarrow> io_op \<Rightarrow> ('k, 't, int) net_prog) \<Rightarrow>
    ('k, 't) net_state \<Rightarrow> ('k, 't) net_state \<Rightarrow> bool" for P U w uring handle where
  turns_refl: "turns P U w uring handle s s"
| turns_step: "turns P U w uring handle s s' \<Longrightarrow> turn P U w uring handle s' s'' \<Longrightarrow> turns P U w uring handle s s''"

section \<open>The contract of a handler\<close>

text \<open>The same operations and buffers exist in both states.\<close>

definition same_objects :: "('k, 't) net_state \<Rightarrow> ('k, 't) net_state \<Rightarrow> bool" where
  "same_objects s s' \<longleftrightarrow> next_addr s' = next_addr s \<and> dom (op_heap s') = dom (op_heap s) \<and> dom (buf_heap s') = dom (buf_heap s)"

lemma same_objects_trans: "same_objects s s' \<Longrightarrow> same_objects s' s'' \<Longrightarrow> same_objects s s''"
  by (simp add: same_objects_def)

lemma across_same: "across U ctx s s' \<Longrightarrow> same_objects s s'"
  by (simp add: across_def same_objects_def)


text \<open>
  \<open>inv\<close> is what the handler itself relies on (the connection, OpenSSL). It may depend on the upper
  layers and on the kinds of operations; waiting and releasing keep it.
\<close>

locale packet_loop =
  fixes U :: "'k liburing" and ctx :: ptr and handle :: "ptr \<Rightarrow> io_op \<Rightarrow> ('k, 't, int) net_prog"
    and inv :: "('k, 't) net_state \<Rightarrow> bool"
  assumes handle_ok: "received ctx p s \<Longrightarrow> op_heap s p = Some r \<Longrightarrow> inv s \<Longrightarrow>
      wp (handle p r) (\<lambda>rc s'. handled U ctx p s rc s' \<and> inv s') s"
    and inv_stable: "inv s \<Longrightarrow> uring_state.more s' = uring_state.more s \<Longrightarrow> (all_multi s \<Longrightarrow> all_multi s') \<Longrightarrow> inv s'"
begin

text \<open>What holds between two turns: nothing is lost, and the kernel agrees.\<close>

definition between :: "('k \<Rightarrow> event list \<Rightarrow> bool) \<Rightarrow> ('k, 't) net_state \<Rightarrow> bool" where
  "between K s \<longleftrightarrow> gi ctx {} s \<and> inv s \<and> K (kw s) (trace s)"

text \<open>The two ends of a turn: the operation is released after success, or after an error.\<close>

definition stopped :: "('k, 't) net_state \<Rightarrow> ptr \<Rightarrow> int \<Rightarrow> ('k, 't) net_state \<Rightarrow> bool" where
  "stopped s op rc s' \<longleftrightarrow> (op = NULL \<or> live ctx {op} s') \<and> live ctx {} s' \<and> inv s' \<and> same_objects s s'"

lemma wait_step:
  assumes U: "recvmsg_ok U" "kernel_ok U ctx K" and b: "between K s"
  shows "wp (wait_for_recv U w ctx) (\<lambda>got s'. outcome ctx got s' \<and> K (kw s') (trace s') \<and> inv s' \<and> same_objects s s') s"
proof -
  have g: "gi ctx {} s" "inv s" "K (kw s) (trace s)" using b by (auto simp: between_def)
  from wp_InrD [OF wait_for_recv_ok [OF U g(1,3), of w]] obtain a s' where e: "wait_for_recv U w ctx s = Inr (a, s')"
    and q: "outcome ctx a s'" "K (kw s') (trace s')" "kept_wait ctx s s'" by auto
  have "all_multi s \<Longrightarrow> all_multi s'" using stable_wait [of UNIV U w ctx] e unfolding stable_on_def by blast
  then have "inv s'" using inv_stable [OF g(2)] q(3) by (auto simp: kept_wait_def)
  then show ?thesis using q e by (auto simp: wp_def kept_wait_def same_objects_def)
qed

lemma free_step:
  assumes "wp (io_op_free U ctx p) (\<lambda>r s'. Q r s' \<and> kept U ctx s s') s" and "inv s"
  shows "wp (io_op_free U ctx p) (\<lambda>r s'. Q r s' \<and> kept U ctx s s' \<and> inv s') s"
proof -
  from wp_InrD [OF assms(1)] obtain r s' where e: "io_op_free U ctx p s = Inr (r, s')" and q: "Q r s'" "kept U ctx s s'" by auto
  have "all_multi s \<Longrightarrow> all_multi s'" using stable_free(2) [of UNIV U ctx p] e unfolding stable_on_def by blast
  then have "inv s'" using inv_stable [OF assms(2) kept_more [OF q(2)]] by blast
  then show ?thesis using q e by (simp add: wp_def)
qed

text \<open>Handling and releasing a packet.\<close>

lemma handle_step:
  assumes K: "kernel_ok U ctx K" and p: "received ctx p s" and i: "inv s" and k: "K (kw s) (trace s)" and r: "op_heap s p = Some r"
  shows "wp (bnd (handle p r) (\<lambda>rc. bnd (io_op_free U ctx p) (\<lambda>op. ret (op, rc))))
    (\<lambda>(op, rc) s'. stopped s op rc s' \<and> (0 \<le> rc \<longrightarrow> between K s')) s"
proof (rule wp_bndI [OF handle_ok [OF p r i]], goal_cases)
  case (1 rc s1)
  then have h: "handled U ctx p s rc s1" and i1: "inv s1" by auto
  then have a: "across U ctx s s1" by (simp add: handled_def)
  show ?case
  proof (cases "rc = 0")
    case True
    then have "gi ctx {p} s1" "held p s1" using h by (auto simp: handled_def)
    from free_step [OF release_ok [OF this, unfolded conj_assoc [symmetric]] i1] show ?thesis
    proof (rule wp_bndI, goal_cases)
      case (1 op s2)
      then have a2: "across U ctx s s2" using across_trans [OF a kept_across, of s2] by blast
      then have "K (kw s2) (trace s2)" using K k by (auto simp: across_def kpres_def)
      then show ?case using 1 across_same [OF a2]
        by (auto simp: wp_ret stopped_def between_def intro: gi_live)
    qed
  next
    case False
    then have rc: "rc = -1" and "live ctx {p} s1" using h by (auto simp: handled_def)
    from free_step [OF free_err [OF this(2), unfolded conj_assoc [symmetric]] i1] show ?thesis
    proof (rule wp_bndI, goal_cases)
      case (1 op s2)
      then have "across U ctx s s2" using across_trans [OF a kept_across, of s2] by blast
      then show ?case using 1 rc across_same [of U ctx s s2] by (auto simp: wp_ret stopped_def)
    qed
  qed
qed


text \<open>
  The loop: it never faults; while it runs nothing is lost, and when it stops the ownership invariant
  holds and its last operation is either NULL or not in the pool.
\<close>

lemma loop_ok:
  assumes U: "recvmsg_ok U" and K: "kernel_ok U ctx K"
  shows "between K s \<Longrightarrow> op0 = NULL \<or> live ctx {op0} s \<Longrightarrow>
    wp (event_loop P U w n ctx handle op0 rc0)
      (\<lambda>res s'. case res of None \<Rightarrow> between K s' | Some (op, rc) \<Rightarrow> stopped s op rc s') s"
proof (induction n arbitrary: s op0 rc0)
  case 0
  then show ?case by (simp add: wp_ret)
next
  case (Suc n)
  let ?Q = "\<lambda>s res s'. case res of None \<Rightarrow> between K s' | Some (op, rc) \<Rightarrow> stopped s op rc s'"
  have b: "gi ctx {} s" "inv s" using Suc.prems(1) by (auto simp: between_def)
  have body: "wp (bnd (load op_heap p) (\<lambda>r. bnd (handle p r) (\<lambda>rc. bnd (io_op_free U ctx p) (\<lambda>op.
      if rc < 0 then ret (Some (op, rc)) else event_loop P U w n ctx handle op rc)))) (?Q s) s1"
    if got: "received ctx p s1" "p \<noteq> NULL" "inv s1" "K (kw s1) (trace s1)" "same_objects s s1" for p s1
  proof -
    obtain r where r: "op_heap s1 p = Some r" using got(1) by (auto simp: received_def)
    have "wp (bnd (bnd (handle p r) (\<lambda>rc. bnd (io_op_free U ctx p) (\<lambda>op. ret (op, rc)))) (\<lambda>(op, rc).
        if rc < 0 then ret (Some (op, rc)) else event_loop P U w n ctx handle op rc)) (?Q s) s1"
    proof (rule wp_bndI [OF handle_step [OF K got(1,3,4) r]], goal_cases)
      case (1 x s2)
      then obtain op rc where x: "x = (op, rc)" "stopped s1 op rc s2" "0 \<le> rc \<longrightarrow> between K s2" by (cases x) auto
      have st: "stopped s op' rc' s'" if "stopped s2 op' rc' s'" for op' rc' s'
        using that x(2) got(5) by (auto simp: stopped_def intro: same_objects_trans)
      show ?case
      proof (cases "rc < 0")
        case True
        then show ?thesis using x got(5) by (auto simp: wp_ret stopped_def intro: same_objects_trans)
      next
        case False
        have "wp (event_loop P U w n ctx handle op rc) (?Q s2) s2"
          by (rule Suc.IH) (use x False in \<open>auto simp: stopped_def\<close>)
        then show ?thesis using False x(1) by (auto elim!: wp_conseq intro: st split: option.splits)
      qed
    qed
    then show ?thesis by (intro wp_loadI [where h = op_heap, OF r got(2)]) (simp add: bnd_assoc bnd_ret)
  qed
  have "wp (bnd (wait_for_recv U w ctx) (\<lambda>got. case got of None \<Rightarrow> ret None | Some op \<Rightarrow>
      if op = NULL then ret (Some (NULL, -1)) else
      bnd (load op_heap op) (\<lambda>r. bnd (handle op r) (\<lambda>rc. bnd (io_op_free U ctx op) (\<lambda>op.
      if rc < 0 then ret (Some (op, rc)) else event_loop P U w n ctx handle op rc))))) (?Q s) s"
  proof (rule wp_bndI [OF wait_step [OF U K Suc.prems(1), where w = w]], goal_cases)
    case (1 got s1)
    consider "got = None" | "got = Some NULL" | p where "got = Some p" "p \<noteq> NULL" by (cases got) auto
    then show ?case
    proof cases
      case 1
      then show ?thesis using \<open>outcome ctx got s1 \<and> _\<close> by (simp add: outcome_def wp_ret between_def)
    next
      case 2
      then show ?thesis using \<open>outcome ctx got s1 \<and> _\<close> by (simp add: outcome_def wp_ret stopped_def)
    next
      case 3
      then show ?thesis using \<open>outcome ctx got s1 \<and> _\<close> body by (simp add: outcome_def)
    qed
  qed
  then show ?case using Suc.prems b
    by (auto simp: wp_bnd wp_gets wp_ret stopped_def same_objects_def intro: gi_live)
qed

text \<open>The whole function, with the final \<^verbatim>\<open>free(op)\<close>.\<close>

lemma run_ok:
  assumes U: "recvmsg_ok U" "kernel_ok U ctx K" and b: "between K s"
  shows "wp (run_events P U w n ctx conn tunfd handle) (\<lambda>res s'. case res of None \<Rightarrow> between K s'
    | Some rc \<Rightarrow> live ctx {} s' \<and> dom (op_heap s') \<subseteq> dom (op_heap s) \<and> dom (buf_heap s') = dom (buf_heap s) \<and>
        next_addr s' = next_addr s) s"
proof -
  let ?Q = "\<lambda>res s'. case res of None \<Rightarrow> between K s'
    | Some rc \<Rightarrow> live ctx {} s' \<and> dom (op_heap s') \<subseteq> dom (op_heap s) \<and> dom (buf_heap s') = dom (buf_heap s) \<and>
        next_addr s' = next_addr s"
  have "wp (bnd (event_loop P U w n ctx handle NULL 0) (\<lambda>res. case res of None \<Rightarrow> ret None
      | Some (op, rc) \<Rightarrow> bnd (free_op op) (\<lambda>_. ret (Some rc)))) ?Q s"
  proof (rule wp_bndI [OF loop_ok [OF U b, of NULL P w n 0]], goal_cases)
    case (2 res s1)
    show ?case
    proof (cases res)
      case None
      then show ?thesis using 2 by (simp add: wp_ret)
    next
      case (Some x)
      then obtain op rc where x: "res = Some (op, rc)" "stopped s op rc s1" using 2 by (cases x) auto
      have "wp (bnd (free_op op) (\<lambda>_. ret (Some rc))) ?Q s1"
        by (rule wp_bndI [OF free_op_ok [where ctx = ctx]]) (use x(2) in \<open>simp_all add: stopped_def wp_ret across_free_def same_objects_def\<close>)
      then show ?thesis using x(1) by simp
    qed
  qed simp
  moreover have "gi ctx {} s" using b by (simp add: between_def)
  ultimately show ?thesis by (auto simp: run_events_def wp_ret intro: gi_live)
qed

text \<open>Every state between two turns, however many there have been.\<close>

lemma turn_between:
  assumes U: "recvmsg_ok U" "kernel_ok U ctx K" and t: "turn P U w ctx handle s s'" and b: "between K s"
  shows "between K s'"
  using t
proof (rule turnE)
  fix op s1 r rc s2 op'
  assume e: "wait_for_recv U w ctx s = Inr (Some op, s1)" "0 < op" "op_heap s1 op = Some r" "handle op r s1 = Inr (rc, s2)"
    "0 \<le> rc" "io_op_free U ctx op s2 = Inr (op', s')"
  from wp_result [OF wait_step [OF U b] e(1)] e(2) have s1: "received ctx op s1" "K (kw s1) (trace s1)" "inv s1"
    by (auto simp: outcome_def)
  from wp_result [OF handle_step [OF U(2) s1(1,3,2) e(3)], of "(op', rc)" s'] e show ?thesis
    by (simp add: bnd_def ret_def)
qed

lemma turns_between:
  assumes U: "recvmsg_ok U" "kernel_ok U ctx K"
  shows "turns P U w ctx handle s s' \<Longrightarrow> between K s \<Longrightarrow> between K s'"
  by (induction rule: turns.induct) (auto intro: turn_between [OF U])

end

end
