(* ===== verification/Loop_Handlers.thy ===== *)
theory Loop_Handlers
  imports Tun_Udp_Run
begin

text \<open>
  The two packet handlers of \<^verbatim>\<open>src/tun_udp_run.c\<close> meet the contract of the event loop: without DTLS the
  handler relies on the connection only; with DTLS also on OpenSSL's read functions and on every UDP
  receive being a multishot receive.
\<close>

section \<open>Without DTLS\<close>

lemma addr_to_string_wp:
  assumes "28 \<le> length p"
  shows "wp (addr_to_string f p) (\<lambda>_ s'. s' = s) s"
proof -
  have "p \<noteq> []" using assms by auto
  then show ?thesis using assms by (simp add: wp_def addr_to_string_def exec_simps exec_rd_bytes)
qed

text \<open>Handling a packet may be preceded by steps that do not touch the ring.\<close>

lemma received_env:
  assumes "received ctx p s" and "ctx_heap s' = ctx_heap s" and "op_heap s' = op_heap s" and "buf_heap s' = buf_heap s" and "trace s' = trace s"
  shows "received ctx p s'"
proof -
  have g: "gi ctx {p} s'" by (rule gi_env [of ctx "{p}" s]) (use assms in \<open>auto simp: received_def\<close>)
  have "valid_mem ctx s' m n = valid_mem ctx s m n" for m n using assms by (cases m) (simp_all add: valid_mem_def)
  then have "packet_ok ctx r s' = packet_ok ctx r s" for r by (simp add: packet_ok_def)
  with g assms show ?thesis by (simp add: received_def)
qed

lemma handled_before: "across U ctx s s1 \<Longrightarrow> handled U ctx p s1 rc s' \<Longrightarrow> handled U ctx p s rc s'"
  by (auto simp: handled_def intro: across_trans)

lemma set_peer_ok:
  assumes "received ctx p s" and "op_heap s p = Some r" and "op_type r = OP_TYPE_UDP_RECV" and c: "conn_ok conn s"
  shows "wp (set_peer conn r) (\<lambda>_ s'. conn_ok conn s' \<and> (\<exists>h. s' = s\<lparr>conn_heap := h\<rparr>)) s"
proof (rule receivedE [OF assms(1,2)], goal_cases)
  case (1 ops bufs)
  have al: "0 < op_addr_len r" "op_addr_len r \<le> SOCKADDR_STORAGE" "valid_mem ctx s (op_addr r) SOCKADDR_STORAGE"
    using 1(2) assms(3) by (auto simp: packet_ok_def)
  have v: "valid_mem ctx s (op_addr r) (op_addr_len r)"
    using al by (cases "op_addr r"; cases "ctx_heap s ctx") (auto simp: valid_mem_def SOCKADDR_STORAGE_def BUF_SIZE_def)
  obtain c where c: "conn \<noteq> NULL" "conn_heap s conn = Some c" "length (conn_addr c) = SOCKADDR_STORAGE"
    using c by (auto simp: conn_ok_def)
  have "wp (bnd (load_bytes (op_addr r) (op_addr_len r)) (\<lambda>adr.
     if SOCKADDR_STORAGE < op_addr_len r then throwf Out_of_bounds else
     bnd (upd_conn conn (\<lambda>c. c\<lparr>conn_addr := overwrite 0 adr (conn_addr c), conn_addr_len := op_addr_len r\<rparr>)) (\<lambda>_.
     bnd (load conn_heap conn) (\<lambda>c. bnd (addr_to_string (\<lambda>_. []) (conn_addr c)) (\<lambda>_. ret ())))))
    (\<lambda>_ s'. conn_ok conn s' \<and> (\<exists>h. s' = s\<lparr>conn_heap := h\<rparr>)) s"
  proof (rule wp_bndI [OF load_bytes_valid [OF ginvD(1) [OF 1(1)] v]], goal_cases)
    case (1 adr s1)
    let ?c = "c\<lparr>conn_addr := overwrite 0 adr (conn_addr c), conn_addr_len := op_addr_len r\<rparr>"
    let ?s = "s\<lparr>conn_heap := (conn_heap s)(conn \<mapsto> ?c)\<rparr>"
    have l: "length (conn_addr ?c) = SOCKADDR_STORAGE" using 1 al c(3) by simp
    have "wp (addr_to_string (\<lambda>_. []) (conn_addr ?c)) (\<lambda>_ s'. s' = ?s) ?s"
      by (rule addr_to_string_wp) (subst l, simp add: SOCKADDR_STORAGE_def)
    moreover have "conn_ok conn ?s" using c l al by (simp add: conn_ok_def)
    ultimately have "wp (bnd (addr_to_string (\<lambda>_. []) (conn_addr ?c)) (\<lambda>_. ret ()))
        (\<lambda>_ s'. conn_ok conn s' \<and> (\<exists>h. s' = s\<lparr>conn_heap := h\<rparr>)) ?s"
      by (intro wp_skipI) (auto simp: wp_ret)
    then show ?case using 1 c al(2) by (simp add: wp_bnd wp_net_upd wp_load)
  qed
  then show ?thesis using al by (simp add: set_peer_def wp_bnd wp_c_assert)
qed

lemma zero_packet_ok:
  assumes rc: "received ctx p s" and r: "op_heap s p = Some r" and c: "conn_ok conn s"
  shows "wp (zero_packet U conn tunfd ctx p r) (\<lambda>rc s'. handled U ctx p s rc s' \<and> conn_ok conn s') s"
proof -
  have keep: "conn_ok conn s2" if "conn_ok conn s1" "uring_state.more s2 = uring_state.more s1" for s1 s2 :: "('a, 'b) net_state"
    using that more_eqD(1) [OF that(2)] by (simp add: conn_ok_def)
  have tun: "wp (udp_to_tun U tunfd p ctx) (\<lambda>rc s'. handled U ctx p s rc s' \<and> conn_ok conn s') s1"
    if s1: "conn_ok conn s1" "s1 = s\<lparr>conn_heap := h\<rparr>" for s1 h
  proof -
    have "received ctx p s1" by (rule received_env [OF rc]) (use s1 in auto)
    moreover have "op_heap s1 p = Some r" "across U ctx s s1" using s1 r by (auto simp: across_def kpres_def)
    ultimately show ?thesis
      by (intro wp_conseq [OF udp_to_tun_ok]) (use s1 keep in \<open>auto intro: handled_before\<close>)
  qed
  consider (tun) "op_type r = OP_TYPE_TUN_READ" | (udp) "op_type r = OP_TYPE_UDP_RECV" using rc r by (auto simp: received_def)
  then show ?thesis
  proof cases
    case tun
    then show ?thesis using wp_conseq [OF tun_to_udp_ok [OF rc r tun c, where U = U]] keep [OF c]
      by (simp add: zero_packet_def)
  next
    case udp
    obtain d where d: "conn \<noteq> NULL" "conn_heap s conn = Some d" using c by (auto simp: conn_ok_def)
    have "wp (bnd (if conn_addr_len d = 0 then set_peer conn r else ret ()) (\<lambda>_. udp_to_tun U tunfd p ctx))
      (\<lambda>rc s'. handled U ctx p s rc s' \<and> conn_ok conn s') s"
    proof (cases "conn_addr_len d = 0")
      case True
      have "wp (bnd (set_peer conn r) (\<lambda>_. udp_to_tun U tunfd p ctx)) (\<lambda>rc s'. handled U ctx p s rc s' \<and> conn_ok conn s') s"
        by (rule wp_bndI [OF set_peer_ok [OF rc r udp c]]) (use tun in blast)
      then show ?thesis using True by simp
    next
      case False
      then show ?thesis using tun [OF c, of "conn_heap s"] by (simp add: bnd_ret)
    qed
    then show ?thesis using udp d by (simp add: zero_packet_def op_type_defs wp_bnd wp_load)
  qed
qed

interpretation zero: packet_loop U ctx "zero_packet U conn tunfd ctx" "conn_ok conn" for U ctx conn tunfd
proof (unfold_locales, goal_cases)
  case (1 p s r)
  then show ?case by (rule zero_packet_ok)
next
  case (2 s s')
  then show ?case using more_eqD(1) [OF 2(2)] by (simp add: conn_ok_def)
qed

section \<open>With DTLS\<close>

text \<open>The DTLS handlers never allocate a UDP receive.\<close>

lemma stable_tls [stable_rules]: "stable_on F (tcall f)" "stable_on F (tdo g)"
  by (auto simp: stable_on_def all_recv_def exec_simps split: prod.splits)

lemma stable_utils [stable_rules]: "stable_on F (rd p i)" "stable_on F (rd_be16 p i)" "stable_on F (rd_bytes p i n)"
  by (auto simp: rd_def rd_be16_def rd16_def intro!: stable_rules)
    (induction p i n rule: rd_bytes.induct, auto simp: rd_def intro!: stable_rules)

lemma stable_packets [stable_rules]:
  "stable_on F (object_at m)" "stable_on F (fill_op q n bs)" "stable_on F (print_ip_packet_info p k)"
  by (cases m; auto simp: fill_op_def print_ip_packet_info_def Let_def intro!: stable_rules)+

lemma stable_read_src [stable_rules]: "stable_on F (read_src d)" "stable_on F (print_packet d k)"
  by (cases d; auto simp: print_packet_def intro!: stable_rules)+

lemma stable_openssl [stable_rules]:
  "stable_on F (SSL_write T p d n)" "stable_on F (SSL_read T p n)" "stable_on F (BIO_write T b d n)" "stable_on F (BIO_read T b n)"
  "stable_on F (SSL_get_error T p rc)" "stable_on F (dtls_get_error_string T p rc)"
  unfolding SSL_write_def SSL_read_def BIO_write_def BIO_read_def SSL_get_error_def dtls_get_error_string_def with_ssl_def
  by (auto intro!: stable_rules)

lemma stable_retry [stable_rules]: "stable_on F (ssl_read_retry T p n i r)"
  by (induction T p n i r rule: ssl_read_retry.induct) (auto intro!: stable_rules)

lemma stable_crypt [stable_rules]: "stable_on F (dtls_encrypt_packet T c d n k)" "stable_on F (dtls_decrypt_packet T c d n k)"
  unfolding dtls_encrypt_packet_def dtls_decrypt_packet_def by (auto intro!: stable_rules)

lemma stable_sends [stable_rules]:
  "stable_on F (iouring_submit_udp_send U ctx p adr al data n)" "stable_on F (iouring_submit_tun_write U ctx p data n)"
  unfolding iouring_submit_udp_send_def iouring_submit_tun_write_def copy_payload_def send_message_def memcpy_in_def uring_call_defs
  by (auto intro!: stable_rules simp: recv_on_def)

lemma stable_dtls_packet: "stable (dtls_packet T U conn tunfd ctx p r)"
  unfolding dtls_packet_def dtls_encrypt_and_send_udp_def dtls_decrypt_and_write_tun_def
  by (auto intro!: stable_rules stable_alloc simp: recv_on_def op_type_defs)

lemma size_of_int_small: "0 \<le> n \<Longrightarrow> n \<le> int BUF_SIZE \<Longrightarrow> size_of_int n = nat n"
  by (simp add: size_of_int_def BUF_SIZE_def)

text \<open>What the DTLS handler relies on.\<close>

definition dtls_inv :: "'t openssl \<Rightarrow> ptr \<Rightarrow> ('k, 't) net_state \<Rightarrow> bool" where
  "dtls_inv T conn s \<longleftrightarrow> openssl_ok T \<and> conn_tls conn s \<and> all_multi s"

lemma dtls_packet_ok:
  assumes rc: "received ctx p s" and r: "op_heap s p = Some r" and i: "dtls_inv T conn s"
  shows "wp (dtls_packet T U conn tunfd ctx p r) (\<lambda>rc s'. handled U ctx p s rc s' \<and> dtls_inv T conn s' \<and> conn_heap s' = conn_heap s) s"
proof -
  have pk: "packet_ok ctx r s" using rc r by (auto simp: received_def)
  note gh = received_held [OF rc] and T = i [unfolded dtls_inv_def]
  let ?n = "size_of_int (data_len r)"
  have n: "?n = nat (data_len r)" using pk by (intro size_of_int_small) (auto simp: packet_ok_def)
  have v: "src_ok ctx s (Heap (op_buffer r)) (max 40 ?n)" "?n \<le> BUF_SIZE" using pk by (auto simp: src_ok_def packet_ok_def n)
  then have v2: "src_ok ctx s (Heap (op_buffer r)) (nat (data_len r))"
    by (cases "op_buffer r"; cases "ctx_heap s ctx") (auto simp: src_ok_def valid_mem_def n)
  let ?Q = "\<lambda>rc s'. handled U ctx p s rc s' \<and> conn_heap s' = conn_heap s \<and> fwd_heap s' = fwd_heap s"
  have "wp (dtls_packet T U conn tunfd ctx p r) ?Q s"
  proof (cases "op_type r = OP_TYPE_TUN_READ")
    case True
    then show ?thesis using encrypt_and_send_ok [OF _ _ _ v, of T p conn U] gh T by (simp add: dtls_packet_def)
  next
    case False
    then have "op_type r = OP_TYPE_UDP_RECV" using rc r by (auto simp: received_def)
    moreover from this have "data_len r < int BUF_SIZE"
      using T r pk by (auto simp: all_recv_def recv_on_def packet_ok_def)
    ultimately show ?thesis using decrypt_and_write_ok [OF _ _ _ v2, of T p conn U tunfd] gh T False
      by (simp add: dtls_packet_def)
  qed
  from wp_InrD [OF this] obtain a s' where e: "dtls_packet T U conn tunfd ctx p r s = Inr (a, s')" and q: "?Q a s'" by auto
  have "all_multi s'" using stable_dtls_packet [of T U conn tunfd ctx p r] e T unfolding stable_on_def by blast
  then show ?thesis using q e T by (simp add: wp_def dtls_inv_def conn_tls_def conn_ok_def)
qed

interpretation dtls: packet_loop U ctx "dtls_packet T U conn tunfd ctx" "dtls_inv T conn" for U ctx T conn tunfd
proof (unfold_locales, goal_cases)
  case (1 p s r)
  show ?case by (rule wp_conseq [OF dtls_packet_ok [OF 1]]) simp
next
  case (2 s s')
  then show ?case using more_eqD(1) [OF 2(2)] by (simp add: dtls_inv_def conn_tls_def conn_ok_def)
qed

end
