(* ===== verification/Forwarder.thy ===== *)
theory Forwarder
  imports Loop_Handlers
begin

text \<open>
  \<^verbatim>\<open>src/forwarder.c\<close>: a server connection (inbound) and a client connection (outbound) over one io-uring
  context; every datagram of one side is decrypted, encrypted for the other side and sent there.
\<close>

section \<open>The code\<close>

text \<open>Fields of \<^verbatim>\<open>iouring_params\<close> that have no initialiser are 0.\<close>

definition forwarder_params :: iouring_config where
  "forwarder_params = \<lparr>sq_depth = 8, cq_depth = 1024, br_gid = 1, br_n_bufs = 2048, n_io_ops = 1024,
     n_initial_recv_ops = 0, n_initial_read_ops = 0\<rparr>"

text \<open>
  The test after \<^verbatim>\<open>init_dtls_connection\<close> is \<^verbatim>\<open>!ret != 0\<close>: it is true exactly when \<^verbatim>\<open>ret\<close> is 0.
\<close>

definition c_not :: "int \<Rightarrow> int" where
  "c_not n = (if n = 0 then 1 else 0)"

definition forwarder_create ::
  "'k posix \<Rightarrow> 't openssl \<Rightarrow> 'k liburing \<Rightarrow> string \<Rightarrow> 16 word \<Rightarrow> 16 word \<Rightarrow> 16 word \<Rightarrow> string \<Rightarrow> string \<Rightarrow> string option
    \<Rightarrow> ('k, 't, ptr) net_prog" where
  "forwarder_create P T U remote_host remote_port inbound_port outbound_port cert_file key_file ca_file =
     bnd (calloc_fwd P) (\<lambda>ctx.
     if ctx = NULL then ret NULL else
     bnd (iouring_init P U forwarder_params) (\<lambda>uring.
     bnd (upd_fwd ctx (\<lambda>f. f\<lparr>fw_uring := uring\<rparr>)) (\<lambda>_.
     if uring = NULL then bnd (free_fwd ctx) (\<lambda>_. ret NULL) else
     bnd (create_connection P CONN_ROLE_SERVER None 0 inbound_port) (\<lambda>inbound.
     bnd (upd_fwd ctx (\<lambda>f. f\<lparr>fw_inbound := inbound\<rparr>)) (\<lambda>_.
     if inbound = NULL then bnd (free_fwd ctx) (\<lambda>_. ret NULL) else
     bnd (init_dtls_connection P T inbound (Some cert_file) (Some key_file) None) (\<lambda>rc.
     if c_not rc \<noteq> 0 then bnd (free_fwd ctx) (\<lambda>_. ret NULL) else
     bnd (create_connection P CONN_ROLE_CLIENT (Some remote_host) remote_port outbound_port) (\<lambda>outbound.
     bnd (upd_fwd ctx (\<lambda>f. f\<lparr>fw_outbound := outbound\<rparr>)) (\<lambda>_.
     if outbound = NULL then ret NULL else
     bnd (init_dtls_connection P T outbound None None ca_file) (\<lambda>rc.
     if c_not rc \<noteq> 0 then bnd (free_fwd ctx) (\<lambda>_. ret NULL) else
     ret ctx)))))))))"

text \<open>Release of the DTLS side of a connection, and of the connection itself.\<close>

definition destroy_dtls :: "'t openssl \<Rightarrow> ptr \<Rightarrow> ('k, 't, unit) net_prog" where
  "destroy_dtls T conn =
     (if conn = NULL then ret () else
      bnd (load conn_heap conn) (\<lambda>c.
      bnd (if conn_ssl c \<noteq> NULL then SSL_free T (conn_ssl c) else ret ()) (\<lambda>_.
      if conn_dtls c \<noteq> NULL then dtls_context_cleanup T (conn_dtls c) else ret ())))"

definition destroy_socket :: "'k posix \<Rightarrow> ptr \<Rightarrow> ('k, 't, unit) net_prog" where
  "destroy_socket P conn =
     (if conn = NULL then ret () else
      bnd (load conn_heap conn) (\<lambda>c.
      if 0 \<le> udp_fd c then bnd (do_close P (udp_fd c)) (\<lambda>_. free_conn conn) else ret ()))"

definition forwarder_destroy :: "'k posix \<Rightarrow> 't openssl \<Rightarrow> 'k liburing \<Rightarrow> ptr \<Rightarrow> ('k, 't, unit) net_prog" where
  "forwarder_destroy P T U ctx =
     (if ctx = NULL then ret () else
      bnd (load fwd_heap ctx) (\<lambda>f.
      bnd (destroy_dtls T (fw_outbound f)) (\<lambda>_.
      bnd (destroy_dtls T (fw_inbound f)) (\<lambda>_.
      bnd (if fw_uring f \<noteq> NULL then iouring_cleanup U (fw_uring f) else ret ()) (\<lambda>_.
      bnd (destroy_socket P (fw_inbound f)) (\<lambda>_.
      bnd (destroy_socket P (fw_outbound f)) (\<lambda>_.
      free_fwd ctx)))))))"

text \<open>
  The decrypted packet goes through an array of \<^verbatim>\<open>BUF_SIZE\<close> bytes on the stack; the bytes beyond the
  packet are only looked at by the debug output.
\<close>

definition stack_array :: "byte list \<Rightarrow> byte list" where
  "stack_array bs = overwrite 0 bs (replicate BUF_SIZE 0)"

definition forward_udp_packet :: "'t openssl \<Rightarrow> 'k liburing \<Rightarrow> ptr \<Rightarrow> ptr \<Rightarrow> ('k, 't, int) net_prog" where
  "forward_udp_packet T U ctx op =
     bnd (load op_heap op) (\<lambda>r.
     bnd (load fwd_heap ctx) (\<lambda>f.
     bnd (load conn_heap (fw_inbound f)) (\<lambda>inb.
     let from_inbound_socket = (op_fd r = udp_fd inb) in
     bnd (object_at (op_addr r)) (\<lambda>adr.
     bnd (addr_to_string (\<lambda>_. []) adr) (\<lambda>_.
     if data_len r \<le> 0 then ret (-1) else
     let (recv_conn, forward_conn) =
       (if from_inbound_socket then (fw_inbound f, fw_outbound f) else (fw_outbound f, fw_inbound f)) in
     bnd (object_at (op_buffer r)) (\<lambda>d.
     bnd (dtls_decrypt_packet T recv_conn d (data_len r) (int BUF_SIZE)) (\<lambda>(n, bs).
     if BUF_SIZE < length bs then throwf Out_of_bounds else
     if n \<le> 0 then ret (-1) else
     bnd (print_packet (Stack (stack_array bs)) (size_of_int n)) (\<lambda>_.
     bnd (dtls_encrypt_and_send_udp T U forward_conn (Stack (stack_array bs)) (size_of_int n) (fw_uring f)) (\<lambda>rc.
     if rc < 0 then ret (-1) else ret 0)))))))))"

fun forwarder_loop :: "'t openssl \<Rightarrow> 'k liburing \<Rightarrow> nat \<Rightarrow> nat \<Rightarrow> ptr \<Rightarrow> ('k, 't, int option) net_prog" where
  "forwarder_loop T U w 0 ctx = ret None"
| "forwarder_loop T U w (Suc n) ctx =
     bnd (load fwd_heap ctx) (\<lambda>f.
     bnd (wait_for_recv U w (fw_uring f)) (\<lambda>got. case got of None \<Rightarrow> ret None | Some op \<Rightarrow>
     if op = NULL then ret (Some (-1)) else
     bnd (load op_heap op) (\<lambda>r.
     if op_type r \<noteq> OP_TYPE_UDP_RECV then ret (Some (-1)) else
     bnd (forward_udp_packet T U ctx op) (\<lambda>rc.
     if rc < 0 then ret (Some rc) else
     bnd (io_op_free U (fw_uring f) op) (\<lambda>_. forwarder_loop T U w n ctx)))))"

definition forwarder_run :: "'t openssl \<Rightarrow> 'k liburing \<Rightarrow> nat \<Rightarrow> nat \<Rightarrow> ptr \<Rightarrow> ('k, 't, int option) net_prog" where
  "forwarder_run T U w n ctx = (if ctx = NULL then ret (Some (-1)) else forwarder_loop T U w n ctx)"

text \<open>\<^verbatim>\<open>atoi\<close>: leading blanks, a sign, decimal digits.\<close>

fun digits_value :: "int \<Rightarrow> string \<Rightarrow> int" where
  "digits_value acc [] = acc"
| "digits_value acc (c # cs) = (let d = (of_char c :: int) - 48 in
     if 0 \<le> d \<and> d \<le> 9 then digits_value (10 * acc + d) cs else acc)"

definition is_blank :: "char \<Rightarrow> bool" where
  "is_blank c \<longleftrightarrow> c = CHR '' '' \<or> (9 :: nat) \<le> of_char c \<and> of_char c \<le> (13 :: nat)"

definition atoi :: "string \<Rightarrow> int" where
  "atoi s = (case dropWhile is_blank s of
      [] \<Rightarrow> 0
    | c # cs \<Rightarrow> if c = CHR ''-'' then - digits_value 0 cs else if c = CHR ''+'' then digits_value 0 cs
        else digits_value 0 (c # cs))"

definition atoi16 :: "string \<Rightarrow> 16 word" where
  "atoi16 s = word_of_int (atoi s)"

text \<open>The handshakes and the main loop, after the receives have been armed.\<close>

definition forwarder_serve :: "'k posix \<Rightarrow> 't openssl \<Rightarrow> 'k liburing \<Rightarrow> nat \<Rightarrow> nat \<Rightarrow> ptr \<Rightarrow> forwarder_ctx \<Rightarrow> ('k, 't, int option) net_prog" where
  "forwarder_serve P T U w n ctx f =
     bnd (do_dtls_handshake T U w n (fw_uring f) (fw_inbound f)) (\<lambda>h. case h of None \<Rightarrow> ret None | Some rc \<Rightarrow>
     if rc < 0 then ret (Some rc) else
     bnd (do_dtls_handshake T U w n (fw_uring f) (fw_outbound f)) (\<lambda>h. case h of None \<Rightarrow> ret None | Some rc \<Rightarrow>
     if rc < 0 then ret (Some rc) else
     bnd (forwarder_run T U w n ctx) (\<lambda>h. case h of None \<Rightarrow> ret None | Some rc \<Rightarrow>
     bnd (forwarder_destroy P T U ctx) (\<lambda>_. ret (Some rc)))))"

text \<open>\<open>argv\<close> with the program name first.\<close>

definition forwarder_main ::
  "'k posix \<Rightarrow> 't openssl \<Rightarrow> 'k liburing \<Rightarrow> nat \<Rightarrow> nat \<Rightarrow> string list \<Rightarrow> ('k, 't, int option) net_prog" where
  "forwarder_main P T U w n argv =
     (if length argv < 7 then ret (Some 1) else
      bnd (forwarder_create P T U (argv ! 5) (atoi16 (argv ! 6)) (atoi16 (argv ! 1)) (atoi16 (argv ! 2)) (argv ! 3) (argv ! 4)
        (if 7 < length argv then Some (argv ! 7) else None)) (\<lambda>ctx.
      if ctx = NULL then ret (Some 1) else
      bnd (load fwd_heap ctx) (\<lambda>f.
      bnd (load conn_heap (fw_inbound f)) (\<lambda>inb.
      bnd (iouring_initial_udp_recvs U (fw_uring f) (udp_fd inb)) (\<lambda>rc.
      if rc \<noteq> 0 then ret (Some (-1)) else
      bnd (load conn_heap (fw_outbound f)) (\<lambda>outb.
      bnd (iouring_initial_udp_recvs U (fw_uring f) (udp_fd outb)) (\<lambda>rc.
      if rc \<noteq> 0 then ret (Some (-1)) else
      forwarder_serve P T U w n ctx f)))))))"

end
