(* ===== verification/Edge.thy ===== *)
theory Edge
  imports Forwarder
begin

text \<open>
  The two edge programs, \<^verbatim>\<open>src/edge.c\<close> (DTLS) and \<^verbatim>\<open>src/edge_zero.c\<close> (no encryption): command line,
  connection, io-uring, TUN device, event loop, cleanup. The result is the exit status (\<^verbatim>\<open>usage\<close>
  exits with 1); \<open>None\<close> means that the program is still running.
\<close>

section \<open>Command line\<close>

text \<open>Each program has its own \<^verbatim>\<open>iouring_params\<close>; \<^verbatim>\<open>RING_DEPTH\<close> is 16.\<close>

definition edge_params :: iouring_config where
  "edge_params = \<lparr>sq_depth = 16, cq_depth = 1024, br_gid = 1, br_n_bufs = 2048, n_io_ops = 1024,
     n_initial_recv_ops = 0, n_initial_read_ops = 15\<rparr>"

definition edge_zero_params :: iouring_config where
  "edge_zero_params = \<lparr>sq_depth = 16, cq_depth = 1024, br_gid = 1, br_n_bufs = 2048, n_io_ops = 1024,
     n_initial_recv_ops = 0, n_initial_read_ops = 15\<rparr>"

text \<open>
  The role and the number of arguments it wants: \<open>srv\<close> for a server. \<open>None\<close> stands for the call of
  \<^verbatim>\<open>usage\<close>.
\<close>

definition parse_role :: "nat \<Rightarrow> string list \<Rightarrow> conn_role option" where
  "parse_role srv argv =
     (if length argv < 4 then None
      else if argv ! 1 = ''server'' then (if length argv \<noteq> srv then None else Some CONN_ROLE_SERVER)
      else if argv ! 1 = ''client'' then (if length argv \<noteq> 5 then None else Some CONN_ROLE_CLIENT)
      else None)"

text \<open>Remote host, remote port, local port and the name of the TUN interface.\<close>

definition edge_endpoint :: "conn_role \<Rightarrow> string list \<Rightarrow> string option \<times> 16 word \<times> 16 word \<times> string" where
  "edge_endpoint rl argv = (let server_port = atoi16 (argv ! 3) in
     case rl of CONN_ROLE_CLIENT \<Rightarrow> (Some (argv ! 4), server_port, 0, ''tun0'')
     | CONN_ROLE_SERVER \<Rightarrow> (None, 0, server_port, ''tun1''))"

section \<open>The TUN device, the loop, and the end\<close>

text \<open>From the creation of the TUN device on, both programs are the same but for the loop and the first cleanup.\<close>

definition edge_tunnel ::
  "'k posix \<Rightarrow> 'k liburing \<Rightarrow> ptr \<Rightarrow> ptr \<Rightarrow> string \<Rightarrow> string \<Rightarrow> (int \<Rightarrow> ('k, 't, int option) net_prog) \<Rightarrow> ('k, 't, unit) net_prog
    \<Rightarrow> ('k, 't, int option) net_prog" where
  "edge_tunnel P U uring conn ifname ip run cleanup =
     bnd (new_tun_device P (Some ifname) (Some ip) (Some ''255.255.255.0'') 1400) (\<lambda>tun.
     if tun = NULL then ret (Some 1) else
     bnd (load tun_heap tun) (\<lambda>t.
     bnd (iouring_initial_tun_reads U uring (tun_fd t)) (\<lambda>rc.
     if rc \<noteq> 0 then ret (Some rc) else
     bnd (run (tun_fd t)) (\<lambda>res. case res of None \<Rightarrow> ret None | Some _ \<Rightarrow>
     bnd cleanup (\<lambda>_.
     bnd (iouring_cleanup U uring) (\<lambda>_.
     bnd (load conn_heap conn) (\<lambda>c.
     bnd (udp_socket_close P (udp_fd c)) (\<lambda>_.
     bnd (tun_device_down P tun) (\<lambda>_.
     bnd (tun_device_destroy P tun) (\<lambda>_.
     ret (Some 0)))))))))))"

definition edge_cleanup :: "'t openssl \<Rightarrow> ptr \<Rightarrow> ('k, 't, unit) net_prog" where
  "edge_cleanup T conn =
     bnd (load conn_heap conn) (\<lambda>c.
     bnd (SSL_free T (conn_ssl c)) (\<lambda>_.
     dtls_context_cleanup T (conn_dtls c)))"

section \<open>\<^verbatim>\<open>edge.c\<close>\<close>

definition edge_main ::
  "'k posix \<Rightarrow> 't openssl \<Rightarrow> 'k liburing \<Rightarrow> nat \<Rightarrow> nat \<Rightarrow> string list \<Rightarrow> ('k, 't, int option) net_prog" where
  "edge_main P T U w n argv =
     (case parse_role 6 argv of None \<Rightarrow> ret (Some 1) | Some rl \<Rightarrow>
      let (cert_file, key_file) = (if rl = CONN_ROLE_SERVER then (Some (argv ! 4), Some (argv ! 5)) else (None, None));
          (remote_host, remote_port, local_port, ifname) = edge_endpoint rl argv in
      bnd (create_connection P rl remote_host remote_port local_port) (\<lambda>conn.
      if conn = NULL then ret (Some (-1)) else
      bnd (init_dtls_connection P T conn cert_file key_file None) (\<lambda>rc.
      if c_not rc \<noteq> 0 then ret (Some (-1)) else
      bnd (iouring_init P U edge_params) (\<lambda>uring.
      bnd (load conn_heap conn) (\<lambda>c.
      if uring = NULL then bnd (udp_socket_close P (udp_fd c)) (\<lambda>_. ret (Some 1)) else
      bnd (iouring_initial_udp_recvs U uring (udp_fd c)) (\<lambda>rc.
      if rc \<noteq> 0 then ret (Some (-1)) else
      bnd (do_dtls_handshake T U w n uring conn) (\<lambda>h. case h of None \<Rightarrow> ret None | Some rc \<Rightarrow>
      if rc \<noteq> 0 then ret (Some 1) else
      edge_tunnel P U uring conn ifname (argv ! 2) (tun_udp_run P T U w n uring conn) (edge_cleanup T conn))))))))"

section \<open>\<^verbatim>\<open>edge_zero.c\<close>\<close>

definition edge_zero_main ::
  "'k posix \<Rightarrow> 'k liburing \<Rightarrow> nat \<Rightarrow> nat \<Rightarrow> string list \<Rightarrow> ('k, 't, int option) net_prog" where
  "edge_zero_main P U w n argv =
     (case parse_role 4 argv of None \<Rightarrow> ret (Some 1) | Some rl \<Rightarrow>
      let (remote_host, remote_port, local_port, ifname) = edge_endpoint rl argv in
      bnd (create_connection P rl remote_host remote_port local_port) (\<lambda>conn.
      bnd (iouring_init P U edge_zero_params) (\<lambda>uring.
      bnd (load conn_heap conn) (\<lambda>c.
      if uring = NULL then bnd (udp_socket_close P (udp_fd c)) (\<lambda>_. ret (Some 1)) else
      bnd (iouring_initial_udp_recvs U uring (udp_fd c)) (\<lambda>rc.
      if rc \<noteq> 0 then ret (Some (-1)) else
      edge_tunnel P U uring conn ifname (argv ! 2) (tun_udp_run_zero P U w n uring conn) (ret ()))))))"

end
