(* ===== verification/Frames.thy ===== *)
theory Frames
  imports Edge
begin

text \<open>
  What the io-uring layer and the packet code leave alone. A relation between states that is kept by every call to the
  outside and does not look at the heaps of the io-uring layer and the ring events of the trace is kept
  by all of that code; the locale \<open>frame\<close> proves this once. It is interpreted for the plaintext (\<open>Plaintext\<close>),
  for the objects of the main programs, and for the events the kernel has left to deliver (\<open>Halting\<close>).
\<close>

section \<open>The calls to the outside\<close>

text \<open>What a call of the program may do to the state of the kernel and the system.\<close>

inductive call :: "'k posix \<Rightarrow> 'k liburing \<Rightarrow> ('k \<Rightarrow> 'k) \<Rightarrow> bool" for P U where
  "call P U (\<lambda>k. snd (queue_init_params U a b k))"
| "call P U (\<lambda>k. snd (setup_buf_ring U a b k))"
| "call P U (\<lambda>k. buf_ring_add U i j l k)"
| "call P U (\<lambda>k. buf_ring_advance U i k)"
| "call P U (\<lambda>k. snd (free_buf_ring U a b k))"
| "call P U (\<lambda>k. snd (get_sqe U k))"
| "call P U (\<lambda>k. prep U e k)"
| "call P U (\<lambda>k. snd (submit U k))"
| "call P U (\<lambda>k. snd (wait_cqe_timeout U k))"
| "call P U (\<lambda>k. snd (peek_cqe U k))"
| "call P U (\<lambda>k. cqe_seen U k)"
| "call P U (\<lambda>k. queue_exit U k)"
| "call P U (\<lambda>k. snd (calloc_ok P k))"
| "call P U (\<lambda>k. snd (memalign_ok P k))"
| "call P U (\<lambda>k. snd (sys_socket P k))"
| "call P U (\<lambda>k. snd (sys_bind P a bs k))"
| "call P U (\<lambda>k. snd (sys_getfl P a k))"
| "call P U (\<lambda>k. snd (sys_setfl P a b k))"
| "call P U (\<lambda>k. snd (sys_setsockopt P a b c k))"
| "call P U (\<lambda>k. sys_close P a k)"
| "call P U (\<lambda>k. snd (sys_getaddrinfo P h p k))"
| "call P U (\<lambda>k. snd (sys_open_tun P k))"
| "call P U (\<lambda>k. snd (sys_ioctl P a r k))"
| "call P U (\<lambda>k. snd (sys_fopen P h k))"
| "call P U (\<lambda>k. snd (sys_fprintf P h k))"
| "call P U (\<lambda>k. sys_fclose P k)"
| "call P U (\<lambda>k. snd (sys_time P k))"

section \<open>Frames\<close>

named_theorems frame_rules \<open>programs that keep a frame\<close>

text \<open>The entries that make the kernel send something.\<close>

fun send_entry :: "event \<Rightarrow> bool" where
  "send_entry (Ev_prep (Sqe_sendmsg fd h v u)) = True"
| "send_entry (Ev_prep (Sqe_write fd m n u)) = True"
| "send_entry _ = False"

locale recv_frame =
  fixes R :: "('k, 't) net_state \<Rightarrow> ('k, 't) net_state \<Rightarrow> bool" and ok :: "event \<Rightarrow> bool"
    and P :: "'k posix" and U :: "'k liburing"
  assumes frame_refl: "R s s"
    and frame_trans: "R s s' \<Longrightarrow> R s' s'' \<Longrightarrow> R s s''"
    and frame_call: "call P U g \<Longrightarrow> R s (s\<lparr>kw := g (kw s)\<rparr>)"
    and frame_base: "R s (s\<lparr>next_addr := a\<rparr>)" "R s (s\<lparr>tw := t\<rparr>)"
    and frame_uring: "R s (s\<lparr>ctx_heap := c\<rparr>)" "R s (s\<lparr>op_heap := h\<rparr>)" "R s (s\<lparr>buf_heap := b\<rparr>)"
    and frame_event: "ok e \<Longrightarrow> R s (s\<lparr>trace := e # trace s\<rparr>)"
    and recv_events: "\<not> off_ring e \<Longrightarrow> \<not> send_entry e \<Longrightarrow> ok e" "ok (Ev_free p)"
begin

definition keeps :: "('k, 't, 'a) net_prog \<Rightarrow> bool" where
  "keeps m \<longleftrightarrow> (\<forall>s. wlp m (\<lambda>_. R s) s)"

lemma keepsD: "keeps m \<Longrightarrow> wlp m (\<lambda>_. R s) s"
  unfolding keeps_def by blast

lemma keeps_bndI: "keeps m \<Longrightarrow> (\<And>a s'. R s s' \<Longrightarrow> wlp (f a) Q s') \<Longrightarrow> wlp (bnd m f) Q s"
  by (rule wlp_bndI [OF keepsD])

lemma keeps_modify: "(\<And>s. R s (g s)) \<Longrightarrow> keeps (modify g)"
  by (simp add: keeps_def wlp_def exec_simps)

lemma keeps_prims [frame_rules]:
  "keeps (ret a)" "keeps (throwf e)" "keeps (c_assert b)" "keeps (gets g)" "keeps (load h' p)"
  by (auto simp: keeps_def wlp_def frame_refl exec_simps split: if_splits option.splits)

lemma keeps_bnd [frame_rules]: "keeps m \<Longrightarrow> (\<And>a. keeps (f a)) \<Longrightarrow> keeps (bnd m f)"
  unfolding keeps_def
proof (intro allI, goal_cases)
  case (1 s)
  then have "wlp m (\<lambda>_. R s) s" by blast
  then show ?case by (rule wlp_bndI) (use 1(2) in \<open>auto intro: wlp_conseq frame_trans\<close>)
qed

lemma keeps_splits [frame_rules]:
  "(b \<Longrightarrow> keeps m) \<Longrightarrow> (\<not> b \<Longrightarrow> keeps n) \<Longrightarrow> keeps (if b then m else n)"
  "keeps m \<Longrightarrow> (\<And>a. keeps (g a)) \<Longrightarrow> keeps (case x of None \<Rightarrow> m | Some a \<Rightarrow> g a)"
  "(\<And>a b. keeps (h a b)) \<Longrightarrow> keeps (case_prod h y)"
  by (auto split: option.split prod.split)

lemma keeps_tcalls [frame_rules]: "keeps (tcall c)" "keeps (tdo d)"
  by (auto simp: keeps_def wlp_def frame_base exec_simps split: prod.splits)

lemma keeps_kdo: "call P U g \<Longrightarrow> keeps (kdo g)"
  by (simp add: keeps_def wlp_def frame_call exec_simps)

lemma keeps_kcall: "call P U (\<lambda>k. snd (f k)) \<Longrightarrow> keeps (kcall f)"
  using frame_call [of "\<lambda>k. snd (f k)"] by (auto simp: keeps_def wlp_def exec_simps split: prod.splits) (metis snd_conv)

lemmas keeps_calls [frame_rules] = keeps_kcall keeps_kdo call.intros

lemma keeps_log [frame_rules]: "ok e \<Longrightarrow> keeps (log_ev e)"
  by (simp add: keeps_def wlp_def frame_event exec_simps)

lemma keeps_upd [frame_rules]: "keeps (upd_ctx p f)" "keeps (upd_op p g)" "keeps (upd_buf p h)"
  unfolding upd_ctx_def upd_op_def upd_buf_def by (auto intro!: frame_rules keeps_modify frame_uring)

lemma keeps_free [frame_rules]: "keeps (free_op p)" "keeps (free_buf_addr p)" "keeps (free_ctx p)"
  unfolding free_op_def free_buf_addr_def free_ctx_def by (auto intro!: frame_rules keeps_modify frame_uring recv_events)

lemma keeps_pool [frame_rules]:
  "keeps (iouring_get_io_op ctx)" "keeps (iouring_put_io_op ctx p)" "keeps (iouring_get_buf_addr ctx)" "keeps (iouring_put_buf_addr ctx b)"
  unfolding iouring_get_io_op_def iouring_put_io_op_def iouring_get_buf_addr_def iouring_put_buf_addr_def Let_def
  by (auto intro!: frame_rules)

lemma keeps_alloc [frame_rules]: "keeps (io_op_alloc_buf ctx typ fd m q)" "keeps (io_op_alloc ctx typ fd m)"
  unfolding io_op_alloc_def io_op_alloc_buf_def by (auto intro!: frame_rules)

lemma keeps_recycle [frame_rules]: "keeps (iouring_recycle_buffer U ctx p)"
  unfolding iouring_recycle_buffer_def uring_call_defs by (auto intro!: frame_rules recv_events)

lemma keeps_release [frame_rules]: "keeps (io_op_free U ctx p)"
  unfolding io_op_free_def by (auto intro!: frame_rules)

lemma keeps_memory [frame_rules]: "keeps (load_bytes m n)" "keeps (store_bytes m bs)" "keeps (object_at m)"
  by (cases m; auto intro!: frame_rules)+

lemma keeps_utils [frame_rules]: "keeps (rd p i)" "keeps (rd16 p i)" "keeps (rd_be16 p i)" "keeps (rd_bytes p i n)"
  by (auto simp: rd_def rd_be16_def rd16_def intro!: frame_rules)
    (induction p i n rule: rd_bytes.induct, auto simp: rd_def intro!: frame_rules)

lemma keeps_print [frame_rules]: "keeps (print_ip_packet_info p n)" "keeps (addr_to_string f p)"
  unfolding print_ip_packet_info_def addr_to_string_def Let_def by (auto intro!: frame_rules)

lemma keeps_packet [frame_rules]: "keeps (print_packet d k)" "keeps (read_src d)" "keeps (fill_op q n bs)"
  unfolding print_packet_def fill_op_def by (cases d; auto intro!: frame_rules)+

lemma keeps_receive [frame_rules]:
  "keeps (iouring_submit_tun_read U ctx p)" "keeps (iouring_submit_udp_recv U ctx p)" "keeps (iouring_submit_multishot_recvmsg_op U ctx p)"
  unfolding iouring_submit_tun_read_def iouring_submit_udp_recv_def iouring_submit_multishot_recvmsg_op_def uring_call_defs Let_def
  by (auto intro!: frame_rules recv_events)

lemma keeps_multishot [frame_rules]:
  "keeps (iouring_submit_multishot_recvmsg U ctx fd)" "keeps (iouring_multishot_recvmsg_out U ctx p f)"
  "keeps (iouring_multishot_read_out ctx p f)"
  unfolding iouring_submit_multishot_recvmsg_def iouring_multishot_recvmsg_out_def recvmsg_parse_def iouring_multishot_read_out_def Let_def
  by (auto intro!: frame_rules)

lemma keeps_dma [frame_rules]: "keeps (dma ws)"
  by (induction ws) (auto intro!: frame_rules)

lemma keeps_completion [frame_rules]: "keeps (iouring_wait_cqe U ctx)" "keeps (iouring_cqe_seen U ctx c)" "keeps (iouring_resubmit_recv U ctx p)"
  unfolding iouring_wait_cqe_def iouring_cqe_seen_def iouring_resubmit_recv_def uring_call_defs Let_def
  by (auto intro!: frame_rules recv_events)

lemma keeps_handle [frame_rules]: "keeps (handle_completion U ctx p res f)"
  unfolding handle_completion_def dispatch_completion_def Let_def by (auto intro!: frame_rules)

lemma keeps_wait [frame_rules]: "keeps (wait_for_recv U n ctx)"
  by (induction n) (auto intro!: frame_rules)

end

text \<open>The rest of the ring and packet code prepares sends too.\<close>

locale frame = recv_frame +
  assumes ring_events: "\<not> off_ring e \<Longrightarrow> ok e" "ok (Ev_bio_write p bs)" "ok (Ev_bio_read p bs)"
begin

lemma keeps_submit [frame_rules]:
  "keeps (iouring_submit_udp_send U ctx p adr al data n)" "keeps (iouring_submit_tun_write U ctx p data' n)"
  unfolding iouring_submit_udp_send_def iouring_submit_tun_write_def copy_payload_def send_message_def memcpy_in_def uring_call_defs Let_def
  by (auto intro!: frame_rules ring_events)

lemma keeps_bio [frame_rules]: "keeps (BIO_write T b d n)" "keeps (BIO_read T b n)" "keeps (SSL_get_error T p rc)"
  "keeps (dtls_get_error_string T p rc)"
  unfolding BIO_write_def BIO_read_def SSL_get_error_def dtls_get_error_string_def with_ssl_def
  by (auto intro!: frame_rules ring_events)

lemma keeps_zero_copy [frame_rules]: "keeps (tun_to_udp U conn p ctx)" "keeps (udp_to_tun U tunfd p ctx)"
  unfolding tun_to_udp_def udp_to_tun_def by (auto intro!: frame_rules)

lemma keeps_loop: "(\<And>p r. keeps (h p r)) \<Longrightarrow> keeps (run_events P U w n ctx conn tunfd h)"
proof -
  assume h: "\<And>p r. keeps (h p r)"
  have "keeps (event_loop P U w n ctx h op rc)" for op rc
    by (induction n arbitrary: op rc) (auto intro!: frame_rules h)
  then show ?thesis unfolding run_events_def by (auto intro!: frame_rules split: option.splits)
qed

lemma keeps_initial [frame_rules]: "keeps (iouring_initial_udp_recvs U ctx fd)" "keeps (iouring_initial_tun_reads U ctx fd)"
proof -
  have l: "(\<And>p. keeps (sub p)) \<Longrightarrow> keeps (initial_recvs_loop U ctx tp fd sub n)" for sub tp n
    by (induction n) (auto intro!: frame_rules)
  show "keeps (iouring_initial_udp_recvs U ctx fd)" "keeps (iouring_initial_tun_reads U ctx fd)"
    unfolding iouring_initial_udp_recvs_def iouring_initial_tun_reads_def USE_MULTI_RECV_def USE_MULTI_READ_def
    by (auto intro!: frame_rules l)
qed

lemma keeps_pools [frame_rules]:
  "keeps (iouring_alloc_io_op_pool P ctx n)" "keeps (iouring_alloc_buf_addr_pool P ctx n)"
  "keeps (iouring_free_io_op_pool ctx)" "keeps (iouring_free_buf_addr_pool ctx)"
proof -
  have m: "keeps (modify (\<lambda>s. s\<lparr>next_addr := a, op_heap := (op_heap s)(p := v)\<rparr>))"
    "keeps (modify (\<lambda>s. s\<lparr>next_addr := a, buf_heap := (buf_heap s)(p := v')\<rparr>))" for a p v v'
    by (rule keeps_modify, rule frame_trans [OF frame_base(1) frame_uring(2)], rule keeps_modify, rule frame_trans [OF frame_base(1) frame_uring(3)])
  have c: "keeps (calloc_op P)" "keeps (calloc_buf_addr P)"
    unfolding calloc_op_def calloc_buf_addr_def by (auto intro!: frame_rules m)
  have "keeps (iouring_alloc_io_op_pool_loop P ctx i prev)" "keeps (iouring_alloc_buf_addr_pool_loop P ctx i prev)" for i prev
    by (induction i arbitrary: prev) (auto intro!: frame_rules c)
  then show "keeps (iouring_alloc_io_op_pool P ctx n)" "keeps (iouring_alloc_buf_addr_pool P ctx n)"
    by (simp_all add: iouring_alloc_io_op_pool_def iouring_alloc_buf_addr_pool_def)
  have "keeps (iouring_free_io_op_pool_loop i p)" "keeps (iouring_free_buf_addr_pool_loop i p)" for i p
    by (induction i arbitrary: p) (auto intro!: frame_rules)
  then show "keeps (iouring_free_io_op_pool ctx)" "keeps (iouring_free_buf_addr_pool ctx)"
    unfolding iouring_free_io_op_pool_def iouring_free_buf_addr_pool_def by (auto intro!: frame_rules)
qed

lemma keeps_start [frame_rules]: "keeps (iouring_init P U c)" "keeps (iouring_cleanup U ctx)"
proof -
  have b: "keeps (br_add_loop U i j)" for i j
    by (induction j arbitrary: i) (auto simp: uring_br_add_def intro!: frame_rules ring_events)
  have m: "keeps (modify (\<lambda>s. s\<lparr>next_addr := a, ctx_heap := (ctx_heap s)(p := v)\<rparr>))" for a p v
    by (rule keeps_modify) (rule frame_trans [OF frame_base(1) frame_uring(1)])
  show "keeps (iouring_init P U c)"
    unfolding iouring_init_def iouring_alloc_buffers_def iouring_alloc_multishot_buffers_def uring_br_advance_def Let_def
    by (auto intro!: frame_rules ring_events b m)
  show "keeps (iouring_cleanup U ctx)"
    unfolding iouring_cleanup_def iouring_free_buffers_def by (auto intro!: frame_rules ring_events)
qed

end

section \<open>The objects of a program\<close>

text \<open>TUN devices, open descriptors and the sockets of the connections.\<close>

definition same_objs :: "('k, 't) net_state \<Rightarrow> ('k, 't) net_state \<Rightarrow> bool" where
  "same_objs s s' \<longleftrightarrow> tun_heap s' = tun_heap s \<and> open_fds (trace s') = open_fds (trace s) \<and>
     (\<forall>p. map_option udp_fd (conn_heap s' p) = map_option udp_fd (conn_heap s p))"

fun fd_event :: "event \<Rightarrow> bool" where
  "fd_event (Ev_open fd) = True"
| "fd_event (Ev_close fd) = True"
| "fd_event e = False"

interpretation objs: frame same_objs "\<lambda>e. \<not> fd_event e" P U for P U
proof (unfold_locales, goal_cases)
  case (9 e s)
  then show ?case by (cases e) (auto simp: same_objs_def)
next
  case (10 e)
  then show ?case by (cases e) auto
next
  case (12 e)
  then show ?case by (cases e) auto
qed (auto simp: same_objs_def)

lemma objs_set_peer: "objs.keeps (set_peer conn r)"
proof -
  have "objs.keeps (upd_conn conn (\<lambda>c. c\<lparr>conn_addr := f c, conn_addr_len := n\<rparr>))" for f n
    by (auto simp: objs.keeps_def wlp_def upd_conn_def exec_simps same_objs_def split: if_splits option.splits)
  then show ?thesis unfolding set_peer_def by (auto intro!: frame_rules)
qed

lemma objs_zero_loop: "objs.keeps (tun_udp_run_zero P U w n ctx conn tunfd)"
  unfolding tun_udp_run_zero_def zero_packet_def
  by (rule objs.keeps_loop) (auto intro!: frame_rules objs_set_peer)

end
