(* ===== verification/Forwarder_Loop.thy ===== *)
theory Forwarder_Loop
  imports Forwarder
begin

text \<open>
  The forwarder's packet path and loop. A datagram of one side is handled under the same contract as
  the packets of an edge, so \<open>packet_loop\<close> is interpreted a third time; the loop itself differs (no
  stop flag, and an operation whose packet could not be forwarded is not released).
\<close>

section \<open>One datagram\<close>

text \<open>What the forwarder \<open>fw\<close> relies on: its io-uring context and two connections with SSL objects.\<close>

definition fwd_ok :: "ptr \<Rightarrow> ptr \<Rightarrow> ('k, 't) net_state \<Rightarrow> bool" where
  "fwd_ok fw ctx s \<longleftrightarrow> fw \<noteq> NULL \<and> (\<exists>f. fwd_heap s fw = Some f \<and> fw_uring f = ctx \<and>
     conn_tls (fw_inbound f) s \<and> conn_tls (fw_outbound f) s)"

definition fwd_inv :: "'t openssl \<Rightarrow> ptr \<Rightarrow> ptr \<Rightarrow> ('k, 't) net_state \<Rightarrow> bool" where
  "fwd_inv T fw ctx s \<longleftrightarrow> openssl_ok T \<and> all_multi s \<and> fwd_ok fw ctx s"

text \<open>The body of the loop of \<^verbatim>\<open>forwarder_run\<close> for one received operation.\<close>

definition forward_one :: "'t openssl \<Rightarrow> 'k liburing \<Rightarrow> ptr \<Rightarrow> ptr \<Rightarrow> io_op \<Rightarrow> ('k, 't, int) net_prog" where
  "forward_one T U fw op r = (if op_type r \<noteq> OP_TYPE_UDP_RECV then ret (-1) else forward_udp_packet T U fw op)"

lemma length_stack_array: "length bs \<le> BUF_SIZE \<Longrightarrow> length (stack_array bs) = BUF_SIZE"
  by (simp add: stack_array_def)

lemma read_result_bound: "read_result n (got, bs) \<Longrightarrow> n \<le> int BUF_SIZE \<Longrightarrow> length bs \<le> BUF_SIZE"
  by (auto simp: read_result_def split: if_splits)

lemma handled_tls:
  assumes "gi ctx {p} s" and "held p s" and t: "tls_step s s'"
  shows "gi ctx {p} s'" and "held p s'" and "across U ctx s s'"
proof -
  show "gi ctx {p} s'" by (rule gi_env [OF assms(1)]) (simp_all add: tls_stepD [OF t])
  show "held p s'" using assms(2) tls_stepD [OF t] by (simp add: held_def)
  show "across U ctx s s'" by (rule tls_across [OF t])
qed

text \<open>The decrypted packet is printed, encrypted for the other side and sent.\<close>

lemma forward_plaintext_ok:
  assumes T: "openssl_ok T" and g: "gi ctx {p} s" "held p s" and t: "tls_step s s1" and c: "conn_tls conn s"
    and n: "read_result k (n, bs)" "k < int BUF_SIZE"
  shows "wp (if BUF_SIZE < length bs then throwf Out_of_bounds else
     if n \<le> 0 then ret (-1) else
     bnd (print_packet (Stack (stack_array bs)) (size_of_int n)) (\<lambda>_.
     bnd (dtls_encrypt_and_send_udp T U conn (Stack (stack_array bs)) (size_of_int n) ctx) (\<lambda>rc.
     if rc < 0 then ret (-1) else ret 0)))
    (\<lambda>rc s'. handled U ctx p s rc s' \<and> conn_heap s' = conn_heap s \<and> fwd_heap s' = fwd_heap s) s1"
proof -
  note h1 = handled_tls [OF g t]
  have l: "length bs \<le> BUF_SIZE" by (rule read_result_bound [OF n(1)]) (use n in simp)
  show ?thesis
  proof (cases "n \<le> 0")
    case True
    then show ?thesis using l h1(3) [of U] gi_live [OF h1(1)] tls_stepD [OF t] by (simp add: wp_ret handled_def)
  next
    case False
    then have small: "size_of_int n \<le> BUF_SIZE" using n l by (auto simp: read_result_def size_of_int_small split: if_splits)
    have src: "src_ok ctx s1 (Stack (stack_array bs)) (max 40 (size_of_int n))"
      using small l by (simp add: src_ok_def length_stack_array BUF_SIZE_def)
    have c1: "conn_tls conn s1" using c tls_stepD [OF t] by (simp add: conn_tls_def conn_ok_def)
    from h1(1) obtain ops bufs where u: "uinv ctx ops bufs s1" by (auto simp: gi_def ginv_def)
    have "wp (bnd (print_packet (Stack (stack_array bs)) (size_of_int n)) (\<lambda>_.
       bnd (dtls_encrypt_and_send_udp T U conn (Stack (stack_array bs)) (size_of_int n) ctx) (\<lambda>rc.
       if rc < 0 then ret (-1) else ret 0)))
      (\<lambda>rc s'. handled U ctx p s1 rc s' \<and> conn_heap s' = conn_heap s1 \<and> fwd_heap s' = fwd_heap s1) s1"
    proof (rule wp_skipI [OF print_packet_ok [OF u src]], goal_cases)
      case (2 a)
      show ?case
        by (rule wp_bndI [OF encrypt_and_send_ok [OF T h1(1,2) src small c1]]) (auto simp: wp_ret handled_def)
    qed simp
    then show ?thesis using False l tls_stepD [OF t] handled_before [OF h1(3)]
      by (auto elim!: wp_conseq)
  qed
qed

lemma forward_udp_packet_ok:
  assumes rc: "received ctx p s" and r: "op_heap s p = Some r" "op_type r = OP_TYPE_UDP_RECV" and i: "fwd_inv T fw ctx s"
  shows "wp (forward_udp_packet T U fw p)
    (\<lambda>rc s'. handled U ctx p s rc s' \<and> conn_heap s' = conn_heap s \<and> fwd_heap s' = fwd_heap s) s"
  using rc r(1)
proof (rule receivedE, goal_cases)
  case (1 ops bufs)
  let ?Q = "\<lambda>rc s'. handled U ctx p s rc s' \<and> conn_heap s' = conn_heap s \<and> fwd_heap s' = fwd_heap s"
  note u = ginvD(1) [OF 1(1)] and gh = received_held [OF rc]
  from i obtain f where f: "openssl_ok T" "all_multi s" "fw \<noteq> NULL" "fwd_heap s fw = Some f" "fw_uring f = ctx"
    "conn_tls (fw_inbound f) s" "conn_tls (fw_outbound f) s" by (auto simp: fwd_inv_def fwd_ok_def)
  from f(6) obtain ci where ci: "fw_inbound f \<noteq> NULL" "conn_heap s (fw_inbound f) = Some ci" by (auto simp: conn_tls_def conn_ok_def)
  have pk: "0 \<le> data_len r" "data_len r < int BUF_SIZE" "valid_mem ctx s (op_addr r) SOCKADDR_STORAGE"
    "valid_mem ctx s (op_buffer r) (max 40 (nat (data_len r)))"
    using 1(2) f(2) r by (auto simp: packet_ok_def all_recv_def recv_on_def)
  have rest: "wp (bnd (object_at (op_buffer r)) (\<lambda>d.
     bnd (dtls_decrypt_packet T rconn d (data_len r) (int BUF_SIZE)) (\<lambda>(n, bs).
     if BUF_SIZE < length bs then throwf Out_of_bounds else
     if n \<le> 0 then ret (-1) else
     bnd (print_packet (Stack (stack_array bs)) (size_of_int n)) (\<lambda>_.
     bnd (dtls_encrypt_and_send_udp T U fconn (Stack (stack_array bs)) (size_of_int n) ctx) (\<lambda>rc.
     if rc < 0 then ret (-1) else ret 0))))) ?Q s"
    if c: "conn_tls rconn s" "conn_tls fconn s" for rconn fconn
  proof -
    from c(1) obtain cr where cr: "rconn \<noteq> NULL" "conn_heap s rconn = Some cr" "conn_ssl cr \<noteq> NULL"
      by (auto simp: conn_tls_def conn_ok_def)
    show ?thesis
    proof (rule wp_bndI [OF object_at_valid [OF u pk(4)]], goal_cases)
      case (1 d s1)
      then have s1: "s1 = s" and d: "nat (data_len r) \<le> length d" by auto
      show ?case unfolding s1
      proof (rule wp_bndI [OF decrypt_ok [OF f(1) cr d pk(2)]], goal_cases)
        case (1 x s2)
        then obtain n bs where x: "x = (n, bs)" "tls_step s s2" "read_result (data_len r) (n, bs)" by (cases x) auto
        show ?case unfolding x(1) prod.case by (rule forward_plaintext_ok [OF f(1) _ _ x(2) c(2) x(3) pk(2)]) (use gh in auto)
      qed
    qed
  qed
  have adr: "wp (bnd (object_at (op_addr r)) (\<lambda>adr. bnd (addr_to_string (\<lambda>_. []) adr) (\<lambda>_. m))) ?Q s" if "wp m ?Q s" for m
  proof (rule wp_bndI [OF object_at_valid [OF u pk(3)]], goal_cases)
    case (1 adr s1)
    then show ?case using that by (intro wp_skipI [OF addr_to_string_wp]) (auto simp: SOCKADDR_STORAGE_def)
  qed
  show ?case unfolding forward_udp_packet_def
    apply (rule wp_loadI [where h = op_heap, OF r(1) 1(3)])
    apply (rule wp_loadI [where h = fwd_heap, OF f(4,3)])
    apply (rule wp_loadI [where h = conn_heap, OF ci(2,1)])
    apply (simp only: Let_def)
    apply (rule adr)
    using rest [OF f(6,7)] rest [OF f(7,6)] gh f(5)
    by (auto simp: wp_ret handled_def intro: gi_live)
qed

section \<open>The loop\<close>

text \<open>Nothing the forwarder does per packet allocates a UDP receive.\<close>

lemma stable_addr_to_string [stable_rules]: "stable_on F (addr_to_string f p)"
  by (auto simp: addr_to_string_def rd16_def Let_def intro!: stable_rules)

lemma stable_forward: "stable (forward_one T U fw p r)"
  unfolding forward_one_def forward_udp_packet_def dtls_encrypt_and_send_udp_def Let_def
  by (auto intro!: stable_rules stable_alloc simp: recv_on_def op_type_defs)

lemma forward_one_ok:
  assumes rc: "received ctx p s" and r: "op_heap s p = Some r" and i: "fwd_inv T fw ctx s"
  shows "wp (forward_one T U fw p r) (\<lambda>rc s'. handled U ctx p s rc s' \<and> fwd_inv T fw ctx s') s"
proof -
  let ?Q = "\<lambda>rc s'. handled U ctx p s rc s' \<and> conn_heap s' = conn_heap s \<and> fwd_heap s' = fwd_heap s"
  have "wp (forward_one T U fw p r) ?Q s"
    using forward_udp_packet_ok [OF rc r _ i] gi_live [of ctx "{p}" s] received_held [OF rc]
    by (simp add: forward_one_def wp_if wp_ret handled_def)
  from wp_InrD [OF this] obtain a s' where e: "forward_one T U fw p r s = Inr (a, s')" and q: "?Q a s'" by auto
  have "all_multi s'" using stable_forward [of T U fw p r] e i unfolding stable_on_def fwd_inv_def by blast
  then show ?thesis using q e i by (simp add: wp_def fwd_inv_def fwd_ok_def conn_tls_def conn_ok_def)
qed

interpretation fwd: packet_loop U ctx "forward_one T U fw" "fwd_inv T fw ctx" for U ctx T fw
proof (unfold_locales, goal_cases)
  case (1 p s r)
  then show ?case by (rule forward_one_ok)
next
  case (2 s s')
  then show ?case using more_eqD [OF 2(2)] by (simp add: fwd_inv_def fwd_ok_def conn_tls_def conn_ok_def)
qed

text \<open>The loop, written with \<open>forward_one\<close>.\<close>

lemma bnd_forward_one:
  "bnd (forward_one T U fw op r) f =
     (if op_type r \<noteq> OP_TYPE_UDP_RECV then f (-1) else bnd (forward_udp_packet T U fw op) f)"
  by (simp add: forward_one_def bnd_ret)

lemma forwarder_loop_Suc:
  "forwarder_loop T U w (Suc n) fw =
     bnd (load fwd_heap fw) (\<lambda>f.
     bnd (wait_for_recv U w (fw_uring f)) (\<lambda>got. case got of None \<Rightarrow> ret None | Some op \<Rightarrow>
     if op = NULL then ret (Some (-1)) else
     bnd (load op_heap op) (\<lambda>r.
     bnd (forward_one T U fw op r) (\<lambda>rc.
     if rc < 0 then ret (Some rc) else
     bnd (io_op_free U (fw_uring f) op) (\<lambda>_. forwarder_loop T U w n fw)))))"
  by (simp only: forwarder_loop.simps bnd_forward_one less_minus_one_simps if_True cong: if_cong option.case_cong)

text \<open>
  While it runs nothing is lost; when it stops the pools are consistent. On an error the received
  operation has not been released.
\<close>

lemma forwarder_loop_ok:
  assumes U: "recvmsg_ok U" and K: "kernel_ok U ctx K"
  shows "fwd.between ctx T fw K s \<Longrightarrow> wp (forwarder_loop T U w n fw) (\<lambda>res s'. case res of
      None \<Rightarrow> fwd.between ctx T fw K s'
    | Some rc \<Rightarrow> rc = -1 \<and> live ctx {} s' \<and> fwd_inv T fw ctx s' \<and> same_objects s s') s"
proof (induction n arbitrary: s)
  case 0
  then show ?case by (simp add: wp_ret)
next
  case (Suc n)
  let ?Q = "\<lambda>s res s'. case res of None \<Rightarrow> fwd.between ctx T fw K s'
    | Some rc \<Rightarrow> rc = -1 \<and> live ctx {} s' \<and> fwd_inv T fw ctx s' \<and> same_objects s s'"
  have "fwd_inv T fw ctx s" using Suc.prems by (simp add: fwd.between_def)
  then obtain f where f: "fw \<noteq> NULL" "fwd_heap s fw = Some f" "fw_uring f = ctx" by (auto simp: fwd_inv_def fwd_ok_def)
  have body: "wp (bnd (load op_heap p) (\<lambda>r. bnd (forward_one T U fw p r) (\<lambda>rc. if rc < 0 then ret (Some rc) else
      bnd (io_op_free U ctx p) (\<lambda>_. forwarder_loop T U w n fw)))) (?Q s) s1"
    if got: "received ctx p s1" "p \<noteq> NULL" "fwd_inv T fw ctx s1" "K (kw s1) (trace s1)" "same_objects s s1" for p s1
  proof -
    obtain r where r: "op_heap s1 p = Some r" using got(1) by (auto simp: received_def)
    show ?thesis
    proof (rule wp_loadI [where h = op_heap, OF r got(2)], rule wp_bndI [OF forward_one_ok [OF got(1) r got(3)]], goal_cases)
      case (1 rc s2)
      then have h: "handled U ctx p s1 rc s2" and i2: "fwd_inv T fw ctx s2" by auto
      then have a: "across U ctx s1 s2" by (simp add: handled_def)
      show ?case
      proof (cases "rc < 0")
        case True
        then show ?thesis using h i2 same_objects_trans [OF got(5) across_same [OF a]]
          by (auto simp: wp_ret handled_def intro: live_mono)
      next
        case False
        then have "gi ctx {p} s2" "held p s2" using h by (auto simp: handled_def)
        from fwd.free_step [OF release_ok [OF this, unfolded conj_assoc [symmetric]] i2]
        have "wp (bnd (io_op_free U ctx p) (\<lambda>_. forwarder_loop T U w n fw)) (?Q s) s2"
        proof (rule wp_bndI, goal_cases)
          case (1 op s3)
          then have a3: "across U ctx s1 s3" using across_trans [OF a kept_across, of s3] by blast
          then have "K (kw s3) (trace s3)" using K got(4) by (auto simp: across_def kpres_def)
          then have "fwd.between ctx T fw K s3" using 1 by (simp add: fwd.between_def)
          from Suc.IH [OF this] show ?case
            by (rule wp_conseq) (use same_objects_trans [OF got(5) across_same [OF a3]] in
              \<open>auto split: option.splits intro: same_objects_trans\<close>)
        qed
        then show ?thesis using False by simp
      qed
    qed
  qed
  show ?case unfolding forwarder_loop_Suc
  proof (rule wp_loadI [where h = fwd_heap, OF f(2,1)], unfold f(3), rule wp_bndI [OF fwd.wait_step [OF U K Suc.prems, where w = w]], goal_cases)
    case (1 got s1)
    consider "got = None" | "got = Some NULL" | p where "got = Some p" "p \<noteq> NULL" by (cases got) auto
    then show ?case
    proof cases
      case 1
      then show ?thesis using \<open>outcome ctx got s1 \<and> _\<close> by (simp add: outcome_def wp_ret fwd.between_def)
    next
      case 2
      then show ?thesis using \<open>outcome ctx got s1 \<and> _\<close> by (simp add: outcome_def wp_ret)
    next
      case 3
      then show ?thesis using \<open>outcome ctx got s1 \<and> _\<close> body by (simp add: outcome_def)
    qed
  qed
qed

end
