(* ===== verification/Plaintext.thy ===== *)
theory Plaintext
  imports Frames Forwarder_Loop
begin

text \<open>
  Where plaintext goes. \<open>plaintext tr\<close> lists what the program has handed to \<^verbatim>\<open>SSL_write\<close> and got from
  \<^verbatim>\<open>SSL_read\<close>; \<open>plain.keeps m\<close> says that \<open>m\<close> does neither. Every datagram the forwarder passes on is read
  from the SSL object of the side it came from and written, byte for byte, to that of the other side.
\<close>

section \<open>The plaintext of a trace\<close>

fun plain_event :: "event \<Rightarrow> bool" where
  "plain_event (Ev_ssl_write p bs) = True"
| "plain_event (Ev_ssl_read p bs) = True"
| "plain_event _ = False"

definition plaintext :: "event list \<Rightarrow> event list" where
  "plaintext tr = filter plain_event tr"

lemma plaintext_Cons [simp]: "plaintext (e # tr) = (if plain_event e then e # plaintext tr else plaintext tr)"
  by (simp add: plaintext_def)

text \<open>The plaintext grows by \<open>es\<close>; connections and forwarder stay as they are.\<close>

definition plus_plain :: "event list \<Rightarrow> ('k, 't) net_state \<Rightarrow> ('k, 't) net_state \<Rightarrow> bool" where
  "plus_plain es s s' \<longleftrightarrow> plaintext (trace s') = es @ plaintext (trace s) \<and> conn_heap s' = conn_heap s \<and> fwd_heap s' = fwd_heap s"

lemma plus_plain_trans: "plus_plain es s s' \<Longrightarrow> plus_plain es' s' s'' \<Longrightarrow> plus_plain (es' @ es) s s''"
  by (simp add: plus_plain_def)

interpretation plain: frame "plus_plain []" "\<lambda>e. \<not> plain_event e" P U for P U
proof (unfold_locales, goal_cases)
  case (10 e)
  then show ?case by (cases e) auto
next
  case (12 e)
  then show ?case by (cases e) auto
qed (auto simp: plus_plain_def)

section \<open>Reading and writing\<close>

text \<open>A read with result \<open>r\<close> has delivered \<open>bs\<close> when \<open>r\<close> is positive.\<close>

definition read_event :: "ptr \<Rightarrow> int \<Rightarrow> byte list \<Rightarrow> event list" where
  "read_event ssl r bs = (if r \<le> 0 then [] else [Ev_ssl_read ssl bs])"

lemma SSL_read_plain:
  assumes T: "openssl_ok T"
  shows "wlp (SSL_read T ssl n) (\<lambda>(r, bs) s'. plus_plain (read_event ssl r bs) s s' \<and> read_result n (r, bs)) s"
proof (cases "ssl = NULL")
  case False
  from SSL_read_ok [OF T False, of n s] have "wlp (SSL_read T ssl n) (\<lambda>r _. read_result n r) s" by (auto simp: wlp_def wp_def)
  moreover have "wlp (SSL_read T ssl n) (\<lambda>(r, bs). plus_plain (read_event ssl r bs) s) s"
    by (auto simp: wlp_def SSL_read_def with_ssl_def plus_plain_def read_event_def exec_simps split: if_splits prod.splits)
  ultimately show ?thesis by (auto simp: wlp_def)
qed (simp add: wlp_def SSL_read_def with_ssl_def throwf_def)

lemma SSL_write_plain:
  "wlp (SSL_write T ssl d n) (\<lambda>r. plus_plain (if r \<le> 0 then [] else [Ev_ssl_write ssl (take (nat n) d)]) s) s"
  by (auto simp: wlp_def SSL_write_def with_ssl_def plus_plain_def exec_simps split: if_splits prod.splits)

text \<open>A positive result of an I/O function is no error (\<^verbatim>\<open>SSL_get_error\<close>, documented behaviour).\<close>

definition ssl_error_exact :: "'t openssl \<Rightarrow> bool" where
  "ssl_error_exact T \<longleftrightarrow> (\<forall>p rc t. 0 < rc \<longrightarrow> ssl_get_error T p rc t = SSL_ERROR_NONE)"

lemma get_error_plain:
  "ssl_error_exact T \<Longrightarrow> wlp (SSL_get_error T p rc) (\<lambda>err s'. s' = s \<and> (err \<noteq> SSL_ERROR_NONE \<longrightarrow> rc \<le> 0)) s"
  by (cases "0 < rc") (simp_all add: ssl_error_exact_def wlp_def SSL_get_error_def with_ssl_def exec_simps)

definition plain_result :: "ptr \<Rightarrow> int \<Rightarrow> ('k, 't) net_state \<Rightarrow> int \<times> byte list \<times> int \<Rightarrow> ('k, 't) net_state \<Rightarrow> bool" where
  "plain_result ssl n s = (\<lambda>(r, bs, err) s'. plus_plain (read_event ssl r bs) s s' \<and> read_result n (r, bs) \<and> (err \<noteq> SSL_ERROR_NONE \<longrightarrow> r \<le> 0))"

lemma ssl_read_retry_plain:
  assumes T: "openssl_ok T" "ssl_error_exact T"
  shows "plain_result ssl n s0 (got, bs, err) s \<Longrightarrow> err \<noteq> SSL_ERROR_NONE \<Longrightarrow>
    wlp (ssl_read_retry T ssl n i (got, bs, err)) (plain_result ssl n s0) s"
proof (induction i arbitrary: got bs err s)
  case 0
  then show ?case by (simp add: wlp_prims)
next
  case (Suc i)
  have old: "plus_plain [] s0 s" using Suc.prems by (auto simp: plain_result_def read_event_def split: if_splits)
  show ?case unfolding ssl_read_retry.simps
  proof (rule wlp_bndI [OF SSL_read_plain [OF T(1)]], goal_cases)
    case (1 x s1)
    obtain a b where x: "x = (a, b)" "plus_plain (read_event ssl a b) s s1" "read_result n (a, b)" using 1 by (cases x) auto
    have "wlp (if err \<noteq> SSL_ERROR_WANT_READ then ret (a, b, err) else ssl_read_retry T ssl n i (a, b, err)) (plain_result ssl n s0) s1"
      if "err \<noteq> SSL_ERROR_NONE \<longrightarrow> a \<le> 0" for err
    proof -
      have "plain_result ssl n s0 (a, b, err) s1" using plus_plain_trans [OF old x(2)] x(3) that by (simp add: plain_result_def)
      then show ?thesis using Suc.IH [of a b err s1] by (auto simp: wlp_prims ssl_error_defs)
    qed
    then show ?case unfolding x(1) prod.case by (intro wlp_bndI [OF get_error_plain [OF T(2)]]) auto
  qed
qed

lemma decrypt_plain:
  assumes T: "openssl_ok T" "ssl_error_exact T" and c: "conn_heap s conn = Some c"
  shows "wlp (dtls_decrypt_packet T conn d n cap) (\<lambda>(got, bs) s'. plus_plain (read_event (conn_ssl c) got bs) s s' \<and> read_result n (got, bs)) s"
  unfolding dtls_decrypt_packet_def
proof (rule wlp_loadI [where h = conn_heap, OF c], rule plain.keeps_bndI [OF plain.keeps_bio(1)], goal_cases)
  case (1 w s1)
  let ?Q = "\<lambda>(got, bs) s'. plus_plain (read_event (conn_ssl c) got bs) s s' \<and> read_result n (got, bs)"
  have tail: "wlp (if err \<noteq> SSL_ERROR_NONE then
       (if err = SSL_ERROR_ZERO_RETURN then ret (-1, [])
        else bnd (dtls_get_error_string T (conn_ssl c) got) (\<lambda>_. ret (-1, [])))
     else ret (got, bs)) ?Q s'" if r: "plain_result (conn_ssl c) n s (got, bs, err) s'" for got bs err s'
  proof -
    have "wlp (bnd (dtls_get_error_string T (conn_ssl c) got) (\<lambda>_. ret (-1, []))) ?Q s'" if "got \<le> 0"
    proof (rule plain.keeps_bndI [OF plain.keeps_bio(4)], goal_cases)
      case (1 _ s2)
      have "plus_plain [] s s'" using r that by (simp add: plain_result_def read_event_def)
      from plus_plain_trans [OF this 1] show ?case by (simp add: wlp_prims read_event_def read_result_def)
    qed
    moreover have "wlp (ret (-1, [])) ?Q s'" if "got \<le> 0"
      using r that by (simp add: wlp_prims plain_result_def read_event_def read_result_def)
    moreover have "wlp (ret (got, bs)) ?Q s'" using r by (simp add: wlp_prims plain_result_def)
    moreover have "err \<noteq> SSL_ERROR_NONE \<Longrightarrow> got \<le> 0" using r by (simp add: plain_result_def)
    ultimately show ?thesis by simp
  qed
  have retry: "wlp (if err = SSL_ERROR_WANT_READ then ssl_read_retry T (conn_ssl c) n 4 (got, bs, err) else ret (got, bs, err))
      (plain_result (conn_ssl c) n s) s'" if "plain_result (conn_ssl c) n s (got, bs, err) s'" for got bs err s'
    using ssl_read_retry_plain [OF T that] that by (auto simp: wlp_prims ssl_error_defs)
  have read: "wlp (bnd (SSL_read T (conn_ssl c) n) (\<lambda>(rd, bs).
     bnd (SSL_get_error T (conn_ssl c) rd) (\<lambda>err.
     bnd (if err = SSL_ERROR_WANT_READ then ssl_read_retry T (conn_ssl c) n 4 (rd, bs, err) else ret (rd, bs, err)) (\<lambda>(rd, bs, err).
     if err \<noteq> SSL_ERROR_NONE then
       (if err = SSL_ERROR_ZERO_RETURN then ret (-1, [])
        else bnd (dtls_get_error_string T (conn_ssl c) rd) (\<lambda>_. ret (-1, [])))
     else ret (rd, bs))))) ?Q s1"
  proof (rule wlp_bndI [OF SSL_read_plain [OF T(1)]], clarify, rule wlp_bndI [OF get_error_plain [OF T(2)]], goal_cases)
    case (1 got bs s2 err s3)
    then have "plain_result (conn_ssl c) n s (got, bs, err) s3"
      using plus_plain_trans [OF \<open>plus_plain [] s s1\<close>, of "read_event (conn_ssl c) got bs" s2] by (simp add: plain_result_def)
    from retry [OF this] show ?case by (rule wlp_bndI) (use tail in auto)
  qed
  have "wlp (bnd (c_assert (n < cap)) (\<lambda>_. m)) ?Q s1" if "wlp m ?Q s1" for m
    by (rule wlp_bndI [where R = "\<lambda>_ s'. s' = s1"]) (use that in \<open>auto simp: wlp_prims\<close>)
  then show ?case using read 1 by (auto simp: wlp_prims read_event_def read_result_def)
qed

text \<open>Encryption: the plaintext is written to the connection's SSL object, and nothing else is.\<close>

definition wrote :: "ptr \<Rightarrow> byte list \<Rightarrow> bool \<Rightarrow> ('k, 't) net_state \<Rightarrow> ('k, 't) net_state \<Rightarrow> bool" where
  "wrote ssl bs sure s s' \<longleftrightarrow> plus_plain [Ev_ssl_write ssl bs] s s' \<or> \<not> sure \<and> plus_plain [] s s'"

lemma wrote_quiet: "wrote ssl bs sure s s' \<Longrightarrow> plus_plain [] s' s'' \<Longrightarrow> (sure' \<longrightarrow> sure) \<Longrightarrow> wrote ssl bs sure' s s''"
  by (auto simp: wrote_def plus_plain_def)

lemma encrypt_plain:
  assumes c: "conn_heap s conn = Some c"
  shows "wlp (dtls_encrypt_packet T conn d n cap)
    (\<lambda>(got, bs). wrote (conn_ssl c) (take (nat n) d) (0 \<le> got) s) s"
  unfolding dtls_encrypt_packet_def
proof (rule wlp_loadI [where h = conn_heap, OF c], rule wlp_bndI [OF SSL_write_plain], goal_cases)
  case (1 w s1)
  let ?Q = "\<lambda>(got :: int, bs :: byte list). wrote (conn_ssl c) (take (nat n) d) (0 \<le> got) s"
  show ?case
  proof (cases "w \<le> 0")
    case True
    have "wlp (bnd (dtls_get_error_string T (conn_ssl c) w) (\<lambda>_. ret (-1, []))) ?Q s1"
      by (rule plain.keeps_bndI [OF plain.keeps_bio(4)]) (use 1 True in \<open>auto simp: wlp_prims wrote_def plus_plain_def\<close>)
    then show ?thesis using True by simp
  next
    case False
    have "wlp (bnd (BIO_read T (wbio c) cap) (\<lambda>(got, bs). if got \<le> 0 then ret (-1, []) else ret (got, bs))) ?Q s1"
      by (rule plain.keeps_bndI [OF plain.keeps_bio(2)]) (use 1 False in \<open>auto simp: wlp_prims wrote_def plus_plain_def\<close>)
    then show ?thesis using False by simp
  qed
qed

section \<open>The forwarder\<close>

lemma take_stack_array: "length bs \<le> BUF_SIZE \<Longrightarrow> take (length bs) (stack_array bs) = bs"
  by (simp add: stack_array_def)

lemma encrypt_and_send_plain:
  assumes c: "conn_heap s conn = Some c"
  shows "wlp (dtls_encrypt_and_send_udp T U conn (Stack d) n ctx)
    (\<lambda>rc. wrote (conn_ssl c) (take (nat (int_of_size n)) d) (0 \<le> rc) s) s"
  unfolding dtls_encrypt_and_send_udp_def
proof (rule plain.keeps_bndI [OF plain.keeps_packet(1)], goal_cases)
  case (1 _ s1)
  then have c1: "conn_heap s1 conn = Some c" using c by (simp add: plus_plain_def)
  let ?Q = "\<lambda>rc :: int. wrote (conn_ssl c) (take (nat (int_of_size n)) d) (0 \<le> rc) s"
  show ?case
  proof (rule wlp_loadI [where h = conn_heap, OF c1], rule plain.keeps_bndI [OF plain.keeps_alloc(2)], goal_cases)
    case (1 op s2)
    then have s2: "plus_plain [] s s2" and c2: "conn_heap s2 conn = Some c"
      using plus_plain_trans [OF \<open>plus_plain [] s s1\<close>] c1 by (auto simp: plus_plain_def)
    have fail: "wlp (bnd (io_op_free U ctx op) (\<lambda>_. ret (-1))) ?Q s3"
      if "wrote (conn_ssl c) (take (nat (int_of_size n)) d) sure s s3" for s3 sure
      by (rule plain.keeps_bndI [OF plain.keeps_release]) (use that in \<open>auto simp: wlp_prims intro: wrote_quiet\<close>)
    have "wlp (bnd (dtls_encrypt_packet T conn d (int_of_size n) (int BUF_SIZE)) (\<lambda>(rd, bs).
     bnd (fill_op op rd bs) (\<lambda>_.
     if rd < 0 then bnd (io_op_free U ctx op) (\<lambda>_. ret (-1)) else
     bnd (iouring_submit_udp_send U ctx op (Some (conn_addr c)) (conn_addr_len c) None rd) (\<lambda>rc.
     if rc < 0 then bnd (io_op_free U ctx op) (\<lambda>_. ret (-1)) else ret 0)))) ?Q s2"
    proof (rule wlp_bndI [OF encrypt_plain [OF c2]], clarify, rule plain.keeps_bndI [OF plain.keeps_packet(3)], goal_cases)
      case (1 got bs s3 _ s4)
      then have w: "wrote (conn_ssl c) (take (nat (int_of_size n)) d) (0 \<le> got) s s4"
        using s2 by (auto simp: wrote_def plus_plain_def)
      show ?case
      proof (cases "got < 0")
        case False
        have "wlp (bnd (iouring_submit_udp_send U ctx op (Some (conn_addr c)) (conn_addr_len c) None got) (\<lambda>rc.
          if rc < 0 then bnd (io_op_free U ctx op) (\<lambda>_. ret (-1)) else ret 0)) ?Q s4"
        proof (rule plain.keeps_bndI [OF plain.keeps_submit(1)], goal_cases)
          case (1 rc s5)
          then have "wrote (conn_ssl c) (take (nat (int_of_size n)) d) True s s5" using w False by (auto intro: wrote_quiet)
          then show ?case using fail by (auto simp: wlp_prims)
        qed
        then show ?thesis using False by simp
      qed (use fail [OF w] in simp)
    qed
    then show ?case using s2 by (auto simp: wlp_prims bnd_ret wrote_def)
  qed
qed

text \<open>
  What one call of \<^verbatim>\<open>forward_udp_packet\<close> does with plaintext: nothing; or it reads a packet from the
  receiving side and loses it; or it also writes that packet to the other side. Success is only the last.
\<close>

lemma forward_plain:
  assumes T: "openssl_ok T" "ssl_error_exact T" and r: "op_heap s p = Some r" and f: "fwd_heap s fw = Some f"
    and ci: "conn_heap s (fw_inbound f) = Some ci" and co: "conn_heap s (fw_outbound f) = Some co"
    and io: "(rs, fs) = (if op_fd r = udp_fd ci then (conn_ssl ci, conn_ssl co) else (conn_ssl co, conn_ssl ci))"
  shows "wlp (forward_udp_packet T U fw p) (\<lambda>rc s'. (rc = 0 \<or> rc = -1) \<and>
    (rc = -1 \<and> plus_plain [] s s' \<or>
     (\<exists>bs. bs \<noteq> [] \<and> (rc = -1 \<and> plus_plain [Ev_ssl_read rs bs] s s' \<or> plus_plain [Ev_ssl_write fs bs, Ev_ssl_read rs bs] s s')))) s"
proof -
  let ?Q = "\<lambda>rc s'. (rc = 0 \<or> rc = -1) \<and> (rc = (-1 :: int) \<and> plus_plain [] s s' \<or>
     (\<exists>bs. bs \<noteq> [] \<and> (rc = -1 \<and> plus_plain [Ev_ssl_read rs bs] s s' \<or> plus_plain [Ev_ssl_write fs bs, Ev_ssl_read rs bs] s s')))"
  have pass: "wlp (bnd (object_at (op_buffer r)) (\<lambda>d.
     bnd (dtls_decrypt_packet T rconn d (data_len r) (int BUF_SIZE)) (\<lambda>(n, bs).
     if BUF_SIZE < length bs then throwf Out_of_bounds else
     if n \<le> 0 then ret (-1) else
     bnd (print_packet (Stack (stack_array bs)) (size_of_int n)) (\<lambda>_.
     bnd (dtls_encrypt_and_send_udp T U fconn (Stack (stack_array bs)) (size_of_int n) (fw_uring f)) (\<lambda>rc.
     if rc < 0 then ret (-1) else ret 0))))) ?Q s1"
    if s1: "plus_plain [] s s1" and rc: "conn_heap s rconn = Some cr" "conn_ssl cr = rs" and fc: "conn_heap s fconn = Some cf" "conn_ssl cf = fs"
    for s1 rconn fconn cr cf
  proof (rule plain.keeps_bndI [OF plain.keeps_memory(3)], goal_cases)
    case (1 d s2)
    then have s2: "plus_plain [] s s2" and c2: "conn_heap s2 rconn = Some cr" using s1 rc(1) by (auto simp: plus_plain_def)
    show ?case
    proof (rule wlp_bndI [OF decrypt_plain [OF T c2]], clarify, goal_cases)
      case (1 n bs s3)
      show ?case
      proof (cases "BUF_SIZE < length bs \<or> n \<le> 0")
        case True
        then show ?thesis using 1 s2 by (auto simp: wlp_prims read_event_def plus_plain_def)
      next
        case False
        with 1(2) have n: "length bs = nat n" "bs \<noteq> []" by (auto simp: read_result_def)
        have "int_of_size (size_of_int n) = n" using False n by (subst size_of_int_small) (auto simp: int_of_size_small)
        then have t: "take (nat (int_of_size (size_of_int n))) (stack_array bs) = bs"
          using take_stack_array [of bs] False n(1) by simp
        have s3: "plus_plain [Ev_ssl_read rs bs] s s3" using 1(1) s2 False rc(2) by (auto simp: read_event_def plus_plain_def)
        have "wlp (bnd (print_packet (Stack (stack_array bs)) (size_of_int n)) (\<lambda>_.
          bnd (dtls_encrypt_and_send_udp T U fconn (Stack (stack_array bs)) (size_of_int n) (fw_uring f)) (\<lambda>rc.
          if rc < 0 then ret (-1) else ret 0))) ?Q s3"
        proof (rule plain.keeps_bndI [OF plain.keeps_packet(1)], goal_cases)
          case (1 _ s4)
          then have s4: "plus_plain [Ev_ssl_read rs bs] s s4" "conn_heap s4 fconn = Some cf" using s3 fc(1) by (auto simp: plus_plain_def)
          show ?case
            by (rule wlp_bndI [OF encrypt_and_send_plain [OF s4(2)]])
              (use s4(1) n(2) fc(2) in \<open>auto simp: wlp_prims t wrote_def plus_plain_def\<close>)
        qed
        then show ?thesis using False by simp
      qed
    qed
  qed
  show ?thesis unfolding forward_udp_packet_def Let_def
  proof (rule wlp_loadI [where h = op_heap, OF r], rule wlp_loadI [where h = fwd_heap, OF f], rule wlp_loadI [where h = conn_heap, OF ci],
      rule plain.keeps_bndI [OF plain.keeps_memory(3)], rule plain.keeps_bndI [OF plain.keeps_print(2)], goal_cases)
    case (1 adr s1 _ s2)
    then have s2: "plus_plain [] s s2" by (simp add: plus_plain_def)
    show ?case using pass [OF s2 ci _ co] pass [OF s2 co _ ci] io s2 by (cases "op_fd r = udp_fd ci") (auto simp: wlp_prims)
  qed
qed

end
