(* ===== verification/Sample_World.thy ===== *)
theory Sample_World
  imports Edge Plaintext
begin

text \<open>
  A concrete world in which the hypotheses of the theorems hold: a kernel that remembers the
  entries in flight and completes the newest one (a TUN read delivers a 20-byte IPv4 packet, a
  write or send is done in full, a multishot receive finds no datagram), system calls that succeed, an
  OpenSSL that passes bytes through, and a state with one TUN read and one multishot receive in
  flight. The witnesses of the properties apply them here.
\<close>

section \<open>The kernel\<close>

definition sample_packet :: "byte list" where
  "sample_packet = 0x45 # 0 # 0 # 20 # replicate 16 0"

fun sample_completion :: "sqe list \<Rightarrow> int \<times> cqe" where
  "sample_completion (Sqe_read fd m n u # es) =
     (0, \<lparr>cqe_data = u, cqe_res = int (min 20 n), cqe_flags = 0, cqe_writes = [(m, take n sample_packet)]\<rparr>)"
| "sample_completion (Sqe_write fd m n u # es) = (0, \<lparr>cqe_data = u, cqe_res = int n, cqe_flags = 0, cqe_writes = []\<rparr>)"
| "sample_completion (Sqe_sendmsg fd h v u # es) =
     (0, \<lparr>cqe_data = u, cqe_res = int (iov_len v), cqe_flags = 0, cqe_writes = []\<rparr>)"
| "sample_completion _ = (-ETIME, no_cqe)"

definition sample_uring :: "sqe list liburing" where
  "sample_uring = \<lparr>queue_init_params = (\<lambda>sq cq k. (0, k)), setup_buf_ring = (\<lambda>n g k. (True, k)),
     buf_ring_add = (\<lambda>b off sl k. k), buf_ring_advance = (\<lambda>n k. k), free_buf_ring = (\<lambda>n g k. (0, k)),
     get_sqe = (\<lambda>k. (True, k)), prep = (\<lambda>e k. e # k), submit = (\<lambda>k. (1, k)),
     wait_cqe_timeout = (\<lambda>k. (sample_completion k, k)), peek_cqe = (\<lambda>k. (sample_completion k, k)), cqe_seen = tl,
     queue_exit = (\<lambda>k. k), recvmsg_validate = (\<lambda>buf res m. 144 \<le> res), recvmsg_name = (\<lambda>buf. Some 16),
     recvmsg_namelen = (\<lambda>buf. 16), recvmsg_payload = (\<lambda>buf m. Some 144), recvmsg_payload_length = (\<lambda>buf res m. res - 144)\<rparr>"

text \<open>The kernel knows what is in flight.\<close>

definition sample_knows :: "sqe list \<Rightarrow> event list \<Rightarrow> bool" where
  "sample_knows k tr \<longleftrightarrow> k = inflight tr"

lemma sample_recvmsg_ok: "recvmsg_ok sample_uring"
  by (simp add: recvmsg_ok_def sample_uring_def SOCKADDR_STORAGE_def RECVMSG_OUT_SIZE_def BUF_SIZE_def)

lemma flags_0 [simp]: "\<not> has_more 0" "\<not> has_buffer 0"
  by (simp_all add: has_more_def has_buffer_def)

lemma sample_completion_legal:
  assumes "sample_completion k = (rc, c)" and "\<not> rc < 0" and i: "inflight tr = k"
  shows "cqe_ok ctx tr c" and "inflight (Ev_cqe (cqe_data c) (cqe_flags c) # tr) = tl k"
  using assms by (cases k rule: sample_completion.cases;
    force simp: cqe_ok_def cqe_legal_def ETIME_def sample_packet_def)+

lemma sample_kernel_ok: "kernel_ok sample_uring ctx sample_knows"
proof -
  have off: "inflight (e # tr) = inflight tr" if "off_ring e" for e tr using that by (cases e) auto
  have wait: "if rc < 0 then inflight tr = inflight tr
      else cqe_ok ctx tr c \<and> tl (inflight tr) = inflight (Ev_cqe (cqe_data c) (cqe_flags c) # tr)"
    if e: "sample_completion (inflight tr) = (rc, c)" for rc c tr
    using sample_completion_legal [OF e _ refl] by simp
  show ?thesis unfolding kernel_ok_def sample_knows_def
    by (simp add: sample_uring_def off split: prod.split del: inflight.simps(3)) (use wait in auto)
qed

section \<open>A state\<close>

text \<open>
  Context 1 with one ring buffer; operations 2 and 7 and buffers 5 and 8 free, operation 3 reading
  from TUN descriptor 8 into buffer 4, operation 6 the multishot receive of socket 9.
\<close>

definition sample_config :: iouring_config where
  "sample_config = \<lparr>sq_depth = 8, cq_depth = 16, br_gid = 1, br_n_bufs = 1, n_io_ops = 4, n_initial_recv_ops = 0,
     n_initial_read_ops = 1\<rparr>"

definition sample_ctx :: iouring_ctx where
  "sample_ctx = \<lparr>config = sample_config, io_op_pool = 2, buf_addr_pool = 5, br_bufs = Some (replicate BUF_SIZE 0),
     br = True, multi_recv_rearmed = 0\<rparr>"

definition sample_ops :: "ptr \<rightharpoonup> io_op" where
  "sample_ops = [2 \<mapsto> zero_op\<lparr>op_next := 7\<rparr>, 7 \<mapsto> zero_op, 3 \<mapsto> new_op OP_TYPE_TUN_READ 8 4,
     6 \<mapsto> (new_multi_op OP_TYPE_UDP_RECV 9)\<lparr>op_msg := (op_msg zero_op)\<lparr>msg_namelen := SOCKADDR_STORAGE\<rparr>\<rparr>]"

definition sample_bufs :: "ptr \<rightharpoonup> buf_addr" where
  "sample_bufs = [4 \<mapsto> zero_buf_addr, 5 \<mapsto> zero_buf_addr\<lparr>ba_next := 8\<rparr>, 8 \<mapsto> zero_buf_addr]"

definition sample_inflight :: "sqe list" where
  "sample_inflight = [Sqe_read 8 (MBuf 4) BUF_SIZE 3, Sqe_recvmsg_multishot 9 6 1 6]"

text \<open>Connection 10 with its SSL object and peer, forwarder 12 between connections 10 and 13.\<close>

definition sample_conn :: connection where
  "sample_conn = zero_conn\<lparr>udp_fd := 9, conn_ssl := 100, rbio := 101, wbio := 102, conn_addr_len := 16\<rparr>"

definition sample_state :: "(sqe list, byte list) net_state" where
  "sample_state = \<lparr>kw = sample_inflight, trace = map Ev_prep sample_inflight @ [Ev_br_add 0 0 0], next_addr = 20,
     ctx_heap = [1 \<mapsto> sample_ctx], op_heap = sample_ops, buf_heap = sample_bufs, tw = [], tun_heap = Map.empty,
     dtls_heap = Map.empty, conn_heap = [10 \<mapsto> sample_conn, 13 \<mapsto> sample_conn\<lparr>udp_fd := 14, conn_ssl := 103\<rparr>],
     fwd_heap = [12 \<mapsto> \<lparr>fw_uring = 1, fw_outbound = 13, fw_inbound = 10\<rparr>]\<rparr>"

lemmas sample_defs = sample_state_def sample_ops_def sample_bufs_def sample_inflight_def sample_ctx_def sample_config_def
  new_op_def new_multi_op_def zero_op_def zero_buf_addr_def

lemma sample_ops_cases:
  "sample_ops p = Some r \<Longrightarrow> p \<in> {2, 7} \<or> p = 3 \<and> r = new_op OP_TYPE_TUN_READ 8 4 \<or>
     p = 6 \<and> r = (new_multi_op OP_TYPE_UDP_RECV 9)\<lparr>op_msg := (op_msg zero_op)\<lparr>msg_namelen := SOCKADDR_STORAGE\<rparr>\<rparr>"
  by (auto simp: sample_ops_def split: if_splits)

lemma sample_uinv: "uinv 1 [2, 7] [5, 8] sample_state"
proof -
  have "own [2, 7] [5, 8] 1 sample_ops sample_bufs [0]"
    unfolding own_def by (auto simp: op_wf_def op_sep_def new_op_def new_multi_op_def zero_op_def sample_bufs_def op_type_defs
      dest!: sample_ops_cases)
  moreover have "buf_sizes sample_bufs" by (simp add: buf_sizes_def sample_bufs_def zero_buf_addr_def)
  ultimately show ?thesis
    by (simp add: uinv_def ring_ok_def sample_defs op_nx_def buf_nx_def)
qed

lemma sample_ginv: "ginv 1 [2, 7] [5, 8] {} sample_state"
proof -
  have o: "outstanding (trace sample_state) = [3, 6]" by (simp add: outstanding_def sample_state_def sample_inflight_def)
  have "linked [2, 7] sample_state"
    unfolding linked_def o by (auto simp: sample_state_def sample_inflight_def sample_ops_def new_op_def new_multi_op_def zero_op_def op_type_defs)
  moreover have "ring_addrs (trace sample_state)" by (simp add: sample_state_def sample_inflight_def ring_addrs_def)
  moreover have "dom (op_heap sample_state) = set [2, 7] \<union> set (outstanding (trace sample_state)) \<union> {}"
    unfolding o by (auto simp: sample_state_def sample_ops_def split: if_splits)
  moreover have "lossless [2, 7] [5, 8] (ring_n 1 sample_state) (op_heap sample_state) (dom (buf_heap sample_state)) (provided (trace sample_state))"
    by (auto simp: lossless_def ring_n_def sample_defs split: if_splits intro!: exI [of _ "3 :: nat"])
  moreover have "idle [2, 7] {} (op_heap sample_state)"
    by (auto simp: idle_def sample_state_def new_op_def new_multi_op_def zero_op_def dest!: sample_ops_cases)
  ultimately show ?thesis using sample_uinv by (simp add: ginv_def)
qed

lemma sample_gi: "gi 1 {} sample_state"
  unfolding gi_def using sample_ginv by blast

lemma sample_knows_state: "sample_knows (kw sample_state) (trace sample_state)"
  by (simp add: sample_knows_def sample_state_def sample_inflight_def)

lemma sample_conn_ok: "conn_ok 10 sample_state"
  by (simp add: conn_ok_def sample_state_def sample_conn_def zero_conn_def SOCKADDR_STORAGE_def)

section \<open>System calls and OpenSSL\<close>

definition sample_posix :: "'k posix" where
  "sample_posix = \<lparr>calloc_ok = (\<lambda>k. (True, k)), memalign_ok = (\<lambda>k. (True, k)), sig_running = (\<lambda>k. True),
     sys_socket = (\<lambda>k. (9, k)), sys_bind = (\<lambda>fd a k. (0, k)), sys_getfl = (\<lambda>fd k. (0, k)), sys_setfl = (\<lambda>fd n k. (0, k)),
     sys_setsockopt = (\<lambda>fd o' n k. (0, k)), sys_close = (\<lambda>fd k. k), sys_getaddrinfo = (\<lambda>h p k. ((0, 2 # replicate 15 0), k)),
     inet_pton4 = (\<lambda>a. Some [10, 0, 0, 1]), sys_open_tun = (\<lambda>k. (8, k)),
     sys_ioctl = (\<lambda>fd r k. (\<lparr>ifr_rc = 0, ifr_name = ''tun0'', ifr_flags = 0\<rparr>, k)), sys_fopen = (\<lambda>f k. (True, k)),
     sys_fprintf = (\<lambda>t k. (2, k)), sys_fclose = (\<lambda>k. k), sys_time = (\<lambda>k. (0, k))\<rparr>"

text \<open>The state of this OpenSSL is one queue of bytes, which every write fills and every read empties.\<close>

definition queue_read :: "nat \<Rightarrow> byte list \<Rightarrow> (int \<times> byte list) \<times> byte list" where
  "queue_read n t = ((int (length (take n t)), take n t), drop n t)"

definition sample_openssl :: "byte list openssl" where
  "sample_openssl = \<lparr>ssl_ctx_new = (\<lambda>srv t. (200, t)), ssl_ctx_use_certificate_file = (\<lambda>p f t. (1, t)),
     ssl_ctx_use_private_key_file = (\<lambda>p f t. (1, t)), ssl_ctx_check_private_key = (\<lambda>p t. (1, t)),
     ssl_ctx_set_cipher_list = (\<lambda>p c t. (1, t)), ssl_ctx_load_verify_locations = (\<lambda>p f t. (1, t)),
     ssl_ctx_set_verify = (\<lambda>p b t. t), ssl_ctx_set_cookie_cbs = (\<lambda>p t. t), ssl_ctx_free = (\<lambda>p t. t), ssl_new = (\<lambda>p t. (100, t)),
     ssl_set_mtu = (\<lambda>p m t. t), ssl_is_server = (\<lambda>p t. False), ssl_set_state = (\<lambda>p b t. t), ssl_set_bio = (\<lambda>p r w t. t),
     ssl_free = (\<lambda>p t. t), bio_new = (\<lambda>t. (101, t)), bio_free = (\<lambda>b t. t), bio_set_mem_eof_return = (\<lambda>b n t. t),
     bio_write = (\<lambda>b d t. (int (length d), t @ d)), bio_read = (\<lambda>b. queue_read), bio_pending = (\<lambda>b t. int (length t)),
     ssl_write = (\<lambda>p d t. (int (length d), t @ d)), ssl_read = (\<lambda>p. queue_read), ssl_get_error = (\<lambda>p rc t. SSL_ERROR_NONE),
     ssl_do_handshake = (\<lambda>p t. (1, t)), err_clear_error = (\<lambda>t. t)\<rparr>"

lemma sample_openssl_ok: "openssl_ok sample_openssl"
  by (auto simp: openssl_ok_def sample_openssl_def queue_read_def)

lemma sample_all_multi: "all_multi sample_state"
  by (auto simp: all_recv_def recv_on_def sample_defs op_type_defs split: if_splits)

lemma sample_dtls_inv: "dtls_inv sample_openssl 10 sample_state"
  using sample_openssl_ok sample_all_multi sample_conn_ok
  by (simp add: dtls_inv_def conn_tls_def) (simp add: sample_state_def sample_conn_def)

lemmas sample_world = sample_recvmsg_ok sample_kernel_ok [of 1] sample_gi sample_knows_state

section \<open>Two received packets\<close>

text \<open>The TUN read has completed: operation 3 holds the packet, operation 2 reads into buffer 5 now.\<close>

definition tun_packet_op :: io_op where
  "tun_packet_op = (new_op OP_TYPE_TUN_READ 8 4)\<lparr>data_len := 20\<rparr>"

definition sample_tun_state :: "(sqe list, byte list) net_state" where
  "sample_tun_state = sample_state\<lparr>trace := map Ev_prep [Sqe_read 8 (MBuf 5) BUF_SIZE 2, Sqe_recvmsg_multishot 9 6 1 6] @ [Ev_br_add 0 0 0],
     ctx_heap := [1 \<mapsto> sample_ctx\<lparr>io_op_pool := 7, buf_addr_pool := 8\<rparr>],
     op_heap := sample_ops(2 \<mapsto> new_op OP_TYPE_TUN_READ 8 5, 3 \<mapsto> tun_packet_op)\<rparr>"

text \<open>A datagram has arrived: operation 6 holds ring buffer 0 with address and payload.\<close>

definition udp_packet_op :: io_op where
  "udp_packet_op = (new_multi_op OP_TYPE_UDP_RECV 9)\<lparr>op_msg := (op_msg zero_op)\<lparr>msg_namelen := SOCKADDR_STORAGE\<rparr>,
     buf_idx := 0, data_len := 20, op_buffer := MRing 1 144, op_addr := MRing 1 16, op_addr_len := 16\<rparr>"

definition sample_udp_state :: "(sqe list, byte list) net_state" where
  "sample_udp_state = sample_state\<lparr>trace := Ev_cqe 6 3 # trace sample_state, op_heap := sample_ops(6 \<mapsto> udp_packet_op)\<rparr>"

lemma flags_3 [simp]: "has_more 3" "has_buffer 3" "buffer_id 3 = 0"
  by (simp_all add: has_more_def has_buffer_def buffer_id_def IORING_CQE_F_MORE_def IORING_CQE_F_BUFFER_def IORING_CQE_BUFFER_SHIFT_def)

lemma sample_tun_received: "received 1 3 sample_tun_state"
proof -
  let ?s = sample_tun_state and ?O = "sample_ops(2 \<mapsto> new_op OP_TYPE_TUN_READ 8 5, 3 \<mapsto> tun_packet_op)"
  have o: "outstanding (trace ?s) = [2, 6]" by (simp add: outstanding_def sample_tun_state_def)
  have "own [7] [8] 1 ?O sample_bufs [0]"
    unfolding own_def by (auto simp: op_wf_def op_sep_def new_op_def new_multi_op_def zero_op_def sample_bufs_def op_type_defs
      tun_packet_op_def split: if_splits dest!: sample_ops_cases)
  moreover have "buf_sizes sample_bufs" by (simp add: buf_sizes_def sample_bufs_def zero_buf_addr_def)
  ultimately have u: "uinv 1 [7] [8] ?s"
    by (simp add: uinv_def ring_ok_def sample_tun_state_def sample_defs op_nx_def buf_nx_def)
  moreover have "linked [7] ?s" unfolding linked_def o
    by (auto simp: sample_tun_state_def sample_ops_def new_op_def new_multi_op_def zero_op_def op_type_defs)
  moreover have "ring_addrs (trace ?s)" by (simp add: sample_tun_state_def ring_addrs_def)
  moreover have "dom (op_heap ?s) = set [7] \<union> set (outstanding (trace ?s)) \<union> {3}" unfolding o
    by (auto simp: sample_tun_state_def sample_ops_def split: if_splits)
  moreover have "lossless [7] [8] (ring_n 1 ?s) (op_heap ?s) (dom (buf_heap ?s)) (provided (trace ?s))"
    by (auto simp: lossless_def ring_n_def sample_tun_state_def sample_defs tun_packet_op_def split: if_splits
      intro: exI [of _ "3 :: nat"] exI [of _ "2 :: nat"])
  moreover have "idle [7] {3} (op_heap ?s)"
    by (auto simp: idle_def sample_tun_state_def new_op_def new_multi_op_def zero_op_def tun_packet_op_def split: if_splits dest!: sample_ops_cases)
  ultimately have "ginv 1 [7] [8] {3} ?s" by (simp add: ginv_def)
  moreover have "packet_ok 1 tun_packet_op ?s"
    by (simp add: packet_ok_def tun_packet_op_def new_op_def valid_mem_def sample_tun_state_def sample_state_def sample_bufs_def
      zero_op_def op_type_defs BUF_SIZE_def)
  ultimately show ?thesis unfolding received_def gi_def o
    by (auto simp: sample_tun_state_def tun_packet_op_def new_op_def zero_op_def)
qed

lemma sample_udp_received: "received 1 6 sample_udp_state"
proof -
  let ?s = sample_udp_state and ?O = "sample_ops(6 \<mapsto> udp_packet_op)"
  have o: "outstanding (trace ?s) = [3, 6]" by (simp add: outstanding_def sample_udp_state_def sample_state_def sample_inflight_def)
  have "own [2, 7] [5, 8] 1 ?O sample_bufs []"
    unfolding own_def by (auto simp: op_wf_def op_sep_def new_op_def new_multi_op_def zero_op_def sample_bufs_def op_type_defs
      udp_packet_op_def split: if_splits dest!: sample_ops_cases)
  moreover have "buf_sizes sample_bufs" by (simp add: buf_sizes_def sample_bufs_def zero_buf_addr_def)
  ultimately have "uinv 1 [2, 7] [5, 8] ?s"
    by (simp add: uinv_def ring_ok_def sample_udp_state_def sample_defs op_nx_def buf_nx_def)
  moreover have "linked [2, 7] ?s" unfolding linked_def o
    by (auto simp: sample_udp_state_def sample_state_def sample_inflight_def sample_ops_def new_op_def new_multi_op_def zero_op_def
      op_type_defs udp_packet_op_def)
  moreover have "ring_addrs (trace ?s)" by (simp add: sample_udp_state_def sample_state_def sample_inflight_def ring_addrs_def)
  moreover have "dom (op_heap ?s) = set [2, 7] \<union> set (outstanding (trace ?s)) \<union> {6}" unfolding o
    by (auto simp: sample_udp_state_def sample_ops_def split: if_splits)
  moreover have "lossless [2, 7] [5, 8] (ring_n 1 ?s) (op_heap ?s) (dom (buf_heap ?s)) (provided (trace ?s))"
    by (auto simp: lossless_def ring_n_def sample_udp_state_def sample_defs udp_packet_op_def split: if_splits
      intro: exI [of _ "3 :: nat"] exI [of _ "6 :: nat"])
  moreover have "idle [2, 7] {6} (op_heap ?s)"
    by (auto simp: idle_def sample_udp_state_def new_op_def new_multi_op_def zero_op_def udp_packet_op_def split: if_splits
      dest!: sample_ops_cases)
  ultimately have "ginv 1 [2, 7] [5, 8] {6} ?s" by (simp add: ginv_def)
  moreover have "packet_ok 1 udp_packet_op ?s"
    by (simp add: packet_ok_def udp_packet_op_def new_multi_op_def valid_mem_def sample_udp_state_def sample_defs
      op_type_defs BUF_SIZE_def SOCKADDR_STORAGE_def)
  ultimately show ?thesis unfolding received_def gi_def o
    by (auto simp: sample_udp_state_def udp_packet_op_def new_multi_op_def)
qed

lemma sample_packets:
  "op_heap sample_tun_state 3 = Some tun_packet_op" "op_heap sample_udp_state 6 = Some udp_packet_op"
  "conn_ok 10 sample_tun_state" "conn_heap sample_tun_state 10 = Some sample_conn"
  by (simp_all add: sample_tun_state_def sample_udp_state_def conn_ok_def sample_state_def sample_conn_def zero_conn_def SOCKADDR_STORAGE_def)

end
