(* ===== verification/Lifecycle.thy ===== *)
theory Lifecycle
  imports Sample_World
begin

text \<open>
  Life cycles of the objects of the programs: TUN device, connection, DTLS context and SSL object.
  What a failed call leaves behind, and what a successful one adds, is read off the trace
  (\<open>open_fds\<close>, \<open>tls_live\<close>) and the heaps.
\<close>

section \<open>The TUN device\<close>

text \<open>After the device has been created: its descriptor is open, and nothing else is new.\<close>

definition tun_created :: "('k, 't) net_state \<Rightarrow> ptr \<Rightarrow> ('k, 't) net_state \<Rightarrow> bool" where
  "tun_created s tun s' \<longleftrightarrow> (if tun = NULL then tun_heap s' = tun_heap s \<and> open_fds (trace s') = open_fds (trace s)
     else tun = next_addr s \<and> next_addr s' = Suc tun \<and> (\<exists>t. tun_heap s' = (tun_heap s)(tun \<mapsto> t) \<and> 0 \<le> tun_fd t \<and>
       open_fds (trace s') = tun_fd t # open_fds (trace s))) \<and> sys_frame s s'"

lemma create_ok:
  assumes "next_addr s \<noteq> NULL" and "tun_heap s (next_addr s) = None"
  shows "wp (tun_device_create P name) (tun_created s) s"
  using assms
  by (auto simp: tun_device_create_def calloc_tun_def wp_simps Let_def tun_created_def sys_frame_def split: prod.splits)

lemma created_cfg:
  assumes "tun_created s tun s1" and "tun \<noteq> NULL" and c: "cfg_post tun s1 rc s2"
  shows "tun_created s tun s2"
proof -
  from assms obtain t where t: "tun = next_addr s" "next_addr s1 = Suc tun" "tun_heap s1 = (tun_heap s)(tun \<mapsto> t)" "0 \<le> tun_fd t"
    "open_fds (trace s1) = tun_fd t # open_fds (trace s)" "sys_frame s s1" by (auto simp: tun_created_def)
  from c t obtain t' where t': "tun_heap s2 tun = Some t'" "tun_fd t' = tun_fd t" by (auto simp: cfg_post_def)
  have "tun_heap s2 = (tun_heap s)(tun \<mapsto> t')" using c t t' by (auto simp: cfg_post_def fun_eq_iff)
  then show ?thesis using c t t' assms(2) by (auto simp: tun_created_def cfg_post_def intro: sys_frame_trans)
qed

lemma destroy_ok:
  assumes "tun_created s tun s1" and "tun \<noteq> NULL" and "tun_heap s (next_addr s) = None"
  shows "wp (bnd (tun_device_destroy P tun) (\<lambda>_. ret NULL)) (tun_created s) s1"
proof -
  from assms obtain t where t: "tun = next_addr s" "tun_heap s1 = (tun_heap s)(tun \<mapsto> t)" "0 \<le> tun_fd t"
    "open_fds (trace s1) = tun_fd t # open_fds (trace s)" "sys_frame s s1" by (auto simp: tun_created_def)
  have "(tun_heap s)(tun := None) = tun_heap s" using t(1) assms(3) by auto
  then show ?thesis using t assms(2) by (auto simp: tun_device_destroy_def wp_simps tun_created_def sys_frame_def)
qed

lemma new_tun_device_created:
  assumes "next_addr s \<noteq> NULL" and n: "tun_heap s (next_addr s) = None"
  shows "wp (new_tun_device P ifname ip netmask mtu) (tun_created s) s"
  unfolding new_tun_device_def
proof (rule wp_bndI [OF create_ok [OF assms]], goal_cases)
  case (1 tun s1)
  show ?case
  proof (cases "tun = NULL")
    case False
    note c = created_cfg [OF 1 False]
    have live: "tun \<noteq> NULL \<longrightarrow> tun_heap s2 tun \<noteq> None" if "tun_created s tun s2" for s2
      using that False by (auto simp: tun_created_def)
    have "wp (bnd (tun_device_configure P tun ip netmask mtu) (\<lambda>rc. if rc < 0 then bnd (tun_device_destroy P tun) (\<lambda>_. ret NULL) else
       bnd (tun_device_up P tun) (\<lambda>rc. if rc < 0 then bnd (tun_device_destroy P tun) (\<lambda>_. ret NULL) else ret tun)))
      (tun_created s) s1"
    proof (rule wp_bndI [OF configure_ok [OF live [OF 1]]], goal_cases)
      case (1 rc s2)
      note c2 = c [OF 1]
      have "wp (bnd (tun_device_up P tun) (\<lambda>rc. if rc < 0 then bnd (tun_device_destroy P tun) (\<lambda>_. ret NULL) else ret tun))
        (tun_created s) s2"
        by (rule wp_bndI [OF up_ok [OF live [OF c2]]])
          (use destroy_ok [OF created_cfg [OF c2 False] False n] created_cfg [OF c2 False] in \<open>auto simp: wp_ret\<close>)
      then show ?case using destroy_ok [OF c2 False n] by simp
    qed
    then show ?thesis using False by simp
  qed (use 1 in \<open>simp add: wp_ret\<close>)
qed

text \<open>
  C25: \<^verbatim>\<open>new_tun_device\<close> either fails and leaves no device and no open descriptor behind, or adds one device whose descriptor is
  the only one newly open, whatever the system calls answer.
\<close>

theorem new_tun_device_no_leak:
  assumes "next_addr s \<noteq> NULL" and "tun_heap s (next_addr s) = None"
  shows "wp (new_tun_device P ifname ip netmask mtu) (\<lambda>tun s'.
    if tun = NULL then tun_heap s' = tun_heap s \<and> open_fds (trace s') = open_fds (trace s)
    else \<exists>t. tun_heap s' = (tun_heap s)(tun \<mapsto> t) \<and> open_fds (trace s') = tun_fd t # open_fds (trace s)) s"
  by (rule wp_conseq [OF new_tun_device_created [OF assms]]) (auto simp: tun_created_def)

theorem new_tun_device_no_leak_witness:
  "wp (new_tun_device sample_posix (Some ''tun0'') (Some ''10.0.0.1'') (Some ''255.255.255.0'') 1400) (\<lambda>tun s'.
    if tun = NULL then tun_heap s' = tun_heap sample_state \<and> open_fds (trace s') = open_fds (trace sample_state)
    else \<exists>t. tun_heap s' = (tun_heap sample_state)(tun \<mapsto> t) \<and> open_fds (trace s') = tun_fd t # open_fds (trace sample_state))
    sample_state"
  by (rule new_tun_device_no_leak) (simp_all add: sample_state_def)

text \<open>
  C26: Creating a device, bringing it down and destroying it gives back the memory and closes every descriptor that was opened.
\<close>

theorem tun_device_roundtrip:
  assumes "next_addr s \<noteq> NULL" and "tun_heap s (next_addr s) = None"
  shows "wp (bnd (new_tun_device P ifname ip netmask mtu) (\<lambda>tun. if tun = NULL then ret () else
       bnd (tun_device_down P tun) (\<lambda>_. tun_device_destroy P tun)))
    (\<lambda>_ s'. tun_heap s' = tun_heap s \<and> open_fds (trace s') = open_fds (trace s)) s"
proof (rule wp_bndI [OF new_tun_device_created [OF assms]], goal_cases)
  case (1 tun s1)
  show ?case
  proof (cases "tun = NULL")
    case False
    then have "tun \<noteq> NULL \<longrightarrow> tun_heap s1 tun \<noteq> None" using 1 by (auto simp: tun_created_def)
    have "wp (bnd (tun_device_down P tun) (\<lambda>_. tun_device_destroy P tun))
      (\<lambda>_ s'. tun_heap s' = tun_heap s \<and> open_fds (trace s') = open_fds (trace s)) s1"
    proof (rule wp_bndI [OF down_ok], fact, goal_cases)
      case (1 rc s2)
      from destroy_ok [OF created_cfg [OF \<open>tun_created s tun s1\<close> False 1] False assms(2), of P] show ?case
        by (auto simp: wp_bnd wp_ret tun_created_def elim!: wp_conseq)
    qed
    then show ?thesis using False by simp
  qed (use 1 in \<open>simp add: wp_ret tun_created_def\<close>)
qed

theorem tun_device_roundtrip_witness:
  "wp (bnd (new_tun_device sample_posix (Some ''tun0'') (Some ''10.0.0.1'') (Some ''255.255.255.0'') 1400) (\<lambda>tun. if tun = NULL then ret () else
       bnd (tun_device_down sample_posix tun) (\<lambda>_. tun_device_destroy sample_posix tun)))
    (\<lambda>_ s'. tun_heap s' = tun_heap sample_state \<and> open_fds (trace s') = open_fds (trace sample_state)) sample_state"
  by (rule tun_device_roundtrip) (simp_all add: sample_state_def)

section \<open>Connections\<close>

text \<open>\<^verbatim>\<open>getaddrinfo\<close> yields socket addresses, which fit into a \<^verbatim>\<open>sockaddr_storage\<close>.\<close>

definition addrinfo_ok :: "'k posix \<Rightarrow> bool" where
  "addrinfo_ok P \<longleftrightarrow> (\<forall>h p k. length (snd (fst (sys_getaddrinfo P h p k))) \<le> SOCKADDR_STORAGE)"

text \<open>A new connection: its socket is open, its peer address well-formed, no DTLS state yet.\<close>

definition new_conn :: "conn_role \<Rightarrow> connection \<Rightarrow> bool" where
  "new_conn rl c \<longleftrightarrow> 0 \<le> udp_fd c \<and> role c = rl \<and> length (conn_addr c) = SOCKADDR_STORAGE \<and> conn_addr_len c \<le> SOCKADDR_STORAGE \<and>
     (rl = CONN_ROLE_SERVER \<longrightarrow> conn_addr_len c = 0) \<and> conn_dtls c = NULL \<and> conn_ssl c = NULL \<and> rbio c = NULL \<and> wbio c = NULL"

definition conn_created :: "conn_role \<Rightarrow> ('k, 't) net_state \<Rightarrow> ptr \<Rightarrow> ('k, 't) net_state \<Rightarrow> bool" where
  "conn_created rl s conn s' \<longleftrightarrow> ctx_heap s' = ctx_heap s \<and> op_heap s' = op_heap s \<and> buf_heap s' = buf_heap s \<and>
     dtls_heap s' = dtls_heap s \<and> fwd_heap s' = fwd_heap s \<and> tun_heap s' = tun_heap s \<and>
     inflight (trace s') = inflight (trace s) \<and> provided (trace s') = provided (trace s) \<and> tls_live (trace s') = tls_live (trace s) \<and>
     (if conn = NULL then conn_heap s' = conn_heap s \<and> open_fds (trace s') = open_fds (trace s)
      else conn = next_addr s \<and> next_addr s' = Suc conn \<and> (\<exists>c. conn_heap s' = (conn_heap s)(conn \<mapsto> c) \<and> new_conn rl c \<and>
        open_fds (trace s') = udp_fd c # open_fds (trace s)))"

lemma connection_socket_ok:
  assumes n: "conn \<noteq> NULL" "conn = next_addr s" "conn_heap s conn = None"
    and s1: "s1 = s\<lparr>kw := k, next_addr := Suc conn, conn_heap := (conn_heap s)(conn \<mapsto> c)\<rparr>"
    and c: "new_conn rl (c\<lparr>udp_fd := 0, role := rl\<rparr>)"
  shows "wp (connection_socket P conn rl port) (conn_created rl s) s1"
proof -
  have u: "(conn_heap s)(conn := None) = conn_heap s" using n(3) by auto
  show ?thesis unfolding s1 using n u c
    by (auto simp: connection_socket_def udp_socket_create_def udp_socket_bind_def wp_simps conn_created_def new_conn_def
      split: prod.splits)
qed

lemma create_connection_created:
  assumes P: "addrinfo_ok P" and n: "next_addr s \<noteq> NULL" "conn_heap s (next_addr s) = None"
  shows "wp (create_connection P rl host rport lport) (conn_created rl s) s"
proof -
  have u: "(conn_heap s)(next_addr s := None) = conn_heap s" using n(2) by auto
  have z: "new_conn rl (zero_conn\<lparr>conn_addr := a, conn_addr_len := l, udp_fd := 0, role := rl\<rparr>)"
    if "length a = SOCKADDR_STORAGE" "l \<le> SOCKADDR_STORAGE" "rl = CONN_ROLE_SERVER \<longrightarrow> l = 0" for a l
    using that by (simp add: new_conn_def zero_conn_def)
  have null: "conn_created rl s NULL (s\<lparr>kw := k\<rparr>)" for k by (simp add: conn_created_def)
  obtain ok k where k: "calloc_ok P (kw s) = (ok, k)" by fastforce
  let ?s = "\<lambda>k c. s\<lparr>kw := k, next_addr := Suc (next_addr s), conn_heap := (conn_heap s)(next_addr s \<mapsto> c)\<rparr>"
  have srv: "wp (connection_socket P (next_addr s) rl lport) (conn_created rl s) (?s k zero_conn)" if "rl \<noteq> CONN_ROLE_CLIENT"
    by (rule connection_socket_ok) (use n that in \<open>auto simp: new_conn_def zero_conn_def\<close>)
  have cli: "wp (bnd (resolve_hostname P h rport) (\<lambda>(rc, adr).
        if rc < 0 then bnd (free_conn (next_addr s)) (\<lambda>_. ret NULL) else
        bnd (upd_conn (next_addr s) (\<lambda>c. c\<lparr>conn_addr := overwrite 0 adr (conn_addr c), conn_addr_len := length adr\<rparr>)) (\<lambda>_.
        bnd (load conn_heap (next_addr s)) (\<lambda>c.
        bnd (addr_to_string (\<lambda>_. []) (conn_addr c)) (\<lambda>_.
        connection_socket P (next_addr s) rl lport))))) (conn_created rl s) (?s k zero_conn)"
    if rl: "rl = CONN_ROLE_CLIENT" for h
  proof -
    obtain rc adr k2 where g: "sys_getaddrinfo P h (dec (unat rport)) k = ((rc, adr), k2)" by (metis prod.exhaust)
    have l: "length adr \<le> SOCKADDR_STORAGE" using P g unfolding addrinfo_ok_def by (metis fst_conv snd_conv)
    show ?thesis
    proof (cases "rc = 0")
      case False
      then show ?thesis using g n u by (simp add: resolve_hostname_def wp_simps conn_created_def)
    next
      case True
      let ?c = "zero_conn\<lparr>conn_addr := overwrite 0 adr (conn_addr zero_conn), conn_addr_len := length adr\<rparr>"
      have a: "length (conn_addr ?c) = SOCKADDR_STORAGE" using l by (simp add: zero_conn_def)
      have "wp (bnd (addr_to_string (\<lambda>_. []) (conn_addr ?c)) (\<lambda>_. connection_socket P (next_addr s) rl lport)) (conn_created rl s)
        (s\<lparr>next_addr := Suc (next_addr s), kw := k2, conn_heap := (conn_heap s)(next_addr s \<mapsto> ?c)\<rparr>)"
      proof (rule wp_skipI [OF addr_to_string_wp], goal_cases)
        case (2 x)
        show ?case by (rule connection_socket_ok [where k = k2 and c = ?c]) (use n rl a l in \<open>auto simp: new_conn_def zero_conn_def\<close>)
      qed (subst a, simp add: SOCKADDR_STORAGE_def)
      then show ?thesis using True g n l by (simp add: resolve_hostname_def wp_simps SOCKADDR_STORAGE_def)
    qed
  qed
  show ?thesis using null [of "kw s"] null [of k] srv cli [of "the host"] n
    by (auto simp: create_connection_def calloc_conn_def k wp_ret wp_bnd wp_calloc_obj conn_created_def)
qed

text \<open>
  C27: \<^verbatim>\<open>create_connection\<close> either fails without leaving a connection or an open socket, or adds one well-formed connection of
  the requested role that owns the one new socket.
\<close>

theorem create_connection_no_leak:
  assumes "addrinfo_ok P" and "next_addr s \<noteq> NULL" and "conn_heap s (next_addr s) = None"
  shows "wp (create_connection P rl host rport lport) (\<lambda>conn s'.
    if conn = NULL then conn_heap s' = conn_heap s \<and> open_fds (trace s') = open_fds (trace s)
    else \<exists>c. conn_heap s' = (conn_heap s)(conn \<mapsto> c) \<and> open_fds (trace s') = udp_fd c # open_fds (trace s) \<and>
      role c = rl \<and> conn_ok conn s' \<and> conn_ssl c = NULL) s"
  by (rule wp_conseq [OF create_connection_created [OF assms]])
    (use assms(2) in \<open>auto simp: conn_created_def new_conn_def conn_ok_def split: if_splits\<close>)

theorem create_connection_no_leak_witness:
  "wp (create_connection sample_posix CONN_ROLE_CLIENT (Some ''peer'') 4433 0) (\<lambda>conn s'.
    if conn = NULL then conn_heap s' = conn_heap sample_state \<and> open_fds (trace s') = open_fds (trace sample_state)
    else \<exists>c. conn_heap s' = (conn_heap sample_state)(conn \<mapsto> c) \<and> open_fds (trace s') = udp_fd c # open_fds (trace sample_state) \<and>
      role c = CONN_ROLE_CLIENT \<and> conn_ok conn s' \<and> conn_ssl c = NULL) sample_state"
  by (rule create_connection_no_leak) (simp_all add: sample_state_def addrinfo_ok_def sample_posix_def SOCKADDR_STORAGE_def)

section \<open>DTLS state of a connection\<close>

text \<open>
  The outcome of \<^verbatim>\<open>init_dtls_connection\<close>. On success the connection has a context and an SSL object
  with both BIOs, and these two objects are all there is to release.
\<close>

definition dtls_ready :: "ptr \<Rightarrow> connection \<Rightarrow> ('k, 't) net_state \<Rightarrow> ('k, 't) net_state \<Rightarrow> bool" where
  "dtls_ready conn c s s' \<longleftrightarrow> (\<exists>c' x. conn_heap s' = (conn_heap s)(conn \<mapsto> c') \<and> dtls_heap s' = (dtls_heap s)(conn_dtls c' \<mapsto> x) \<and>
     conn_dtls c' = next_addr s \<and> dc_ctx x \<noteq> NULL \<and> dc_is_server x = (role c = CONN_ROLE_SERVER) \<and>
     conn_ssl c' \<noteq> NULL \<and> rbio c' \<noteq> NULL \<and> wbio c' \<noteq> NULL \<and> conn_st c' = CONN_STATE_HANDSHAKING \<and>
     udp_fd c' = udp_fd c \<and> conn_addr c' = conn_addr c \<and> conn_addr_len c' = conn_addr_len c \<and>
     tls_live (trace s') = conn_ssl c' # dc_ctx x # tls_live (trace s))"

definition dtls_failed :: "ptr \<Rightarrow> connection \<Rightarrow> ('k, 't) net_state \<Rightarrow> ('k, 't) net_state \<Rightarrow> bool" where
  "dtls_failed conn c s s' \<longleftrightarrow> (\<exists>c'. conn_heap s' = (conn_heap s)(conn \<mapsto> c') \<and> rbio c' = rbio c \<and> wbio c' = wbio c \<and>
     udp_fd c' = udp_fd c \<and> role c' = role c)"

lemma init_dtls_ok:
  assumes c: "conn \<noteq> NULL" "conn_heap s conn = Some c" and n: "next_addr s \<noteq> NULL" "dtls_heap s (next_addr s) = None"
  shows "wp (init_dtls_connection P T conn cert key ca) (\<lambda>rc s'. open_fds (trace s') = open_fds (trace s) \<and>
    (rc = 0 \<and> dtls_ready conn c s s' \<or> rc = -1 \<and> dtls_failed conn c s s')) s"
proof -
  let ?Q = "\<lambda>rc s'. open_fds (trace s') = open_fds (trace s) \<and> (rc = (0 :: int) \<and> dtls_ready conn c s s' \<or> rc = -1 \<and> dtls_failed conn c s s')"
  let ?ctx = "if role c = CONN_ROLE_CLIENT then dtls_client_context_init P T ca else dtls_server_context_init P T cert key"
  have ctx: "wp ?ctx (context_post (role c = CONN_ROLE_SERVER) s) s"
    using client_context_ok [OF n, where P = P] server_context_ok [OF n, where P = P] by (cases "role c") auto
  have bios: "wp (bnd (dtls_setup_bio_pair T ssl) (\<lambda>(rc, rb, wb).
     if rc < 0 then bnd (SSL_free T ssl) (\<lambda>_. ret (-1)) else
     bnd (upd_conn conn (\<lambda>c. c\<lparr>rbio := rb, wbio := wb\<rparr>)) (\<lambda>_.
     bnd (upd_conn conn (\<lambda>c. c\<lparr>conn_st := CONN_STATE_HANDSHAKING\<rparr>)) (\<lambda>_.
     bnd (kcall (sys_time P)) (\<lambda>now.
     bnd (upd_conn conn (\<lambda>c. c\<lparr>last_activity := now\<rparr>)) (\<lambda>_. ret 0)))))) ?Q s1"
    if s1: "conn_heap s1 = (conn_heap s)(conn \<mapsto> c\<lparr>conn_dtls := d, conn_ssl := ssl\<rparr>)" "open_fds (trace s1) = open_fds (trace s)"
      "dtls_heap s1 = (dtls_heap s)(d \<mapsto> x)" "d = next_addr s" "dc_ctx x \<noteq> NULL" "dc_is_server x = (role c = CONN_ROLE_SERVER)"
      "ssl \<noteq> NULL" "tls_live (trace s1) = ssl # dc_ctx x # tls_live (trace s)" for s1 d ssl x
  proof (rule wp_bndI [OF setup_bio_pair_ok], clarify, goal_cases)
    case (1 rc rb wb s2)
    obtain now k where now: "sys_time P (kw s2) = (now, k)" by (cases "sys_time P (kw s2)")
    show ?case
    proof (cases "rc < 0")
      case True
      then show ?thesis using 1 s1 c by (auto simp: wp_simps tls_frame_def dtls_failed_def)
    next
      case False
      let ?c = "c\<lparr>conn_dtls := d, conn_ssl := ssl, rbio := rb, wbio := wb, conn_st := CONN_STATE_HANDSHAKING, last_activity := now\<rparr>"
      have "dtls_ready conn c s (s2\<lparr>kw := k, conn_heap := (conn_heap s)(conn \<mapsto> ?c)\<rparr>)"
        unfolding dtls_ready_def by (rule exI [of _ ?c], rule exI [of _ x]) (use 1 s1 False in \<open>auto simp: tls_frame_def\<close>)
      then show ?thesis using 1 s1 c False now by (auto simp: wp_simps tls_frame_def)
    qed
  qed
  show ?thesis unfolding init_dtls_connection_def
  proof (rule wp_loadI [where h = conn_heap, OF c(2,1)], rule wp_bndI [OF ctx], goal_cases)
    case (1 d s1)
    have k: "conn_heap s1 = conn_heap s" "open_fds (trace s1) = open_fds (trace s)" using 1 by (auto simp: context_post_def tls_frame_def)
    show ?case
    proof (cases "d = NULL")
      case True
      then show ?thesis using k c by (auto simp: wp_simps dtls_failed_def)
    next
      case False
      with 1 obtain x where x: "d = next_addr s" "dtls_heap s1 = (dtls_heap s)(d \<mapsto> x)" "dc_is_server x = (role c = CONN_ROLE_SERVER)"
        "dc_ctx x \<noteq> NULL" "tls_live (trace s1) = dc_ctx x # tls_live (trace s)" by (auto simp: context_post_def)
      let ?s1 = "s1\<lparr>conn_heap := (conn_heap s1)(conn \<mapsto> c\<lparr>conn_dtls := d\<rparr>)\<rparr>"
      have "wp (bnd (dtls_create_ssl T d) (\<lambda>ssl. bnd (upd_conn conn (\<lambda>c. c\<lparr>conn_ssl := ssl\<rparr>)) (\<lambda>_.
         if ssl = NULL then ret (-1) else
         bnd (dtls_setup_bio_pair T ssl) (\<lambda>(rc, rb, wb).
         if rc < 0 then bnd (SSL_free T ssl) (\<lambda>_. ret (-1)) else
         bnd (upd_conn conn (\<lambda>c. c\<lparr>rbio := rb, wbio := wb\<rparr>)) (\<lambda>_.
         bnd (upd_conn conn (\<lambda>c. c\<lparr>conn_st := CONN_STATE_HANDSHAKING\<rparr>)) (\<lambda>_.
         bnd (kcall (sys_time P)) (\<lambda>now.
         bnd (upd_conn conn (\<lambda>c. c\<lparr>last_activity := now\<rparr>)) (\<lambda>_. ret 0)))))))) ?Q ?s1"
      proof (rule wp_bndI [OF create_ssl_ok], goal_cases)
        case (2 ssl s2)
        then have s2: "conn_heap s2 conn = Some (c\<lparr>conn_dtls := d\<rparr>)" "open_fds (trace s2) = open_fds (trace s)"
          "conn_heap s2 = (conn_heap s)(conn \<mapsto> c\<lparr>conn_dtls := d\<rparr>)" "dtls_heap s2 = (dtls_heap s)(d \<mapsto> x)"
          "tls_live (trace s2) = (if ssl = NULL then dc_ctx x # tls_live (trace s) else ssl # dc_ctx x # tls_live (trace s))"
          using k x by (auto simp: tls_frame_def)
        let ?s2 = "s2\<lparr>conn_heap := (conn_heap s2)(conn \<mapsto> c\<lparr>conn_dtls := d, conn_ssl := ssl\<rparr>)\<rparr>"
        show ?case
        proof (cases "ssl = NULL")
          case True
          then show ?thesis using s2 c by (auto simp: wp_simps dtls_failed_def)
        next
          case False
          have "wp (bnd (dtls_setup_bio_pair T ssl) (\<lambda>(rc, rb, wb).
     if rc < 0 then bnd (SSL_free T ssl) (\<lambda>_. ret (-1)) else
     bnd (upd_conn conn (\<lambda>c. c\<lparr>rbio := rb, wbio := wb\<rparr>)) (\<lambda>_.
     bnd (upd_conn conn (\<lambda>c. c\<lparr>conn_st := CONN_STATE_HANDSHAKING\<rparr>)) (\<lambda>_.
     bnd (kcall (sys_time P)) (\<lambda>now.
     bnd (upd_conn conn (\<lambda>c. c\<lparr>last_activity := now\<rparr>)) (\<lambda>_. ret 0)))))) ?Q ?s2"
            by (rule bios [where d = d and x = x]) (use s2 x False in auto)
          then show ?thesis using False s2(1) c(1) by (simp add: wp_bnd wp_net_upd)
        qed
      qed (use x in simp)
      then show ?thesis using False k(1) c by (simp add: wp_bnd wp_net_upd)
    qed
  qed
qed

text \<open>
  \<^verbatim>\<open>init_dtls_connection\<close> returns 0 or -1; after 0 the connection has an SSL object and both BIOs, is in the state
  HANDSHAKING, and the SSL object and its context are the only new OpenSSL objects.
\<close>

lemma init_dtls_connection_ready:
  assumes "conn_ok conn s" and "next_addr s \<noteq> NULL" and "dtls_heap s (next_addr s) = None"
  shows "wp (init_dtls_connection P T conn cert key ca) (\<lambda>rc s'. (rc = 0 \<or> rc = -1) \<and> (rc = 0 \<longrightarrow> conn_tls conn s' \<and>
    (\<exists>c' x. conn_heap s' conn = Some c' \<and> rbio c' \<noteq> NULL \<and> wbio c' \<noteq> NULL \<and> conn_st c' = CONN_STATE_HANDSHAKING \<and>
      dtls_heap s' (conn_dtls c') = Some x \<and> tls_live (trace s') = conn_ssl c' # dc_ctx x # tls_live (trace s)))) s"
proof -
  obtain c where c: "conn \<noteq> NULL" "conn_heap s conn = Some c" "length (conn_addr c) = SOCKADDR_STORAGE" "conn_addr_len c \<le> SOCKADDR_STORAGE"
    using assms(1) by (auto simp: conn_ok_def)
  show ?thesis
    by (rule wp_conseq [OF init_dtls_ok [OF c(1,2) assms(2,3)]]) (use c in \<open>auto simp: dtls_ready_def conn_tls_def conn_ok_def\<close>)
qed

text \<open>
  C28: The cleanup of the edge releases what a successful \<^verbatim>\<open>init_dtls_connection\<close> has created.
\<close>

theorem dtls_setup_cleanup:
  assumes "conn \<noteq> NULL" and "conn_heap s conn \<noteq> None" and "next_addr s \<noteq> NULL" and "dtls_heap s (next_addr s) = None"
  shows "wp (bnd (init_dtls_connection P T conn cert key ca) (\<lambda>rc. bnd (if rc = 0 then edge_cleanup T conn else ret ()) (\<lambda>_. ret rc)))
    (\<lambda>rc s'. rc = 0 \<longrightarrow> tls_live (trace s') = tls_live (trace s) \<and> dtls_heap s' = dtls_heap s) s"
proof -
  from assms(2) obtain c where c: "conn_heap s conn = Some c" by blast
  show ?thesis
  proof (rule wp_bndI [OF init_dtls_ok [OF assms(1) c assms(3,4)]], goal_cases)
    case (1 rc s1)
    show ?case
    proof (cases "rc = 0")
      case True
      then obtain c' x where r: "conn_heap s1 = (conn_heap s)(conn \<mapsto> c')" "dtls_heap s1 = (dtls_heap s)(next_addr s \<mapsto> x)"
        "conn_dtls c' = next_addr s" "dc_ctx x \<noteq> NULL" "tls_live (trace s1) = conn_ssl c' # dc_ctx x # tls_live (trace s)"
        using 1 by (auto simp: dtls_ready_def)
      have "(dtls_heap s)(next_addr s := None) = dtls_heap s" using assms(4) by auto
      then show ?thesis using True r assms(1,3) by (simp add: edge_cleanup_def dtls_context_cleanup_def wp_simps)
    qed (simp add: wp_simps)
  qed
qed

theorem dtls_setup_cleanup_witness:
  "wp (bnd (init_dtls_connection sample_posix sample_openssl 10 None None None)
      (\<lambda>rc. bnd (if rc = 0 then edge_cleanup sample_openssl 10 else ret ()) (\<lambda>_. ret rc)))
    (\<lambda>rc s'. rc = 0 \<longrightarrow> tls_live (trace s') = tls_live (trace sample_state) \<and> dtls_heap s' = dtls_heap sample_state) sample_state"
  by (rule dtls_setup_cleanup) (simp_all add: sample_state_def)

section \<open>Cookies and error names\<close>



text \<open>
  The nine SSL error codes have different names, and no other code shares one of them.
\<close>

lemma error_names_distinct:
  assumes "a \<in> {0..8}" and "error_name a = error_name b"
  shows "a = b"
proof -
  have "a = 0 \<or> a = 1 \<or> a = 2 \<or> a = 3 \<or> a = 4 \<or> a = 5 \<or> a = 6 \<or> a = 7 \<or> a = 8" using assms(1) by auto
  then show ?thesis using assms(2) by (elim disjE) (simp_all add: error_name_def ssl_error_defs split: if_splits)
qed

theorem error_names_distinct_witness: "\<not> error_name 3 = error_name 42"
  using error_names_distinct [of 3 42] by auto

section \<open>Socket addresses and ports\<close>

lemma length_dec: "n < 10 ^ Suc k \<Longrightarrow> length (dec n) \<le> Suc k"
proof (induction k arbitrary: n)
  case (Suc k)
  then have "n div 10 < 10 ^ Suc k" by (simp add: less_mult_imp_div_less)
  from Suc.IH [OF this] show ?case by (simp add: dec.simps [of n])
qed (simp add: dec.simps)

lemma length_dec_byte: "length (dec (unat (b :: byte))) \<le> 3"
proof -
  have "unat b < 256" using unsigned_less [of b] by simp
  then show ?thesis using length_dec [of "unat b" 2] by simp
qed

lemma length_dec_port: "length (dec (unat (p :: 16 word))) \<le> 5"
proof -
  have "unat p < 65536" using unsigned_less [of p] by simp
  then show ?thesis using length_dec [of "unat p" 4] by simp
qed

lemma port_bytes: "le16 (ucast port) (ucast (drop_bit 8 port)) = (port :: 16 word)"
proof -
  have "unat port < 65536" using unsigned_less [of port] by simp
  then have "unat (le16 (ucast port) (ucast (drop_bit 8 port))) = unat port"
    by (simp add: le16_unat unsigned_ucast_eq take_bit_nat_def unat_drop_bit_eq drop_bit_nat_def)
  then show ?thesis by (simp add: word_unat_eq_iff)
qed

text \<open>
  C35: The address that \<^verbatim>\<open>udp_socket_bind\<close> builds is printed by \<^verbatim>\<open>addr_to_string\<close> as dotted quad and port.
\<close>

theorem sockaddr_in_printed:
  assumes "length ip = 4"
  shows "addr_to_string f (sockaddr_in port ip) s = Inr (ntop4 ip @ '':'' @ dec (unat port), s)"
proof -
  obtain a b c d where ip: "ip = [a, b, c, d]" using assms by (auto simp: numeral_eq_Suc length_Suc_conv)
  have "length (ntop4 ip @ '':'' @ dec (unat port)) \<le> 127"
    using length_dec_port [of port] length_dec_byte [of a] length_dec_byte [of b] length_dec_byte [of c] length_dec_byte [of d]
    by (simp add: ntop4_def ip)
  then have "snprintf128 (ntop4 ip @ '':'' @ dec (unat port)) = ntop4 ip @ '':'' @ dec (unat port)"
    by (simp only: snprintf128_def take_all)
  moreover have "le16 2 0 = AF_INET" by (simp add: le16_def AF_INET_def)
  ultimately show ?thesis
    by (simp add: addr_to_string_def exec_simps exec_rd_bytes sockaddr_in_def ip port_bytes)
qed

theorem sockaddr_in_printed_witness:
  "addr_to_string (\<lambda>_. []) (sockaddr_in 443 [10, 0, 0, 1]) () = Inr (''10.0.0.1:443'', ())"
  using sockaddr_in_printed [of "[10, 0, 0, 1]" "\<lambda>_. []" 443 "()"] by (simp add: ntop4_def dec.simps char_of_def bit_0)

text \<open>Ports survive printing and \<^verbatim>\<open>atoi\<close>.\<close>

lemma digits_value_append:
  assumes "\<forall>c \<in> set ds. 48 \<le> (of_char c :: int) \<and> (of_char c :: int) \<le> 57"
  shows "digits_value acc (ds @ cs) = digits_value (digits_value acc ds) cs"
  using assms by (induction acc ds rule: digits_value.induct) (auto simp: Let_def)

lemma digit_char: "k < 10 \<Longrightarrow> (of_char (char_of (48 + k) :: char) :: int) = 48 + int k"
proof -
  assume "k < 10"
  then have "(of_char (char_of (48 + k) :: char) :: nat) = 48 + k" by simp
  then show ?thesis by (metis of_nat_add of_nat_numeral of_nat_of_char)
qed

lemma dec_digits: "c \<in> set (dec n) \<Longrightarrow> 48 \<le> (of_char c :: int) \<and> (of_char c :: int) \<le> 57"
proof (induction n rule: dec.induct)
  case (1 n)
  then show ?case using digit_char [of n] digit_char [of "n mod 10"] by (cases "n < 10") (auto simp: dec.simps [of n])
qed

lemma digits_value_dec: "digits_value 0 (dec n) = int n"
proof (induction n rule: dec.induct)
  case (1 n)
  have d: "digits_value acc [char_of (48 + k)] = 10 * acc + int k" if "k < 10" for acc k
    using digit_char [OF that] that by (simp add: Let_def)
  show ?case
  proof (cases "n < 10")
    case True
    then show ?thesis using d [of n 0] by (simp add: dec.simps [of n])
  next
    case False
    have "digits_value 0 (dec n) = digits_value (digits_value 0 (dec (n div 10))) [char_of (48 + n mod 10)]"
      using False digits_value_append [of "dec (n div 10)"] dec_digits [of _ "n div 10"] by (simp add: dec.simps [of n])
    moreover have "10 * int (n div 10) + int (n mod 10) = int n" by (simp add: zdiv_int zmod_int)
    ultimately show ?thesis using 1 False d [of "n mod 10"] by simp
  qed
qed

text \<open>
  Every port survives being printed in decimal and read from the command line.
\<close>

lemma atoi_dec_port: "atoi16 (dec (unat p)) = p"
proof -
  obtain c cs where d: "dec (unat p) = c # cs" by (cases "dec (unat p)") (auto simp: dec.simps [of "unat p"] split: if_splits)
  have "48 \<le> (of_char c :: int)" using dec_digits [of c "unat p"] d by simp
  then have "48 \<le> (of_char c :: nat)" by (metis of_nat_of_char of_nat_le_iff of_nat_numeral)
  then have "\<not> is_blank c" "c \<noteq> CHR ''-''" "c \<noteq> CHR ''+''" by (auto simp: is_blank_def)
  then have "atoi (dec (unat p)) = int (unat p)" using digits_value_dec [of "unat p"] by (simp add: atoi_def d)
  then show ?thesis by (simp add: atoi16_def)
qed

end
