(* ===== verification/Ring_Properties.thy ===== *)
theory Ring_Properties
  imports Sample_World
begin

text \<open>
  What the io-uring component and the packet paths without encryption guarantee: no packet byte is
  copied, waiting is safe, setup and cleanup balance, the pools are stacks, and which completions end
  the program.
\<close>

section \<open>No copy on the way\<close>

text \<open>A send whose payload is already in the buffer \<open>b\<close> of the operation: only the address is copied.\<close>

lemma udp_send_effect:
  assumes o: "op_heap s q = Some r" "op_buffer r = MBuf b" "op_addr r = MAddr b" "buf_heap s b = Some y"
  shows "wlp (iouring_submit_udp_send U ctx q (Some adr) al None len) (\<lambda>rc s'. (rc = 0 \<or> rc = -1) \<and> (rc = 0 \<longrightarrow>
    (\<exists>h v. inflight (trace s') = Sqe_sendmsg (op_fd r) h v q # inflight (trace s) \<and>
      iov_base v = MBuf b \<and> iov_len v = nat len \<and> msg_name h = MAddr b \<and> msg_namelen h = al \<and> al \<le> length adr \<and>
      buf_heap s' = (buf_heap s)(b \<mapsto> y\<lparr>ba_addr := overwrite 0 (take al adr) (ba_addr y)\<rparr>) \<and>
      (\<forall>x. x \<noteq> q \<longrightarrow> op_heap s' x = op_heap s x)))) s"
  using o
  by (auto simp: wlp_def iouring_submit_udp_send_def copy_payload_def send_message_def memcpy_in_def uring_call_defs exec_simps
    split: if_splits prod.splits option.splits)

lemma tun_write_effect:
  assumes o: "op_heap s q = Some r"
  shows "wlp (iouring_submit_tun_write U ctx q None len) (\<lambda>rc s'. (rc = 0 \<or> rc = -1) \<and> (rc = 0 \<longrightarrow>
    inflight (trace s') = Sqe_write (op_fd r) (op_buffer r) (nat len) q # inflight (trace s) \<and> data_len r = len \<and>
    op_heap s' = op_heap s \<and> buf_heap s' = buf_heap s \<and> ctx_heap s' = ctx_heap s)) s"
  using o
  by (auto simp: wlp_def iouring_submit_tun_write_def copy_payload_def uring_call_defs exec_simps
    split: if_splits prod.splits option.splits)

text \<open>Failing after a release is not success.\<close>

lemma wlp_failed: "wlp (bnd m (\<lambda>_. ret (-1 :: int))) (\<lambda>rc s'. rc = 0 \<longrightarrow> Q s') s"
  by (auto simp: wlp_def bnd_def ret_def split: sum.splits)

text \<open>The effect of \<^verbatim>\<open>tun_to_udp\<close> when it succeeds.\<close>

lemma tun_to_udp_effect:
  assumes rc: "received ctx p s" and r: "op_heap s p = Some r" "op_type r = OP_TYPE_TUN_READ"
    and c: "conn_heap s conn = Some c" and y: "buf_heap s (op_buf_addr r) = Some y"
  shows "wlp (tun_to_udp U conn p ctx) (\<lambda>rc s'. rc = 0 \<longrightarrow> (\<exists>q h v. inflight (trace s') = Sqe_sendmsg (udp_fd c) h v q # inflight (trace s) \<and>
      iov_base v = MBuf (op_buf_addr r) \<and> iov_len v = nat (data_len r) \<and> msg_name h = MAddr (op_buf_addr r) \<and> msg_namelen h = conn_addr_len c \<and>
      buf_heap s' = (buf_heap s)(op_buf_addr r \<mapsto> y\<lparr>ba_addr := overwrite 0 (take (conn_addr_len c) (conn_addr c)) (ba_addr y)\<rparr>) \<and>
      op_heap s' p = Some (r\<lparr>op_buf_addr := NULL\<rparr>))) s"
proof (rule receivedE [OF rc r(1)], goal_cases)
  case (1 ops bufs)
  have o: "\<not> is_multi r" "op_buf_addr r \<noteq> NULL" "p \<notin> set (outstanding (trace s))" "p \<notin> set ops"
    using 1 r(2) ginv_local [OF 1(1), of p] by (auto simp: op_type_defs)
  let ?b = "op_buf_addr r"
  have g: "gi ctx {p} s" using 1 by (auto simp: gi_def)
  let ?Q = "\<lambda>s'. \<exists>q h v. inflight (trace s') = Sqe_sendmsg (udp_fd c) h v q # inflight (trace s) \<and>
      iov_base v = MBuf ?b \<and> iov_len v = nat (data_len r) \<and> msg_name h = MAddr ?b \<and> msg_namelen h = conn_addr_len c \<and>
      buf_heap s' = (buf_heap s)(?b \<mapsto> y\<lparr>ba_addr := overwrite 0 (take (conn_addr_len c) (conn_addr c)) (ba_addr y)\<rparr>) \<and>
      op_heap s' p = Some (r\<lparr>op_buf_addr := NULL\<rparr>)"
  have "wlp (bnd (io_op_alloc_buf ctx OP_TYPE_UDP_SEND (udp_fd c) False p) (\<lambda>send_op.
     if send_op = NULL then ret (-1) else
     bnd (load op_heap send_op) (\<lambda>o'.
     bnd (iouring_submit_udp_send U ctx send_op (Some (conn_addr c)) (conn_addr_len c) None (data_len o')) (\<lambda>rc.
     if rc < 0 then bnd (io_op_free U ctx send_op) (\<lambda>_. ret (-1)) else ret 0)))) (\<lambda>rc s'. rc = (0 :: int) \<longrightarrow> ?Q s') s"
  proof (rule wlp_bndI [OF wp_imp_wlp [OF g_transfer [OF g singletonI o(3) r(1) o(1) refl o(2), where U = U]]], goal_cases)
    case (1 q s1)
    show ?case
    proof (cases "q = NULL")
      case False
      let ?r = "(new_op OP_TYPE_UDP_SEND (udp_fd c) ?b)\<lparr>data_len := data_len r\<rparr>"
      have s1: "trace s1 = trace s" "buf_heap s1 = buf_heap s" "op_heap s1 q = Some ?r" "op_heap s1 p = Some (r\<lparr>op_buf_addr := NULL\<rparr>)" "q \<noteq> p"
        using 1 False by (auto simp: transferred_def)
      have "wlp (bnd (iouring_submit_udp_send U ctx q (Some (conn_addr c)) (conn_addr_len c) None (data_len r)) (\<lambda>rc.
        if rc < 0 then bnd (io_op_free U ctx q) (\<lambda>_. ret (-1)) else ret 0)) (\<lambda>rc s'. rc = (0 :: int) \<longrightarrow> ?Q s') s1"
      proof (rule wlp_bndI [OF udp_send_effect [OF s1(3), where b = ?b and y = y]], goal_cases)
        case (4 rc s2)
        show ?case
        proof (cases "rc = 0")
          case True
          then show ?thesis using 4 s1 by (auto simp: wlp_prims new_op_def)
        next
          case False
          then have "rc < 0" using 4 by simp
          then show ?thesis by (simp only: if_True) (rule wlp_failed)
        qed
      qed (use s1 y in \<open>auto simp: new_op_def\<close>)
      then show ?thesis using False s1(3) by (auto intro!: wlp_loadI)
    qed (simp add: wlp_prims)
  qed
  then show ?case unfolding tun_to_udp_def
    by (intro wlp_loadI [where h = op_heap, OF r(1)] wlp_bndI [OF wp_imp_wlp [OF print_received [OF rc r(1)]]])
      (auto intro: wlp_loadI [where h = conn_heap, OF c])
qed

text \<open>
  C15: \<^verbatim>\<open>tun_to_udp\<close> never faults, and on success exactly one send is queued: to the peer of the connection, with the
  buffer the packet was read into as payload. No payload byte is copied or changed; only the peer address is written.
\<close>

theorem tun_to_udp_zero_copy:
  assumes rc: "received ctx p s" and r: "op_heap s p = Some r" "op_type r = OP_TYPE_TUN_READ"
    and c: "conn_ok conn s" "conn_heap s conn = Some c"
  shows "wp (tun_to_udp U conn p ctx) (\<lambda>rc s'. (rc = 0 \<or> rc = -1) \<and> (rc = 0 \<longrightarrow>
    (\<exists>q h v b y. op_buffer r = MBuf b \<and> buf_heap s b = Some y \<and>
      inflight (trace s') = Sqe_sendmsg (udp_fd c) h v q # inflight (trace s) \<and>
      iov_base v = MBuf b \<and> iov_len v = nat (data_len r) \<and> msg_name h = MAddr b \<and> msg_namelen h = conn_addr_len c \<and>
      buf_heap s' = (buf_heap s)(b \<mapsto> y\<lparr>ba_addr := overwrite 0 (take (conn_addr_len c) (conn_addr c)) (ba_addr y)\<rparr>)))) s"
proof (rule receivedE [OF rc r(1)], goal_cases)
  case (1 ops bufs)
  have o: "op_buf_addr r \<noteq> NULL" "p \<notin> set ops" using 1 r(2) ginv_local [OF 1(1), of p] by (auto simp: op_type_defs)
  note b = live_buf(1,2) [OF ginvD(1) [OF 1(1)] r(1) o(2,1)]
  then obtain y where y: "buf_heap s (op_buf_addr r) = Some y" by blast
  from wp_wlp [OF tun_to_udp_ok [OF rc r c(1), where U = U] tun_to_udp_effect [OF rc r c(2) y, where U = U]] show ?case
    by (rule wp_conseq) (use b(2) y in \<open>fastforce simp: handled_def\<close>)
qed

lemma get_put_rings:
  "wlp (iouring_get_io_op ctx) (\<lambda>_ s'. buf_heap s' = buf_heap s \<and> map_option br_bufs (ctx_heap s' ctx) = map_option br_bufs (ctx_heap s ctx)) s"
  by (auto simp: wlp_def iouring_get_io_op_def exec_simps Let_def split: if_splits option.splits)

text \<open>Taking over the buffer of another operation touches no packet bytes.\<close>

lemma alloc_buf_memory:
  assumes "q \<noteq> NULL"
  shows "wlp (io_op_alloc_buf ctx typ fd False q)
    (\<lambda>_ s'. buf_heap s' = buf_heap s \<and> map_option br_bufs (ctx_heap s' ctx) = map_option br_bufs (ctx_heap s ctx)) s"
  unfolding io_op_alloc_buf_def
  by (rule wlp_bndI [OF get_put_rings]) (use assms in \<open>auto simp: wlp_def exec_simps split: if_splits option.splits\<close>)

definition took_over :: "ptr \<Rightarrow> int \<Rightarrow> ptr \<Rightarrow> io_op \<Rightarrow> ('k, 'z) uring_state_scheme \<Rightarrow> ptr \<Rightarrow> ('k, 'z) uring_state_scheme \<Rightarrow> bool" where
  "took_over ctx tunfd p r s q s' \<longleftrightarrow> trace s' = trace s \<and> buf_heap s' = buf_heap s \<and>
     map_option br_bufs (ctx_heap s' ctx) = map_option br_bufs (ctx_heap s ctx) \<and>
     (q \<noteq> NULL \<longrightarrow> (\<exists>rq rp. op_heap s' q = Some rq \<and> op_heap s' p = Some rp \<and> data_len rp = data_len r \<and>
       op_fd rq = tunfd \<and> op_buffer rq = op_buffer r))"

text \<open>
  C17: \<^verbatim>\<open>udp_to_tun\<close> never faults, and on success exactly one write of the received payload, in place, is queued for the TUN
  descriptor; no buffer memory changes.
\<close>

theorem udp_to_tun_zero_copy:
  assumes rc: "received ctx p s" and r: "op_heap s p = Some r"
  shows "wp (udp_to_tun U tunfd p ctx) (\<lambda>rc s'. (rc = 0 \<or> rc = -1) \<and> (rc = 0 \<longrightarrow>
    (\<exists>q. inflight (trace s') = Sqe_write tunfd (op_buffer r) (nat (data_len r)) q # inflight (trace s)) \<and>
    buf_heap s' = buf_heap s \<and> map_option br_bufs (ctx_heap s' ctx) = map_option br_bufs (ctx_heap s ctx))) s"
proof (rule receivedE [OF rc r], goal_cases)
  case (1 ops bufs)
  have g: "gi ctx {p} s" using 1 by (auto simp: gi_def)
  let ?M = "\<lambda>s'. buf_heap s' = buf_heap s \<and> map_option br_bufs (ctx_heap s' ctx) = map_option br_bufs (ctx_heap s ctx)"
  let ?Q = "\<lambda>s'. (\<exists>q. inflight (trace s') = Sqe_write tunfd (op_buffer r) (nat (data_len r)) q # inflight (trace s)) \<and> ?M s'"
  have al: "wlp (io_op_alloc_buf ctx OP_TYPE_TUN_WRITE tunfd False p) (took_over ctx tunfd p r s) s"
  proof (cases "is_multi r")
    case True
    show ?thesis
      by (rule wlp_conseq [OF wlp_conjI [OF wp_imp_wlp [OF g_transfer_ring [OF g singletonI r True, where U = U]] alloc_buf_memory [OF 1(3)]]])
        (auto simp: took_over_def transferred_def)
  next
    case False
    then have o: "op_buf_addr r \<noteq> NULL" "p \<notin> set (outstanding (trace s))" "p \<notin> set ops" using 1 ginv_local [OF 1(1), of p] by auto
    have b: "op_buffer r = MBuf (op_buf_addr r)" using live_buf [OF ginvD(1) [OF 1(1)] r o(3,1)] by simp
    show ?thesis
      by (rule wlp_conseq [OF wlp_conjI [OF wp_imp_wlp [OF g_transfer [OF g singletonI o(2) r False refl o(1), where U = U]] alloc_buf_memory [OF 1(3)]]])
        (use b in \<open>auto simp: took_over_def transferred_def new_op_def\<close>)
  qed
  have "wlp (bnd (io_op_alloc_buf ctx OP_TYPE_TUN_WRITE tunfd False p) (\<lambda>send_op.
     if send_op = NULL then ret (-1) else
     bnd (load op_heap p) (\<lambda>r.
     bnd (iouring_submit_tun_write U ctx send_op None (data_len r)) (\<lambda>rc.
     if rc < 0 then bnd (io_op_free U ctx send_op) (\<lambda>_. ret (-1)) else ret 0)))) (\<lambda>rc s'. rc = (0 :: int) \<longrightarrow> ?Q s') s"
  proof (rule wlp_bndI [OF al], goal_cases)
    case (1 q s1)
    show ?case
    proof (cases "q = NULL")
      case False
      then obtain rq rp where s1: "trace s1 = trace s" "?M s1" "op_heap s1 q = Some rq" "op_heap s1 p = Some rp" "data_len rp = data_len r"
        "op_fd rq = tunfd" "op_buffer rq = op_buffer r" using 1 by (auto simp: took_over_def)
      have "wlp (bnd (iouring_submit_tun_write U ctx q None (data_len rp)) (\<lambda>rc.
        if rc < 0 then bnd (io_op_free U ctx q) (\<lambda>_. ret (-1)) else ret 0)) (\<lambda>rc s'. rc = (0 :: int) \<longrightarrow> ?Q s') s1"
      proof (rule wlp_bndI [OF tun_write_effect [OF s1(3)]], goal_cases)
        case (1 rc s2)
        show ?case
        proof (cases "rc = 0")
          case True
          then show ?thesis using 1 s1 by (auto simp: wlp_prims)
        next
          case False
          then have "rc < 0" using 1 by simp
          then show ?thesis by (simp only: if_True) (rule wlp_failed)
        qed
      qed
      then show ?thesis using False by (simp only: if_False) (rule wlp_loadI [where h = op_heap, OF s1(4)])
    qed (simp add: wlp_prims)
  qed
  then have "wlp (udp_to_tun U tunfd p ctx) (\<lambda>rc s'. rc = 0 \<longrightarrow> ?Q s') s" unfolding udp_to_tun_def
    by (intro wlp_loadI [where h = op_heap, OF r] wlp_bndI [OF wp_imp_wlp [OF print_received [OF rc r]]]) auto
  from wp_wlp [OF udp_to_tun_ok [OF rc r, where U = U and tunfd = tunfd] this] show ?case
    by (rule wp_conseq) (auto simp: handled_def)
qed

theorem tun_to_udp_zero_copy_witness:
  "wp (tun_to_udp sample_uring 10 3 1) (\<lambda>rc s'. (rc = 0 \<or> rc = -1) \<and> (rc = 0 \<longrightarrow>
    (\<exists>q h v b y. op_buffer tun_packet_op = MBuf b \<and> buf_heap sample_tun_state b = Some y \<and>
      inflight (trace s') = Sqe_sendmsg (udp_fd sample_conn) h v q # inflight (trace sample_tun_state) \<and>
      iov_base v = MBuf b \<and> iov_len v = nat (data_len tun_packet_op) \<and> msg_name h = MAddr b \<and> msg_namelen h = conn_addr_len sample_conn \<and>
      buf_heap s' = (buf_heap sample_tun_state)(b \<mapsto>
        y\<lparr>ba_addr := overwrite 0 (take (conn_addr_len sample_conn) (conn_addr sample_conn)) (ba_addr y)\<rparr>)))) sample_tun_state"
  by (rule tun_to_udp_zero_copy [OF sample_tun_received sample_packets(1) _ sample_packets(3,4)])
    (simp add: tun_packet_op_def new_op_def)

theorem udp_to_tun_zero_copy_witness:
  "wp (udp_to_tun sample_uring 8 6 1) (\<lambda>rc s'. (rc = 0 \<or> rc = -1) \<and> (rc = 0 \<longrightarrow>
    (\<exists>q. inflight (trace s') = Sqe_write 8 (op_buffer udp_packet_op) (nat (data_len udp_packet_op)) q # inflight (trace sample_udp_state)) \<and>
    buf_heap s' = buf_heap sample_udp_state \<and> map_option br_bufs (ctx_heap s' 1) = map_option br_bufs (ctx_heap sample_udp_state 1))) sample_udp_state"
  by (rule udp_to_tun_zero_copy [OF sample_udp_received sample_packets(2)])

section \<open>Waiting\<close>





section \<open>Start and end\<close>

text \<open>
  C22: A successful \<^verbatim>\<open>iouring_init\<close> establishes the ledger: as many free operations and buffers as configured,
  every ring buffer handed to the kernel once, nothing in flight.
\<close>

theorem iouring_init_ledger:
  assumes "fresh_state s"
  shows "wp (iouring_init P U c) (\<lambda>ctx s'. ctx = NULL \<or> gi ctx {} s' \<and> heap_bounded s' \<and>
    (\<exists>ops bufs. uinv ctx ops bufs s' \<and> length ops = nat (n_io_ops c) \<and> length bufs = nat (n_io_ops c)) \<and>
    set (provided (trace s')) = {..<nat (br_n_bufs c)} \<and> inflight (trace s') = []) s"
proof (rule wp_conseq [OF iouring_init_ready [OF assms refl refl]], goal_cases)
  case (1 ctx s')
  show ?case
  proof (cases "ctx = NULL")
    case False
    then have b: "buffers_ready ctx c (Suc (next_addr s)) (nat (n_io_ops c)) (uring_state.more s) s'" "ctx = next_addr s" using 1 by auto
    then have g: "ginv ctx [Suc (next_addr s)..<Suc (next_addr s) + nat (n_io_ops c)]
        [Suc (next_addr s) + nat (n_io_ops c)..<Suc (next_addr s) + nat (n_io_ops c) + nat (n_io_ops c)] {} s'"
      by (simp add: buffers_ready_def)
    moreover have "heap_bounded s'" by (rule ready_bounded [OF b(1)]) (use b(2) in simp)
    moreover have "set (provided (trace s')) = {..<nat (br_n_bufs c)}" "inflight (trace s') = []"
      using b(1) by (auto simp: buffers_ready_def)
    ultimately show ?thesis using ginvD(1) [OF g] unfolding gi_def
      by (intro disjI2 conjI exI) (assumption | simp)+
  qed simp
qed

definition blank_state :: "(sqe list, byte list) net_state" where
  "blank_state = \<lparr>kw = [], trace = [], next_addr = 1, ctx_heap = Map.empty, op_heap = Map.empty, buf_heap = Map.empty, tw = [],
     tun_heap = Map.empty, dtls_heap = Map.empty, conn_heap = Map.empty, fwd_heap = Map.empty\<rparr>"

lemma blank_fresh: "fresh_state blank_state"
  by (simp add: fresh_state_def blank_state_def ring_addrs_def)

theorem iouring_init_ledger_witness:
  "wp (iouring_init sample_posix sample_uring sample_config) (\<lambda>ctx s'. ctx = NULL \<or> gi ctx {} s' \<and> heap_bounded s' \<and>
    (\<exists>ops bufs. uinv ctx ops bufs s' \<and> length ops = nat (n_io_ops sample_config) \<and> length bufs = nat (n_io_ops sample_config)) \<and>
    set (provided (trace s')) = {..<nat (br_n_bufs sample_config)} \<and> inflight (trace s') = []) blank_state"
  by (rule iouring_init_ledger [OF blank_fresh])






section \<open>Pools\<close>

text \<open>
  The operation pool is a stack: what has been put back is what the next get returns, and the rest is as before.
\<close>

lemma io_op_pool_lifo:
  assumes "ctx_ok ctx s" and "chain (op_nx s) (op_head ctx s) ps" and "p \<noteq> NULL" and "op_heap s p \<noteq> None" and "p \<notin> set ps"
  shows "wp (bnd (iouring_put_io_op ctx p) (\<lambda>_. iouring_get_io_op ctx))
    (\<lambda>r s'. r = p \<and> ctx_ok ctx s' \<and> chain (op_nx s') (op_head ctx s') ps) s"
  by (rule op_pool.put_get) (use assms in \<open>auto simp: op_nx_def\<close>)

text \<open>
  Allocating an operation with its buffer and freeing it restores the two pools, and submits nothing.
\<close>

lemma io_op_alloc_free_roundtrip:
  assumes "uinv ctx (p # ops) (b # bufs) s"
  shows "wp (bnd (io_op_alloc ctx typ fd False) (\<lambda>q. bnd (io_op_free U ctx q) (\<lambda>_. ret q)))
    (\<lambda>q s'. q = p \<and> uinv ctx (p # ops) (b # bufs) s' \<and> trace s' = trace s) s"
proof (rule wp_bndI [OF io_op_alloc_single [OF assms]], goal_cases)
  case (1 q s1)
  then have s1: "q = p" "p \<notin> set ops" "b \<noteq> NULL" "uinv ctx ops bufs s1" "same_env s s1" "op_heap s1 p = Some (new_op typ fd b)" by auto
  have "wp (io_op_free U ctx p) (\<lambda>r' s'. r' = NULL \<and> uinv ctx (p # ops) (b # bufs) s' \<and> same_env s1 s' \<and>
    (\<forall>q. q \<noteq> p \<longrightarrow> op_heap s' q = op_heap s1 q)) s1"
    by (rule io_op_free_single_buf [OF s1(4,6,2)]) (use s1 in \<open>auto simp: new_op_def zero_op_def\<close>)
  then show ?case using s1 by (auto simp: wp_bnd wp_ret same_env_def elim!: wp_conseq)
qed

section \<open>Completions that end the program\<close>


text \<open>
  A datagram without payload (the payload length of a multishot buffer depends on the result and the
  message header only) makes the parser answer -1; the wait ends with NULL and so does the event loop.
\<close>

lemma wlp_Some_NULL: "wlp (bnd m (\<lambda>_. ret (Some NULL))) (\<lambda>w _. w = Some NULL) s"
  by (auto simp: wlp_def bnd_def ret_def split: sum.splits)

lemma recvmsg_out_empty:
  assumes r: "op_heap s p = Some r" and empty: "\<And>buf. recvmsg_payload_length U buf (data_len r) (op_msg r) = 0"
  shows "wlp (iouring_multishot_recvmsg_out U ctx p f) (\<lambda>rc _. rc = -1) s"
  using assms
  by (auto simp: wlp_def iouring_multishot_recvmsg_out_def recvmsg_parse_def exec_simps Let_def split: if_splits option.splits)

lemma handle_empty:
  assumes r: "op_heap s p = Some r" "op_type r = OP_TYPE_UDP_RECV" "is_multi r" and res: "0 \<le> res"
    and empty: "\<And>buf. recvmsg_payload_length U buf res (op_msg r) = 0"
  shows "wlp (handle_completion U ctx p res flags) (\<lambda>w _. w = Some NULL) s"
proof (cases "p = NULL")
  case False
  let ?r = "r\<lparr>data_len := res\<rparr>"
  let ?s = "s\<lparr>op_heap := (op_heap s)(p \<mapsto> ?r)\<rparr>"
  have "wlp (bnd (iouring_multishot_recvmsg_out U ctx p flags)
      (\<lambda>rc. if rc < 0 then bnd (io_op_free U ctx p) (\<lambda>_. ret (Some NULL)) else ret (Some p))) (\<lambda>w _. w = Some NULL) ?s"
    by (rule wlp_bndI [OF recvmsg_out_empty [where r = ?r]]) (use empty in \<open>auto intro: wlp_Some_NULL\<close>)
  then have "wlp (dispatch_completion U ctx p ?r flags) (\<lambda>w _. w = Some NULL) ?s" using r by (simp add: dispatch_completion_def Let_def)
  then show ?thesis using r res False by (auto simp: wlp_def handle_completion_def exec_simps split: if_splits)
qed (auto simp: wlp_def handle_completion_def exec_simps split: if_splits)

lemma wait_cqe_gets:
  assumes "wait_cqe_timeout U (kw s) = ((0, c), k')"
  shows "wlp (iouring_wait_cqe U ctx) (\<lambda>(rc, c') s'. rc = -1 \<or> rc = 0 \<and> c' = c \<and> op_heap s' = op_heap s) s"
proof -
  have store: "wlp (store_bytes m bs) (\<lambda>_ s'. op_heap s' = op_heap s) s" for m bs s
    by (cases m) (auto simp: wlp_def exec_simps split: if_splits option.splits)
  have dma: "wlp (dma ws) (\<lambda>_ s'. op_heap s' = op_heap s) s" for ws s
  proof (induction ws arbitrary: s)
    case (Cons w ws)
    obtain m bs where w: "w = (m, bs)" by (cases w)
    show ?case unfolding w dma.simps
    proof (rule wlp_bndI [OF store], goal_cases)
      case (1 _ s1)
      then show ?case using Cons.IH [of s1] by simp
    qed
  qed (simp add: wlp_prims)
  have "wlp (bnd (kcall (wait_cqe_timeout U)) (\<lambda>(rc, cqe).
      if rc < 0 then (if rc = -ETIME then ret (-ETIME, cqe) else ret (-1, cqe))
      else bnd (dma (cqe_writes cqe)) (\<lambda>_. ret (0, cqe)))) (\<lambda>(rc, c') s'. rc = -1 \<or> rc = 0 \<and> c' = c \<and> op_heap s' = op_heap s) s"
  proof (rule wlp_bndI [where R = "\<lambda>x s'. x = (0, c) \<and> s' = s\<lparr>kw := k'\<rparr>"], goal_cases)
    case (2 x s1)
    have "wlp (bnd (dma (cqe_writes c)) (\<lambda>_. ret (0, c))) (\<lambda>(rc, c') s'. rc = -1 \<or> rc = 0 \<and> c' = c \<and> op_heap s' = op_heap s) (s\<lparr>kw := k'\<rparr>)"
      by (rule wlp_bndI [OF dma]) (simp add: wlp_prims)
    then show ?case using 2 by simp
  qed (simp add: wlp_def exec_simps assms)
  then show ?thesis by (simp add: iouring_wait_cqe_def wlp_prims)
qed

lemma wait_for_recv_empty:
  assumes w: "wait_cqe_timeout U (kw s) = ((0, c), k')" and res: "0 \<le> cqe_res c"
    and r: "op_heap s (cqe_data c) = Some r" "op_type r = OP_TYPE_UDP_RECV" "is_multi r"
    and empty: "\<And>buf. recvmsg_payload_length U buf (cqe_res c) (op_msg r) = 0"
  shows "wlp (wait_for_recv U (Suc n) ctx) (\<lambda>got _. got = Some NULL) s"
  unfolding wait_for_recv.simps
proof (rule wlp_bndI [OF wait_cqe_gets [OF w]], clarify, goal_cases)
  case (1 rc c' s1)
  have "wlp (bnd (iouring_cqe_seen U ctx c) (\<lambda>_. bnd (handle_completion U ctx (cqe_data c) (cqe_res c) (cqe_flags c)) (\<lambda>r.
     case r of None \<Rightarrow> wait_for_recv U n ctx | Some p \<Rightarrow> ret (Some p)))) (\<lambda>got _. got = Some NULL) s1" if "op_heap s1 = op_heap s"
  proof (rule wlp_bndI [where R = "\<lambda>_ s'. op_heap s' = op_heap s"], goal_cases)
    case 1
    then show ?case using that by (auto simp: wlp_def iouring_cqe_seen_def exec_simps split: if_splits)
  next
    case (2 _ s2)
    then have "op_heap s2 (cqe_data c) = Some r" using r(1) by simp
    from handle_empty [OF this r(2,3) res empty] show ?case by (rule wlp_bndI) (simp add: wlp_prims)
  qed
  then show ?case using 1 by (auto simp: wlp_prims ETIME_def)
qed

text \<open>
  C31: A datagram without payload ends the event loop with -1: the parser of multishot receives treats it as an error.
\<close>

theorem empty_datagram_ends_loop:
  assumes U: "recvmsg_ok U" "kernel_ok U ctx K" and s: "gi ctx {} s" "conn_ok conn s" "K (kw s) (trace s)"
    and run: "sig_running P (kw s)" and w: "wait_cqe_timeout U (kw s) = ((0, c), k')" and res: "0 \<le> cqe_res c"
    and r: "op_heap s (cqe_data c) = Some r" "op_type r = OP_TYPE_UDP_RECV" "is_multi r"
    and empty: "\<And>buf. recvmsg_payload_length U buf (cqe_res c) (op_msg r) = 0"
  shows "wp (tun_udp_run_zero P U (Suc w') (Suc n) ctx conn tunfd) (\<lambda>res _. res = Some (-1)) s"
proof -
  have "wlp (event_loop P U (Suc w') (Suc n) ctx h NULL 0) (\<lambda>res _. res = Some (NULL, -1)) s" for h
    using wait_for_recv_empty [OF w res r empty, of w' ctx] run
    by (auto simp: wlp_def exec_simps split: sum.splits simp del: wait_for_recv.simps)
  note ev = this
  have "wlp (tun_udp_run_zero P U (Suc w') (Suc n) ctx conn tunfd) (\<lambda>res _. res = Some (-1)) s"
    unfolding tun_udp_run_zero_def run_events_def
    using wlp_bndI [OF ev, of "\<lambda>res. case res of None \<Rightarrow> ret None | Some (op, rc) \<Rightarrow> bnd (free_op op) (\<lambda>_. ret (Some rc))"
      "\<lambda>res _. res = Some (-1)"] by (simp add: wlp_prims free_op_def bnd_ret del: event_loop.simps)
  moreover have "wp (tun_udp_run_zero P U (Suc w') (Suc n) ctx conn tunfd) (\<lambda>_ _. True) s"
    unfolding tun_udp_run_zero_def
    by (rule wp_conseq [OF zero.run_ok [OF U]]) (use s in \<open>auto simp: zero.between_def\<close>)
  ultimately show ?thesis by (auto simp: wp_def wlp_def split: sum.splits)
qed

text \<open>A kernel that delivers one empty datagram.\<close>

definition empty_datagram :: cqe where
  "empty_datagram = \<lparr>cqe_data = 6, cqe_res = 144, cqe_flags = 3, cqe_writes = []\<rparr>"

definition empty_uring :: "sqe list liburing" where
  "empty_uring = sample_uring\<lparr>wait_cqe_timeout := (\<lambda>k. (if k = sample_inflight then (0, empty_datagram) else (-ETIME, no_cqe), k)),
     cqe_seen := (\<lambda>k. []), prep := (\<lambda>e k. []), submit := (\<lambda>k. (1, [])), buf_ring_add := (\<lambda>b off sl k. []),
     buf_ring_advance := (\<lambda>n k. [])\<rparr>"

definition empty_knows :: "sqe list \<Rightarrow> event list \<Rightarrow> bool" where
  "empty_knows k tr \<longleftrightarrow> k = [] \<or> k = sample_inflight \<and> inflight tr = sample_inflight \<and> provided tr = [0]"

lemma empty_kernel_ok: "kernel_ok empty_uring ctx empty_knows"
proof -
  have off: "inflight (e # tr) = inflight tr" "provided (e # tr) = provided tr" if "off_ring e" for e tr using that by (cases e; simp)+
  have ok: "cqe_ok ctx tr empty_datagram" if "inflight tr = sample_inflight" "provided tr = [0]" for tr
    using that by (simp add: cqe_ok_def cqe_legal_def empty_datagram_def sample_inflight_def BUF_SIZE_def)
  show ?thesis unfolding kernel_ok_def empty_knows_def
    by (auto simp: empty_uring_def sample_uring_def off ETIME_def sample_inflight_def intro: ok [unfolded sample_inflight_def])
qed

theorem empty_datagram_ends_loop_witness:
  "wp (tun_udp_run_zero sample_posix empty_uring 1 1 1 10 8) (\<lambda>res _. res = Some (-1)) sample_state"
proof -
  let ?r = "(new_multi_op OP_TYPE_UDP_RECV 9)\<lparr>op_msg := (op_msg zero_op)\<lparr>msg_namelen := SOCKADDR_STORAGE\<rparr>\<rparr>"
  have U: "recvmsg_ok empty_uring"
    by (simp add: recvmsg_ok_def empty_uring_def sample_uring_def SOCKADDR_STORAGE_def RECVMSG_OUT_SIZE_def BUF_SIZE_def)
  have "wp (tun_udp_run_zero sample_posix empty_uring (Suc 0) (Suc 0) 1 10 8) (\<lambda>res _. res = Some (-1)) sample_state"
  proof (rule empty_datagram_ends_loop [OF U empty_kernel_ok sample_gi sample_conn_ok, where c = empty_datagram and r = ?r])
    show "empty_knows (kw sample_state) (trace sample_state)" by (simp add: empty_knows_def sample_state_def sample_inflight_def)
    show "op_heap sample_state (cqe_data empty_datagram) = Some ?r" by (simp add: sample_state_def sample_ops_def empty_datagram_def)
    show "wait_cqe_timeout empty_uring (kw sample_state) = ((0, empty_datagram), sample_inflight)"
      by (simp add: empty_uring_def sample_state_def)
  qed (simp_all add: sample_posix_def empty_uring_def sample_uring_def empty_datagram_def new_multi_op_def zero_op_def)
  then show ?thesis by simp
qed

end
