(* ===== verification/Loop_Properties.thy ===== *)
theory Loop_Properties
  imports Ring_Properties
begin

text \<open>
  The event loops as state machines: they run through the states of the step relation \<open>turns\<close>, and keep the
  ledger in every one of them.
\<close>

section \<open>Safety\<close>

text \<open>
  The event loop of the edge without encryption never faults, keeps the ledger of operations and buffers while it runs,
  and leaves consistent pools when it stops.
\<close>

lemma tun_udp_run_zero_safe:
  assumes "recvmsg_ok U" and "kernel_ok U ctx K"
    and "gi ctx {} s" and "conn_ok conn s" and "K (kw s) (trace s)"
  shows "wp (tun_udp_run_zero P U w n ctx conn tunfd) (\<lambda>res s'. case res of
      None \<Rightarrow> gi ctx {} s' \<and> conn_ok conn s' \<and> K (kw s') (trace s')
    | Some rc \<Rightarrow> live ctx {} s' \<and> dom (op_heap s') \<subseteq> dom (op_heap s) \<and> dom (buf_heap s') = dom (buf_heap s)) s"
  unfolding tun_udp_run_zero_def
  by (rule wp_conseq [OF zero.run_ok [OF assms(1,2)]])
    (use assms(3-5) in \<open>auto simp: zero.between_def split: option.splits\<close>)

text \<open>
  C12: The event loop of the DTLS edge never faults (no failed assertion, no NULL or dangling pointer, no access out of bounds),
  for every number of turns and every answer the kernel may give. As long as it runs, every operation is free, in flight or being
  handled, and every buffer has one owner; when it stops the pools are consistent and no buffer has been lost from the heap.
\<close>

theorem tun_udp_run_safe:
  assumes "recvmsg_ok U" and "kernel_ok U ctx K" and "openssl_ok T"
    and "gi ctx {} s" and "conn_tls conn s" and "all_multi s" and "K (kw s) (trace s)"
  shows "wp (tun_udp_run P T U w n ctx conn tunfd) (\<lambda>res s'. case res of
      None \<Rightarrow> gi ctx {} s' \<and> conn_tls conn s' \<and> all_multi s' \<and> K (kw s') (trace s')
    | Some rc \<Rightarrow> live ctx {} s' \<and> dom (op_heap s') \<subseteq> dom (op_heap s) \<and> dom (buf_heap s') = dom (buf_heap s)) s"
  unfolding tun_udp_run_def
  by (rule wp_conseq [OF dtls.run_ok [OF assms(1,2)]])
    (use assms(3-7) in \<open>auto simp: dtls.between_def dtls_inv_def split: option.splits\<close>)

theorem tun_udp_run_safe_witness:
  "wp (tun_udp_run sample_posix sample_openssl sample_uring 5 5 1 10 8) (\<lambda>res s'. case res of
      None \<Rightarrow> gi 1 {} s' \<and> conn_tls 10 s' \<and> all_multi s' \<and> sample_knows (kw s') (trace s')
    | Some rc \<Rightarrow> live 1 {} s' \<and> dom (op_heap s') \<subseteq> dom (op_heap sample_state) \<and> dom (buf_heap s') = dom (buf_heap sample_state)) sample_state"
  by (rule tun_udp_run_safe [OF sample_recvmsg_ok sample_kernel_ok sample_openssl_ok sample_gi _ sample_all_multi sample_knows_state])
    (use sample_dtls_inv in \<open>simp add: dtls_inv_def\<close>)

section \<open>The loop as a sequence of turns\<close>

lemma turns_Cons:
  "turns P U w ctx h s' s'' \<Longrightarrow> turn P U w ctx h s s' \<Longrightarrow> turns P U w ctx h s s''"
proof (induction rule: turns.induct)
  case (turns_refl s')
  then show ?case by (meson turns.intros)
next
  case (turns_step s1 s2 s3)
  then show ?case by (meson turns.intros)
qed

lemma bnd_InrE:
  assumes "bnd m f s = Inr (b, s')"
  obtains a s1 where "m s = Inr (a, s1)" and "f a s1 = Inr (b, s')"
  using assms by (auto simp: bnd_def split: sum.splits)

lemma load_InrD: "load g p s = Inr (v, s') \<Longrightarrow> p \<noteq> NULL \<and> g s p = Some v \<and> s' = s"
  by (auto simp: load_def split: if_splits option.splits)

lemma event_loop_turns:
  "event_loop P U w n ctx h op rc s = Inr (res, s') \<Longrightarrow>
     case res of Some (op', rc') \<Rightarrow> 0 \<le> rc' \<longrightarrow> turns P U w ctx h s s' \<and> \<not> sig_running P (kw s') | None \<Rightarrow> True"
proof (induction n arbitrary: s op rc)
  case (Suc n)
  show ?case
  proof (cases res)
    case (Some x)
    obtain op' rc' where x: "res = Some (op', rc')" using Some by (cases x) auto
    show ?thesis
    proof (cases "sig_running P (kw s)")
      case False
      then show ?thesis using Suc.prems x by (auto simp: exec_simps intro: turns_refl)
    next
      case True
      show ?thesis
      proof (cases "wait_for_recv U w ctx s")
        case (Inl e)
        then show ?thesis using Suc.prems True by (simp add: exec_simps)
      next
        case (Inr y)
        obtain got s1 where y: "y = (got, s1)" by (cases y)
        show ?thesis
        proof (cases "got = None \<or> got = Some NULL")
          case True
          then show ?thesis using Suc.prems x \<open>sig_running P (kw s)\<close> Inr y by (auto simp: exec_simps)
        next
          case False
          then obtain p where p: "got = Some p" "p \<noteq> NULL" by auto
          then obtain r rc1 s2 op2 s3 where st: "op_heap s1 p = Some r" "h p r s1 = Inr (rc1, s2)" "io_op_free U ctx p s2 = Inr (op2, s3)"
            and rest: "(if rc1 < 0 then ret (Some (op2, rc1)) else event_loop P U w n ctx h op2 rc1) s3 = Inr (res, s')"
          proof -
            have "bnd (load op_heap p) (\<lambda>r. bnd (h p r) (\<lambda>rc. bnd (io_op_free U ctx p) (\<lambda>op.
              if rc < 0 then ret (Some (op, rc)) else event_loop P U w n ctx h op rc))) s1 = Inr (res, s')"
              using Suc.prems True Inr y p by (simp add: bnd_def gets_def)
            then show ?thesis by (elim bnd_InrE) (auto dest!: load_InrD intro: that)
          qed
          show ?thesis
          proof (cases "rc1 < 0")
            case True
            then show ?thesis using rest x by (auto simp: ret_def)
          next
            case False
            have "turn P U w ctx h s s3"
              by (rule turn.intros [where op = p and ?s1.0 = s1 and r = r and rc = rc1 and ?s2.0 = s2])
                (use Inr y p False st \<open>sig_running P (kw s)\<close> in auto)
            then show ?thesis using Suc.IH [of op2 rc1 s3] rest False x by (auto intro: turns_Cons)
          qed
        qed
      qed
    qed
  qed simp
qed (simp add: ret_def)

text \<open>
  C20: A run of the event loop that ends without an error is a finite sequence of turns of the step relation, and ends because the
  stop flag has been set.
\<close>

theorem tun_udp_run_refines_turns:
  assumes "tun_udp_run P T U w n ctx conn tunfd s = Inr (Some rc, s')" and "0 \<le> rc"
  shows "\<exists>s1. turns P U w ctx (dtls_packet T U conn tunfd ctx) s s1 \<and> \<not> sig_running P (kw s1) \<and> kw s' = kw s1 \<and> buf_heap s' = buf_heap s1"
proof -
  have "bnd (event_loop P U w n ctx (dtls_packet T U conn tunfd ctx) NULL 0) (\<lambda>res. case res of None \<Rightarrow> ret None
      | Some (op, rc) \<Rightarrow> bnd (free_op op) (\<lambda>_. ret (Some rc))) s = Inr (Some rc, s')"
    using assms by (auto simp: tun_udp_run_def run_events_def ret_def split: if_splits)
  then obtain res s1 where e: "event_loop P U w n ctx (dtls_packet T U conn tunfd ctx) NULL 0 s = Inr (res, s1)"
    and f: "(case res of None \<Rightarrow> ret None | Some (op, rc) \<Rightarrow> bnd (free_op op) (\<lambda>_. ret (Some rc))) s1 = Inr (Some rc, s')"
    by (rule bnd_InrE)
  from f obtain op where res: "res = Some (op, rc)" and fr: "kw s' = kw s1" "buf_heap s' = buf_heap s1"
    by (auto simp: ret_def exec_simps split: option.splits if_splits)
  show ?thesis using event_loop_turns [OF e] assms(2) res fr by auto
qed

theorem tun_udp_run_refines_turns_witness:
  "\<exists>s1. turns (sample_posix\<lparr>sig_running := \<lambda>k. False\<rparr>) sample_uring 1 1 (dtls_packet sample_openssl sample_uring 10 8 1) sample_state s1 \<and>
    \<not> sig_running (sample_posix\<lparr>sig_running := \<lambda>k. False\<rparr>) (kw s1) \<and> kw sample_state = kw s1 \<and> buf_heap sample_state = buf_heap s1"
proof (rule tun_udp_run_refines_turns)
  have "tun_udp_run (sample_posix\<lparr>sig_running := \<lambda>k. False\<rparr>) sample_openssl sample_uring 1 (Suc 0) 1 10 8 sample_state = Inr (Some 0, sample_state)"
    by (simp add: tun_udp_run_def run_events_def exec_simps)
  then show "tun_udp_run (sample_posix\<lparr>sig_running := \<lambda>k. False\<rparr>) sample_openssl sample_uring 1 (Suc 0) 1 10 8 sample_state = Inr (Some 0, sample_state)" .
qed simp



end
