(* ===== verification/Program_Properties.thy ===== *)
theory Program_Properties
  imports Lifecycle Loop_Properties
begin

text \<open>
  The programs: the forwarder's data path and loop, the DTLS handshake, and what the three \<^verbatim>\<open>main\<close>
  functions do with the results of the calls they make.
\<close>

section \<open>The forwarder\<close>

text \<open>
  C13: A forwarded datagram is decrypted with the SSL object of the side whose socket it arrived on and the very bytes
  obtained are encrypted with the SSL object of the other side. When the call fails, at most the read or the read and that write have happened;
  no other plaintext is read or written.
\<close>

theorem forward_udp_packet_data_flow:
  assumes "openssl_ok T" and "ssl_error_exact T" and "all_multi s" and "received ctx p s"
    and "op_heap s p = Some r" and "op_type r = OP_TYPE_UDP_RECV"
    and "fw \<noteq> NULL" and "fwd_heap s fw = Some f" and "fw_uring f = ctx"
    and "conn_tls (fw_inbound f) s" and "conn_tls (fw_outbound f) s"
    and "conn_heap s (fw_inbound f) = Some ci" and "conn_heap s (fw_outbound f) = Some co"
    and "(rs, fs) = (if op_fd r = udp_fd ci then (conn_ssl ci, conn_ssl co) else (conn_ssl co, conn_ssl ci))"
  shows "wp (forward_udp_packet T U fw p) (\<lambda>rc s'.
    rc = 0 \<and> gi ctx {p} s' \<and> (\<exists>bs. bs \<noteq> [] \<and> plaintext (trace s') = [Ev_ssl_write fs bs, Ev_ssl_read rs bs] @ plaintext (trace s)) \<or>
    rc = -1 \<and> live ctx {p} s' \<and> (\<exists>bs. plaintext (trace s') \<in>
      {plaintext (trace s), Ev_ssl_read rs bs # plaintext (trace s), Ev_ssl_write fs bs # Ev_ssl_read rs bs # plaintext (trace s)})) s"
proof -
  have i: "fwd_inv T fw ctx s" unfolding fwd_inv_def fwd_ok_def using assms by blast
  show ?thesis
    by (rule wp_conseq [OF wp_wlp [OF forward_udp_packet_ok [OF assms(4-6) i] forward_plain [OF assms(1,2,5,8,12-14)]]])
      (auto simp: handled_def plus_plain_def)
qed

lemma sample_fwd:
  "ssl_error_exact sample_openssl" "all_multi sample_udp_state" "fwd_heap sample_udp_state 12 = Some \<lparr>fw_uring = 1, fw_outbound = 13, fw_inbound = 10\<rparr>"
  "conn_tls 10 sample_udp_state" "conn_tls 13 sample_udp_state" "conn_heap sample_udp_state 10 = Some sample_conn"
  "conn_heap sample_udp_state 13 = Some (sample_conn\<lparr>udp_fd := 14, conn_ssl := 103\<rparr>)" "fwd_ok 12 1 sample_state"
  "op_fd udp_packet_op = udp_fd sample_conn" "conn_ssl sample_conn = 100"
  by (auto simp: ssl_error_exact_def sample_openssl_def all_recv_def recv_on_def udp_packet_op_def sample_udp_state_def fwd_ok_def
    conn_tls_def conn_ok_def sample_conn_def zero_conn_def SOCKADDR_STORAGE_def sample_defs op_type_defs split: if_splits)

theorem forward_udp_packet_data_flow_witness:
  "wp (forward_udp_packet sample_openssl sample_uring 12 6) (\<lambda>rc s'.
    rc = 0 \<and> gi 1 {6} s' \<and> (\<exists>bs. bs \<noteq> [] \<and> plaintext (trace s') = [Ev_ssl_write 103 bs, Ev_ssl_read 100 bs] @ plaintext (trace sample_udp_state)) \<or>
    rc = -1 \<and> live 1 {6} s' \<and> (\<exists>bs. plaintext (trace s') \<in>
      {plaintext (trace sample_udp_state), Ev_ssl_read 100 bs # plaintext (trace sample_udp_state),
       Ev_ssl_write 103 bs # Ev_ssl_read 100 bs # plaintext (trace sample_udp_state)})) sample_udp_state"
proof -
  have t: "op_type udp_packet_op = OP_TYPE_UDP_RECV" by (simp add: udp_packet_op_def new_multi_op_def)
  let ?co = "sample_conn\<lparr>udp_fd := 14, conn_ssl := 103\<rparr>"
  have w: "(100, 103) = (if op_fd udp_packet_op = udp_fd sample_conn then (conn_ssl sample_conn, conn_ssl ?co) else (conn_ssl ?co, conn_ssl sample_conn))"
    using sample_fwd(9,10) by simp
  show ?thesis
    by (rule forward_udp_packet_data_flow [OF sample_openssl_ok sample_fwd(1,2) sample_udp_received sample_packets(2) t _ sample_fwd(3) _ _ _ _ _ w])
      (simp_all add: sample_fwd(4-7))
qed

text \<open>
  C16: The loop of the forwarder never faults. While it runs the ledger of operations and buffers is complete; it stops only with
  -1, with consistent pools and both connections usable, and has neither allocated nor freed an operation or a buffer.
\<close>

theorem forwarder_run_safe:
  assumes "recvmsg_ok U" and "kernel_ok U ctx K" and "openssl_ok T"
    and "gi ctx {} s" and "all_multi s" and "K (kw s) (trace s)" and "fwd_ok fw ctx s"
  shows "wp (forwarder_run T U w n fw) (\<lambda>res s'. case res of
      None \<Rightarrow> gi ctx {} s' \<and> fwd_ok fw ctx s' \<and> K (kw s') (trace s')
    | Some rc \<Rightarrow> rc = -1 \<and> live ctx {} s' \<and> fwd_ok fw ctx s' \<and>
        dom (op_heap s') = dom (op_heap s) \<and> dom (buf_heap s') = dom (buf_heap s)) s"
proof -
  have b: "fwd.between ctx T fw K s" using assms by (simp add: fwd.between_def fwd_inv_def)
  have "forwarder_run T U w n fw = forwarder_loop T U w n fw" using assms(7) by (simp add: forwarder_run_def fwd_ok_def)
  then show ?thesis
    by (simp only:) (rule wp_conseq [OF forwarder_loop_ok [OF assms(1,2) b]],
      simp add: fwd.between_def fwd_inv_def same_objects_def split: option.splits)
qed

theorem forwarder_run_safe_witness:
  "wp (forwarder_run sample_openssl sample_uring 5 5 12) (\<lambda>res s'. case res of
      None \<Rightarrow> gi 1 {} s' \<and> fwd_ok 12 1 s' \<and> sample_knows (kw s') (trace s')
    | Some rc \<Rightarrow> rc = -1 \<and> live 1 {} s' \<and> fwd_ok 12 1 s' \<and>
        dom (op_heap s') = dom (op_heap sample_state) \<and> dom (buf_heap s') = dom (buf_heap sample_state)) sample_state"
  by (rule forwarder_run_safe [OF sample_recvmsg_ok sample_kernel_ok sample_openssl_ok sample_gi sample_all_multi sample_knows_state sample_fwd(8)])

section \<open>The handshake\<close>

lemma plain_handshake_send [frame_rules]: "plain.keeps (handshake_send T U ctx conn)"
  unfolding handshake_send_def BIO_pending_def by (auto intro!: frame_rules)

text \<open>A connection is established only when OpenSSL has reported the end of the handshake.\<close>

definition established :: "'t openssl \<Rightarrow> ptr \<Rightarrow> ('k, 't) net_state \<Rightarrow> bool" where
  "established T conn s \<longleftrightarrow> (\<exists>c t. conn_heap s conn = Some c \<and> conn_st c = CONN_STATE_ESTABLISHED \<and> fst (ssl_do_handshake T (conn_ssl c) t) = 1)"

lemma handshake_loop_result:
  "wlp (handshake_loop T U w n ctx conn) (\<lambda>res s'. res = None \<or> res = Some (-1) \<or> res = Some 0 \<and> established T conn s') s"
proof (induction n arbitrary: s)
  case 0
  then show ?case by (simp add: wlp_prims)
next
  case (Suc n)
  let ?Q = "\<lambda>res s'. res = None \<or> res = Some (-1 :: int) \<or> res = Some 0 \<and> established T conn s'"
  show ?case
  proof (cases "conn_heap s conn")
    case None
    then show ?thesis by (auto simp: wlp_def exec_simps split: if_splits)
  next
    case (Some c)
    obtain rc t where h: "ssl_do_handshake T (conn_ssl c) (tw s) = (rc, t)" by (cases "ssl_do_handshake T (conn_ssl c) (tw s)")
    show ?thesis unfolding handshake_loop.simps
    proof (rule wlp_loadI [where h = conn_heap, OF Some], rule wlp_bndI [where R = "\<lambda>a s'. a = rc \<and> conn_heap s' = conn_heap s"], goal_cases)
      case 1
      then show ?case using h by (auto simp: wlp_def with_ssl_def exec_simps split: if_splits)
    next
      case (2 a s1)
      show ?case
      proof (rule plain.keeps_bndI, goal_cases)
        case 1
        then show ?case by (auto intro!: frame_rules)
      next
        case (2 _ s2)
        show ?case
        proof (rule plain.keeps_bndI [OF plain_handshake_send], goal_cases)
          case (1 sent s3)
          then have c3: "conn_heap s3 conn = Some c" using 2 \<open>a = rc \<and> _\<close> Some by (simp add: plus_plain_def)
          have done1: "wlp (bnd (upd_conn conn (\<lambda>c. c\<lparr>conn_st := CONN_STATE_ESTABLISHED\<rparr>)) (\<lambda>_. ret (Some 0))) ?Q s3" if "rc = 1"
            using c3 h that unfolding established_def upd_conn_def
            by (auto simp: wlp_def exec_simps split: if_splits) (metis fst_conv)
          show ?case
          proof (cases "rc = 1")
            case True
            then show ?thesis using done1 \<open>a = rc \<and> _\<close> by (simp add: wlp_prims)
          next
            case False
            then show ?thesis using \<open>a = rc \<and> _\<close>
              by (auto simp: wlp_prims Suc.IH split: option.split intro!: wlp_bndI [where R = "\<lambda>_ _. True"]) (auto simp: wlp_def)
          qed
        qed
      qed
    qed
  qed
qed

text \<open>
  The handshake ends with 0 only in the state ESTABLISHED, after OpenSSL has reported that the handshake is complete; every other
  end is -1.
\<close>

lemma handshake_establishes:
  "wlp (do_dtls_handshake T U w n ctx conn) (\<lambda>res s'. res = None \<or> res = Some (-1) \<or> res = Some 0 \<and>
     (\<exists>c t. conn_heap s' conn = Some c \<and> conn_st c = CONN_STATE_ESTABLISHED \<and> fst (ssl_do_handshake T (conn_ssl c) t) = 1)) s"
proof (cases "conn = NULL")
  case False
  have "wlp (bnd (tdo (err_clear_error T)) (\<lambda>_. handshake_loop T U w n ctx conn))
    (\<lambda>res s'. res = None \<or> res = Some (-1) \<or> res = Some 0 \<and> established T conn s') s"
    by (rule wlp_bndI [where R = "\<lambda>_ _. True"]) (simp_all add: handshake_loop_result wlp_def [of "tdo f" for f])
  then show ?thesis using False by (simp add: do_dtls_handshake_def established_def)
qed (simp add: do_dtls_handshake_def wlp_prims)

section \<open>The programs\<close>



lemma sample_port: "atoi16 ''4433'' = 4433"
  by (simp add: atoi16_def atoi_def is_blank_def Let_def)




text \<open>
  C30: When the connection cannot be created, the edge without encryption goes on and reads the socket through NULL.
\<close>

theorem edge_zero_null_connection:
  assumes "parse_role 4 argv = Some rl" and "edge_endpoint rl argv = (host, rport, lport, ifname)"
    and "create_connection P rl host rport lport s = Inr (NULL, s1)" and "fresh_state s1"
  shows "edge_zero_main P U w n argv s = Inl Null_deref"
proof -
  from wp_InrD [OF iouring_init_ready [OF assms(4) refl refl, where P = P and U = U]] obtain u s2
    where "iouring_init P U edge_zero_params s1 = Inr (u, s2)" by blast
  then show ?thesis using assms(1-3) by (simp add: edge_zero_main_def bnd_def load_def)
qed

text \<open>A host on which the port is taken.\<close>

definition busy_posix :: "'k posix" where
  "busy_posix = sample_posix\<lparr>sys_bind := \<lambda>fd a k. (-1, k)\<rparr>"

lemma busy_port:
  "wp (create_connection busy_posix CONN_ROLE_SERVER None 0 4433) (\<lambda>conn s1. conn = NULL \<and> fresh_state s1) blank_state"
  by (simp add: create_connection_def connection_socket_def udp_socket_create_def udp_socket_bind_def calloc_conn_def wp_simps
    busy_posix_def sample_posix_def blank_state_def fresh_state_def ring_addrs_def)

theorem edge_zero_null_connection_witness:
  "edge_zero_main busy_posix sample_uring 5 5 [''edge-zero'', ''server'', ''10.0.0.1'', ''4433''] blank_state = Inl Null_deref"
proof -
  from wp_InrD [OF busy_port] obtain s1 where
    s1: "create_connection busy_posix CONN_ROLE_SERVER None 0 4433 blank_state = Inr (NULL, s1)" "fresh_state s1" by auto
  show ?thesis
    by (rule edge_zero_null_connection [OF _ _ s1(1) s1(2), where ifname = "''tun1''"])
      (simp_all add: parse_role_def edge_endpoint_def sample_port Let_def)
qed

section \<open>The forwarder's start\<close>

text \<open>
  A forwarder is only ever returned when the initialisation of both DTLS connections has reported an error.
\<close>

lemma forwarder_created_without_dtls:
  "wlp (forwarder_create P T U host rport iport oport cert key ca) (\<lambda>ctx s'. ctx = NULL \<or>
     (\<exists>inb outb s1 s2 s3 rc1 rc2. inb \<noteq> NULL \<and> init_dtls_connection P T inb (Some cert) (Some key) None s1 = Inr (rc1, s2) \<and> rc1 \<noteq> 0 \<and>
       outb \<noteq> NULL \<and> init_dtls_connection P T outb None None ca s3 = Inr (rc2, s') \<and> rc2 \<noteq> 0)) s"
  unfolding wlp_def
proof (intro allI impI, goal_cases)
  case (1 ctx s')
  then show ?case unfolding forwarder_create_def
    by (elim bnd_InrE) (auto simp: ret_def c_not_def split: if_splits elim!: bnd_InrE, metis neq0_conv)
qed

end
