(* ===== verification/Edge_Run.thy ===== *)
theory Edge_Run
  imports Program_Properties
begin

text \<open>
  The edge without encryption from start to end: connection, io-uring, first receives, TUN device,
  first reads, loop, cleanup. The lemmas follow the program backwards, from its last statements to
  its first, and compose the facts of the components.
\<close>

section \<open>The kernel's view during set-up\<close>

text \<open>System calls that do not concern the ring leave the kernel's view of it as it is.\<close>

definition calls_ok :: "'k posix \<Rightarrow> 'k liburing \<Rightarrow> ('k \<Rightarrow> event list \<Rightarrow> bool) \<Rightarrow> bool" where
  "calls_ok P U K \<longleftrightarrow> (\<forall>k tr. K k tr \<longrightarrow>
     K (snd (calloc_ok P k)) tr \<and> K (snd (memalign_ok P k)) tr \<and> K (snd (sys_socket P k)) tr \<and>
     (\<forall>fd a. K (snd (sys_bind P fd a k)) tr) \<and> (\<forall>fd. K (sys_close P fd k) tr) \<and>
     (\<forall>h p. K (snd (sys_getaddrinfo P h p k)) tr) \<and> K (snd (sys_open_tun P k)) tr \<and>
     (\<forall>fd r. K (snd (sys_ioctl P fd r k)) tr) \<and> (\<forall>f. K (snd (sys_fopen P f k)) tr) \<and>
     (\<forall>t. K (snd (sys_fprintf P t k)) tr) \<and> K (sys_fclose P k) tr \<and>
     (\<forall>sq cq. K (snd (queue_init_params U sq cq k)) tr) \<and> (\<forall>n g. K (snd (setup_buf_ring U n g k)) tr) \<and>
     (\<forall>e. off_ring e \<longrightarrow> K k (e # tr)))"

lemmas calls_ok_step = calls_ok_def [THEN iffD1, THEN spec, THEN spec, THEN mp]

lemma calls_okD:
  assumes "calls_ok P U K" and "K k tr"
  shows "K (snd (calloc_ok P k)) tr" "K (snd (memalign_ok P k)) tr" "K (snd (sys_socket P k)) tr"
    "K (snd (sys_bind P fd a k)) tr" "K (sys_close P fd k) tr" "K (snd (sys_getaddrinfo P h p k)) tr" "K (snd (sys_open_tun P k)) tr"
    "K (snd (sys_ioctl P fd r k)) tr" "K (snd (sys_fopen P f k)) tr" "K (snd (sys_fprintf P t k)) tr" "K (sys_fclose P k) tr"
    "K (snd (queue_init_params U sq cq k)) tr" "K (snd (setup_buf_ring U n g k)) tr" "off_ring e \<Longrightarrow> K k (e # tr)"
  using calls_ok_step [OF assms] by simp_all

definition agrees :: "('k \<Rightarrow> event list \<Rightarrow> bool) \<Rightarrow> (('k, 'z) base_state_scheme, 'a) prog \<Rightarrow> bool" where
  "agrees K m \<longleftrightarrow> (\<forall>s. K (kw s) (trace s) \<longrightarrow> wlp m (\<lambda>_ s'. K (kw s') (trace s')) s)"

named_theorems agree_rules \<open>programs that keep the kernel's view\<close>

lemma agreesD: "agrees K m \<Longrightarrow> K (kw s) (trace s) \<Longrightarrow> wlp m (\<lambda>_ s'. K (kw s') (trace s')) s"
  unfolding agrees_def by blast

lemma agrees_prims [agree_rules]:
  "agrees K (ret a)" "agrees K (throwf e)" "agrees K (c_assert b)" "agrees K (gets g)" "agrees K (load h p)"
  by (auto simp: agrees_def wlp_def exec_simps split: if_splits option.splits)

lemma agrees_bnd [agree_rules]: "agrees K m \<Longrightarrow> (\<And>a. agrees K (f a)) \<Longrightarrow> agrees K (bnd m f)"
  unfolding agrees_def by (auto intro!: wlp_bndI)

lemma agrees_splits [agree_rules]:
  "(b \<Longrightarrow> agrees K m) \<Longrightarrow> (\<not> b \<Longrightarrow> agrees K n) \<Longrightarrow> agrees K (if b then m else n)"
  "agrees K m \<Longrightarrow> (\<And>a. agrees K (g a)) \<Longrightarrow> agrees K (case x of None \<Rightarrow> m | Some a \<Rightarrow> g a)"
  "(\<And>a b. agrees K (h a b)) \<Longrightarrow> agrees K (case_prod h y)"
  by (auto split: option.split prod.split)

lemma agrees_calls [agree_rules]:
  "(\<And>k tr. K k tr \<Longrightarrow> K (snd (f k)) tr) \<Longrightarrow> agrees K (kcall f)"
  "(\<And>k tr. K k tr \<Longrightarrow> K (g k) tr) \<Longrightarrow> agrees K (kdo g)"
  "(\<And>k tr. K k tr \<Longrightarrow> K k (e # tr)) \<Longrightarrow> agrees K (log_ev e)"
  by (auto simp: agrees_def wlp_def exec_simps split: prod.splits) (metis snd_conv)

lemma agrees_modify: "(\<And>s. kw (u s) = kw s \<and> trace (u s) = trace s) \<Longrightarrow> agrees K (modify u)"
  by (simp add: agrees_def wlp_def exec_simps)

lemma agrees_upd [agree_rules]:
  "agrees K (upd_ctx p f1)" "agrees K (upd_op p f2)" "agrees K (upd_buf p f3)" "agrees K (upd_tun p f4)" "agrees K (upd_conn p f5)"
  unfolding upd_ctx_def upd_op_def upd_buf_def upd_tun_def upd_conn_def by (auto intro!: agree_rules agrees_modify)

lemma agrees_objs:
  assumes c: "calls_ok P U K"
  shows "agrees K (calloc_tun P)" "agrees K (calloc_conn P)" "agrees K (calloc_op P)" "agrees K (calloc_buf_addr P)"
    "agrees K (free_tun p)" "agrees K (free_conn p)" "agrees K (do_socket P)" "agrees K (do_close P fd)" "agrees K (free_ctx p)"
  unfolding calloc_tun_def calloc_conn_def calloc_obj_def calloc_op_def calloc_buf_addr_def free_tun_def free_conn_def do_socket_def do_close_def
    free_ctx_def
  by (auto intro!: agree_rules agrees_modify calls_okD [OF c])

lemma agrees_utils [agree_rules]: "agrees K (rd p i)" "agrees K (rd16 p i)" "agrees K (rd_be16 p i)" "agrees K (rd_bytes p i n)"
  by (auto simp: rd_def rd16_def rd_be16_def intro!: agree_rules)
    (induction p i n rule: rd_bytes.induct, auto simp: rd_def intro!: agree_rules)

lemma agrees_connection:
  assumes c: "calls_ok P U K"
  shows "agrees K (create_connection P rl host rport lport)"
  unfolding create_connection_def connection_socket_def udp_socket_create_def udp_socket_bind_def resolve_hostname_def addr_to_string_def
    Let_def
  by (auto intro!: agree_rules agrees_objs [OF c] calls_okD [OF c])

lemma agrees_tun:
  assumes c: "calls_ok P U K"
  shows "agrees K (new_tun_device P ifname ip netmask mtu)"
  unfolding new_tun_device_def tun_device_create_def tun_device_configure_def tun_device_up_def tun_device_destroy_def
    tun_device_disable_ipv6_def ioctl_or_close_def Let_def
  by (auto intro!: agree_rules agrees_objs [OF c] calls_okD [OF c])

lemma agrees_init:
  assumes c: "calls_ok P U K" and k: "kernel_ok U ctx K"
  shows "agrees K (iouring_init P U cfg)"
proof -
  have "agrees K (iouring_alloc_io_op_pool_loop P x i prev)" "agrees K (iouring_alloc_buf_addr_pool_loop P x i prev)" for x i prev
    by (induction i arbitrary: prev) (auto intro!: agree_rules agrees_objs [OF c])
  moreover have "agrees K (br_add_loop U i j)" for i j
  proof (induction j arbitrary: i)
    case (Suc j)
    have "agrees K (uring_br_add U b off sl)" for b off sl
      using kernel_okD(4) [OF k] by (auto simp: agrees_def wlp_def uring_br_add_def exec_simps)
    then show ?case using Suc.IH by (auto intro!: agree_rules)
  qed (auto intro!: agree_rules)
  moreover have "agrees K (uring_br_advance U n)" for n
    using kernel_okD(5) [OF k] by (auto simp: agrees_def wlp_def uring_br_advance_def exec_simps)
  ultimately show ?thesis
    unfolding iouring_init_def iouring_alloc_buffers_def iouring_alloc_multishot_buffers_def iouring_alloc_io_op_pool_def
      iouring_alloc_buf_addr_pool_def Let_def
    by (auto intro!: agree_rules agrees_modify agrees_objs [OF c] calls_okD [OF c])
qed

section \<open>The whole program\<close>

text \<open>The start of a process: nothing allocated, nothing in flight.\<close>

definition process_start :: "('k, 't) net_state \<Rightarrow> bool" where
  "process_start s \<longleftrightarrow> fresh_state s \<and> conn_heap s = Map.empty \<and> tun_heap s = Map.empty"

text \<open>Once the loop has ended: the pools are consistent, the connection and the TUN device are still there.\<close>

definition loop_ended :: "ptr \<Rightarrow> ptr \<Rightarrow> ptr \<Rightarrow> int list \<Rightarrow> ('k, 't) net_state \<Rightarrow> bool" where
  "loop_ended ctx conn tun fds s \<longleftrightarrow> live ctx {} s \<and> heap_bounded s \<and> conn \<noteq> NULL \<and> tun \<noteq> NULL \<and> (\<exists>c t.
     conn_heap s conn = Some c \<and> tun_heap s = [tun \<mapsto> t] \<and> open_fds (trace s) = tun_fd t # udp_fd c # fds \<and> 0 \<le> tun_fd t \<and> 0 \<le> udp_fd c)"

lemma edge_end:
  assumes "loop_ended ctx conn tun fds s"
  shows "wp (bnd (iouring_cleanup U ctx) (\<lambda>_.
     bnd (load conn_heap conn) (\<lambda>c.
     bnd (udp_socket_close P (udp_fd c)) (\<lambda>_.
     bnd (tun_device_down P tun) (\<lambda>_.
     bnd (tun_device_destroy P tun) (\<lambda>_. ret (Some 0)))))))
   (\<lambda>res s'. res = Some 0 \<and> tun_heap s' = Map.empty \<and> open_fds (trace s') = fds) s"
proof -
  from assms obtain c t ops bufs where e: "uinv ctx ops bufs s" "heap_bounded s" "conn \<noteq> NULL" "tun \<noteq> NULL"
    "conn_heap s conn = Some c" "tun_heap s = [tun \<mapsto> t]" "open_fds (trace s) = tun_fd t # udp_fd c # fds" "0 \<le> tun_fd t" "0 \<le> udp_fd c"
    by (auto simp: loop_ended_def live_def)
  have "wlp (iouring_cleanup U ctx) (\<lambda>_. same_objs s) s" by (rule objs.keepsD) (rule objs.keeps_start)
  note cl = wp_wlp [OF cleanup_frees [OF e(1,2)] this]
  show ?thesis
  proof (rule wp_bndI [OF cl], goal_cases)
    case (1 _ s1)
    then have s1: "conn_heap s1 conn = Some c" "tun_heap s1 = [tun \<mapsto> t]" "open_fds (trace s1) = tun_fd t # udp_fd c # fds"
      using e more_eqD [of s1 s] by (auto simp: same_objs_def)
    let ?s = "s1\<lparr>kw := sys_close P (udp_fd c) (kw s1), trace := Ev_close (udp_fd c) # trace s1\<rparr>"
    have "wp (bnd (tun_device_down P tun) (\<lambda>_. bnd (tun_device_destroy P tun) (\<lambda>_. ret (Some 0))))
      (\<lambda>res s'. res = Some 0 \<and> tun_heap s' = Map.empty \<and> open_fds (trace s') = fds) ?s"
    proof (rule wp_bndI [OF down_ok], goal_cases)
      case (2 rc s2)
      then obtain t' where "tun_heap s2 tun = Some t'" "tun_fd t' = tun_fd t" using s1 by (auto simp: cfg_post_def)
      moreover have "(tun_heap s2)(tun := None) = Map.empty" using 2 s1 by (auto simp: cfg_post_def fun_eq_iff)
      moreover have "remove1 (tun_fd t) (open_fds (trace s2)) = fds" using 2 s1 by (auto simp: cfg_post_def)
      ultimately show ?case using e by (auto simp: tun_device_destroy_def wp_simps)
    qed (use s1 in simp)
    then show ?case using s1 e by (simp add: udp_socket_close_def wp_simps)
  qed
qed

lemma calls_ok_ring_addrs: "calls_ok P U (\<lambda>k tr. ring_addrs tr)"
proof -
  have "ring_addrs (e # tr) = ring_addrs tr" if "off_ring e" for e tr using that by (cases e) auto
  then show ?thesis by (simp add: calls_ok_def del: ring_addrs_Cons)
qed

text \<open>A program that talks to the system only: the ledger and the kernel's view stay.\<close>

lemma system_step:
  assumes m: "wp m Q s" and q: "\<And>a s'. Q a s' \<Longrightarrow> sys_frame s s'"
    and a: "\<And>K. calls_ok P U K \<Longrightarrow> agrees K m" and K: "calls_ok P U K" "K (kw s) (trace s)" and g: "gi ctx {} s"
  shows "wp m (\<lambda>a s'. Q a s' \<and> gi ctx {} s' \<and> K (kw s') (trace s')) s"
proof -
  have "wlp m (\<lambda>_ s'. ring_addrs (trace s) \<longrightarrow> ring_addrs (trace s')) s"
    using agreesD [OF a [OF calls_ok_ring_addrs], of s] by (auto simp: wlp_def)
  note w = wp_wlp [OF wp_wlp [OF m this] agreesD [OF a [OF K(1)] K(2)]]
  show ?thesis
    by (rule wp_conseq [OF w]) (use q gi_env [OF g] in \<open>auto simp: sys_frame_def\<close>)
qed

text \<open>The loop, and the end of the program after it; \<open>td\<close> is the TUN device, \<open>c\<close> the connection.\<close>

definition edge_finish :: "'k posix \<Rightarrow> 'k liburing \<Rightarrow> ptr \<Rightarrow> ptr \<Rightarrow> ptr \<Rightarrow> int option \<Rightarrow> ('k, 't, int option) net_prog" where
  "edge_finish P U ctx conn tun = (\<lambda>res. case res of None \<Rightarrow> ret None | Some _ \<Rightarrow>
     bnd (iouring_cleanup U ctx) (\<lambda>_.
     bnd (load conn_heap conn) (\<lambda>c.
     bnd (udp_socket_close P (udp_fd c)) (\<lambda>_.
     bnd (tun_device_down P tun) (\<lambda>_.
     bnd (tun_device_destroy P tun) (\<lambda>_. ret (Some 0)))))))"

lemma heap_bounded_mono:
  "heap_bounded s \<Longrightarrow> dom (op_heap s') \<subseteq> dom (op_heap s) \<Longrightarrow> dom (buf_heap s') \<subseteq> dom (buf_heap s) \<Longrightarrow> next_addr s \<le> next_addr s' \<Longrightarrow> heap_bounded s'"
  unfolding heap_bounded_def by (meson Un_iff less_le_trans subset_iff)

lemma kept_facts:
  fixes s s' :: "('k, 't) net_state"
  assumes "kept U ctx s s'" and "kernel_ok U ctx K" and "K (kw s) (trace s)" and "heap_bounded s"
  shows "K (kw s') (trace s')" and "heap_bounded s'" and "conn_heap s' = conn_heap s" and "next_addr s' = next_addr s"
proof -
  show "heap_bounded s'" by (rule heap_bounded_mono [OF assms(4)]) (use assms(1) in \<open>simp_all add: kept_def\<close>)
qed (use assms kept_conn [OF assms(1)] in \<open>auto simp: kept_def kpres_def\<close>)

lemma edge_loop_ok:
  assumes U: "recvmsg_ok U" "kernel_ok U ctx K" and g: "gi ctx {} s" "heap_bounded s" "K (kw s) (trace s)"
    and c: "conn_ok conn s" "conn_heap s conn = Some c" "0 \<le> udp_fd c" and t: "tun_heap s = [tun \<mapsto> td]" "tun \<noteq> NULL" "0 \<le> tun_fd td"
    and o: "open_fds (trace s) = tun_fd td # udp_fd c # fds"
  shows "wp (bnd (tun_udp_run_zero P U w n ctx conn (tun_fd td)) (edge_finish P U ctx conn tun))
    (\<lambda>res s'. res = Some 0 \<longrightarrow> tun_heap s' = Map.empty \<and> open_fds (trace s') = fds) s"
proof -
  have r: "wp (tun_udp_run_zero P U w n ctx conn (tun_fd td)) (\<lambda>res s'. case res of None \<Rightarrow> True
    | Some rc \<Rightarrow> live ctx {} s' \<and> dom (op_heap s') \<subseteq> dom (op_heap s) \<and> dom (buf_heap s') = dom (buf_heap s) \<and> next_addr s' = next_addr s) s"
    unfolding tun_udp_run_zero_def
    by (rule wp_conseq [OF zero.run_ok [OF U]]) (use g c(1) in \<open>auto simp: zero.between_def split: option.splits\<close>)
  show ?thesis
  proof (rule wp_bndI [OF wp_wlp [OF r objs.keepsD [OF objs_zero_loop]]], goal_cases)
    case (1 res s1)
    show ?case
    proof (cases res)
      case (Some rc)
      have "heap_bounded s1" by (rule heap_bounded_mono [OF g(2)]) (use 1 Some in auto)
      moreover obtain c1 where "conn_heap s1 conn = Some c1" "udp_fd c1 = udp_fd c"
        using 1 c(2) by (auto simp: same_objs_def dest!: spec [of _ conn])
      ultimately have "loop_ended ctx conn tun fds s1"
        using 1 Some c t o by (auto simp: loop_ended_def same_objs_def conn_ok_def)
      from edge_end [OF this, of U P] show ?thesis using Some by (auto simp: edge_finish_def elim: wp_conseq)
    qed (simp add: edge_finish_def wp_ret)
  qed
qed

lemma edge_tunnel_ok:
  assumes U: "recvmsg_ok U" "kernel_ok U ctx K" and P: "calls_ok P U K" and g: "gi ctx {} s" "heap_bounded s" "K (kw s) (trace s)"
    and c: "conn_ok conn s" "conn_heap s conn = Some c" "0 \<le> udp_fd c" and o: "open_fds (trace s) = udp_fd c # fds"
    and t: "tun_heap s = Map.empty" "next_addr s \<noteq> NULL"
  shows "wp (edge_tunnel P U ctx conn ifname ip (tun_udp_run_zero P U w n ctx conn) (ret ()))
    (\<lambda>res s'. res = Some 0 \<longrightarrow> tun_heap s' = Map.empty \<and> open_fds (trace s') = fds) s"
proof -
  let ?Q = "\<lambda>res s'. res = Some 0 \<longrightarrow> tun_heap s' = Map.empty \<and> open_fds (trace s') = fds"
  have tun: "wp (new_tun_device P i a m mtu) (\<lambda>tun s'. tun_created s tun s' \<and> gi ctx {} s' \<and> K (kw s') (trace s')) s" for i a m mtu
    by (rule system_step [OF new_tun_device_created _ agrees_tun P g(3,1)]) (use t in \<open>auto simp: tun_created_def\<close>)
  show ?thesis unfolding edge_tunnel_def bnd_ret edge_finish_def [symmetric]
  proof (rule wp_bndI [OF tun], goal_cases)
    case (1 tun s1)
    show ?case
    proof (cases "tun = NULL")
      case False
      with 1 t obtain td where s1: "gi ctx {} s1" "K (kw s1) (trace s1)" "tun_heap s1 = [tun \<mapsto> td]" "0 \<le> tun_fd td" "conn_heap s1 = conn_heap s"
        "open_fds (trace s1) = tun_fd td # udp_fd c # fds" "op_heap s1 = op_heap s" "buf_heap s1 = buf_heap s" "next_addr s1 = Suc (next_addr s)"
        using o by (auto simp: tun_created_def sys_frame_def)
      have b1: "heap_bounded s1" by (rule heap_bounded_mono [OF g(2)]) (simp_all add: s1)
      have "wp (bnd (iouring_initial_tun_reads U ctx (tun_fd td)) (\<lambda>rc.
         if rc \<noteq> 0 then ret (Some rc) else bnd (tun_udp_run_zero P U w n ctx conn (tun_fd td)) (edge_finish P U ctx conn tun))) ?Q s1"
      proof (rule wp_bndI [OF wp_wlp [OF initial_tun_reads_ok [OF s1(1), where U = U] objs.keepsD [OF objs.keeps_initial(2)]]], goal_cases)
        case (1 rc s2)
        show ?case
        proof (cases "rc = 0")
          case True
          have "kept U ctx s1 s2" using 1 by simp
          note kf = kept_facts [OF this U(2) s1(2) b1]
          have s2: "gi ctx {} s2" "conn_heap s2 = conn_heap s" "same_objs s1 s2" using 1 True s1(5) kf(3) by auto
          have "wp (bnd (tun_udp_run_zero P U w n ctx conn (tun_fd td)) (edge_finish P U ctx conn tun)) ?Q s2"
            by (rule edge_loop_ok [OF U s2(1) kf(2,1)]) (use c s1 s2(2,3) False in \<open>auto simp: conn_ok_def same_objs_def\<close>)
          then show ?thesis using True by simp
        qed (simp add: wp_ret)
      qed
      then show ?thesis using False s1(3) by (simp add: wp_load wp_bnd)
    qed (simp add: wp_ret)
  qed
qed

lemma edge_recvs_ok:
  assumes U: "recvmsg_ok U" "kernel_ok U ctx K" and P: "calls_ok P U K" and g: "gi ctx {} s" "heap_bounded s" "K (kw s) (trace s)"
    and c: "conn_ok conn s" "conn_heap s conn = Some c" "0 \<le> udp_fd c" and o: "open_fds (trace s) = udp_fd c # fds"
    and t: "tun_heap s = Map.empty" "next_addr s \<noteq> NULL"
  shows "wp (bnd (iouring_initial_udp_recvs U ctx fd) (\<lambda>rc. if rc \<noteq> 0 then ret (Some (-1)) else
      edge_tunnel P U ctx conn ifname ip (tun_udp_run_zero P U w n ctx conn) (ret ())))
    (\<lambda>res s'. res = Some 0 \<longrightarrow> tun_heap s' = Map.empty \<and> open_fds (trace s') = fds) s" (is "wp _ ?Q s")
proof (rule wp_bndI [OF wp_wlp [OF initial_udp_recvs_ok [OF g(1), where U = U] objs.keepsD [OF objs.keeps_initial(1)]]], goal_cases)
  case (1 rc s1)
  show ?case
  proof (cases "rc = 0")
    case True
    have "kept U ctx s s1" using 1 by simp
    note kf = kept_facts [OF this U(2) g(3,2)]
    have s1: "gi ctx {} s1" using 1 True by simp
    have "wp (edge_tunnel P U ctx conn ifname ip (tun_udp_run_zero P U w n ctx conn) (ret ())) ?Q s1"
      by (rule edge_tunnel_ok [OF U P s1 kf(2,1)]) (use 1 c o t kf(3,4) in \<open>auto simp: conn_ok_def same_objs_def\<close>)
    then show ?thesis using True by simp
  qed (simp add: wp_ret)
qed

lemma connection_first:
  assumes P: "addrinfo_ok P" "calls_ok P U K" and s: "process_start s" "K (kw s) (trace s)"
  shows "wp (create_connection P rl host rport lport) (\<lambda>conn s'. conn_created rl s conn s' \<and> K (kw s') (trace s') \<and> (conn \<noteq> NULL \<longrightarrow> fresh_state s')) s"
proof -
  have n: "next_addr s \<noteq> NULL" "conn_heap s (next_addr s) = None" "fresh_state s" using s(1) by (auto simp: process_start_def fresh_state_def)
  have "wlp (create_connection P rl host rport lport) (\<lambda>_ s'. ring_addrs (trace s')) s"
    by (rule agreesD [OF agrees_connection [OF calls_ok_ring_addrs]]) (use n in \<open>simp add: fresh_state_def\<close>)
  note w = wp_wlp [OF wp_wlp [OF create_connection_created [OF P(1) n(1,2)] this] agreesD [OF agrees_connection [OF P(2)] s(2)]]
  show ?thesis by (rule wp_conseq [OF w]) (use n(3) in \<open>auto simp: conn_created_def fresh_state_def\<close>)
qed

lemma init_second:
  assumes "fresh_state s" and "calls_ok P U K" "kernel_ok U x K" "K (kw s) (trace s)"
  shows "wp (iouring_init P U cf) (\<lambda>ctx s'. (ctx = NULL \<or> gi ctx {} s' \<and> heap_bounded s' \<and> next_addr s' \<noteq> NULL \<and> conn_heap s' = conn_heap s) \<and>
      same_objs s s' \<and> K (kw s') (trace s')) s"
proof -
  note w = wp_wlp [OF wp_wlp [OF iouring_init_ready [OF assms(1) refl refl] objs.keepsD [OF objs.keeps_start(1)]] agreesD [OF agrees_init [OF assms(2,3)] assms(4)]]
  show ?thesis
  proof (rule wp_conseq [OF w], goal_cases)
    case (1 ctx s')
    show ?case
    proof (cases "ctx = NULL")
      case False
      then have r: "buffers_ready ctx cf (Suc (next_addr s)) (nat (n_io_ops cf)) (uring_state.more s) s'" "ctx < Suc (next_addr s)" using 1 by auto
      then have "heap_bounded s'" by (rule ready_bounded)
      moreover have "conn_heap s' = conn_heap s" by (rule more_eqD(1)) (use r in \<open>simp add: buffers_ready_def\<close>)
      ultimately show ?thesis using 1 r by (auto simp: buffers_ready_def gi_def)
    qed (use 1 in blast)
  qed
qed

text \<open>
  C1: Unless its connection cannot be created, \<^verbatim>\<open>edge_zero\<close> never faults from the start of the process to its end, whatever
  the system calls and the kernel answer and however long the loop runs. When it exits with 0 the TUN device is gone and every descriptor it has opened
  is closed.
\<close>

theorem edge_zero_main_safe:
  assumes U: "recvmsg_ok U" "\<And>ctx. kernel_ok U ctx K" and P: "calls_ok P U K" "addrinfo_ok P"
    and s: "process_start s" "K (kw s) (trace s)"
    and a: "parse_role 4 argv = Some rl" "edge_endpoint rl argv = (host, rport, lport, ifname)"
  shows "(\<exists>s1. create_connection P rl host rport lport s = Inr (NULL, s1)) \<or>
    wp (edge_zero_main P U w n argv) (\<lambda>res s'. res = Some 0 \<longrightarrow> tun_heap s' = Map.empty \<and> open_fds (trace s') = open_fds (trace s)) s"
proof -
  let ?Q = "\<lambda>res s'. res = Some 0 \<longrightarrow> tun_heap s' = Map.empty \<and> open_fds (trace s') = open_fds (trace s)"
  from wp_InrD [OF connection_first [OF P(2,1) s], of rl host rport lport]
  obtain conn s1 where e: "create_connection P rl host rport lport s = Inr (conn, s1)"
    and q: "conn_created rl s conn s1" "K (kw s1) (trace s1)" "conn \<noteq> NULL \<longrightarrow> fresh_state s1" by auto
  show ?thesis
  proof (cases "conn = NULL")
    case False
    with q(1) s(1) obtain c where c: "conn_heap s1 conn = Some c" "new_conn rl c" "open_fds (trace s1) = udp_fd c # open_fds (trace s)"
      "tun_heap s1 = Map.empty" by (auto simp: conn_created_def process_start_def)
    have "wp (bnd (iouring_init P U edge_zero_params) (\<lambda>uring.
      bnd (load conn_heap conn) (\<lambda>c.
      if uring = NULL then bnd (udp_socket_close P (udp_fd c)) (\<lambda>_. ret (Some 1)) else
      bnd (iouring_initial_udp_recvs U uring (udp_fd c)) (\<lambda>rc.
      if rc \<noteq> 0 then ret (Some (-1)) else
      edge_tunnel P U uring conn ifname (argv ! 2) (tun_udp_run_zero P U w n uring conn) (ret ()))))) ?Q s1"
    proof (rule wp_bndI [OF init_second [OF _ P(1) U(2) q(2)]], goal_cases)
      case (2 ctx s2)
      then obtain c2 where c2: "conn_heap s2 conn = Some c2" "udp_fd c2 = udp_fd c"
        using c(1) by (auto simp: same_objs_def dest!: spec [of _ conn])
      show ?case
      proof (cases "ctx = NULL")
        case True
        then show ?thesis using c2 False by (simp add: udp_socket_close_def wp_simps)
      next
        case ctx: False
        then have s2: "gi ctx {} s2" "heap_bounded s2" "next_addr s2 \<noteq> NULL" "conn_heap s2 = conn_heap s1" "same_objs s1 s2" "K (kw s2) (trace s2)"
          using 2 by auto
        have "wp (bnd (iouring_initial_udp_recvs U ctx (udp_fd c2)) (\<lambda>rc. if rc \<noteq> 0 then ret (Some (-1)) else
           edge_tunnel P U ctx conn ifname (argv ! 2) (tun_udp_run_zero P U w n ctx conn) (ret ()))) ?Q s2"
          by (rule edge_recvs_ok [OF U P(1) s2(1,2,6)]) (use c s2 False in \<open>auto simp: conn_ok_def new_conn_def same_objs_def\<close>)
        then show ?thesis using ctx c2 False by (simp add: wp_load wp_bnd)
      qed
    qed (use q False in simp)
    then have "wp (edge_zero_main P U w n argv) ?Q s"
      using a e by (simp add: edge_zero_main_def wp_def bnd_def)
    then show ?thesis ..
  qed (use e in blast)
qed

lemma sample_calls_ok: "calls_ok sample_posix sample_uring sample_knows"
proof -
  have "inflight (e # tr) = inflight tr" if "off_ring e" for e tr using that by (cases e) auto
  then show ?thesis by (simp add: calls_ok_def sample_posix_def sample_uring_def sample_knows_def)
qed

theorem edge_zero_main_safe_witness:
  "(\<exists>s1. create_connection sample_posix CONN_ROLE_SERVER None 0 4433 blank_state = Inr (NULL, s1)) \<or>
    wp (edge_zero_main sample_posix sample_uring 5 5 [''edge-zero'', ''server'', ''10.0.0.1'', ''4433''])
      (\<lambda>res s'. res = Some 0 \<longrightarrow> tun_heap s' = Map.empty \<and> open_fds (trace s') = open_fds (trace blank_state)) blank_state"
proof (rule edge_zero_main_safe [OF sample_recvmsg_ok sample_kernel_ok sample_calls_ok])
  show "process_start blank_state" using blank_fresh by (simp add: process_start_def blank_state_def)
  show "edge_endpoint CONN_ROLE_SERVER [''edge-zero'', ''server'', ''10.0.0.1'', ''4433''] = (None, 0, 4433, ''tun1'')"
    by (simp add: edge_endpoint_def sample_port Let_def)
qed (simp_all add: addrinfo_ok_def sample_posix_def SOCKADDR_STORAGE_def sample_knows_def blank_state_def parse_role_def)

end
