(* ===== verification/Relay.thy ===== *)
theory Relay
  imports Edge_Run
begin

text \<open>
  The forwarder as a relay. Its abstract specification is a step relation on logs of plaintext (newest
  event first): each step reads one packet from one of the two SSL objects and writes the same bytes to
  the other. Every run of \<^verbatim>\<open>forwarder_run\<close> extends the log by steps of the relay.
\<close>

section \<open>The abstract relay\<close>

inductive relay :: "ptr \<Rightarrow> ptr \<Rightarrow> event list \<Rightarrow> bool" for a b where
  relay_Nil: "relay a b []"
| relay_step: "relay a b es \<Longrightarrow> (r, w) \<in> {(a, b), (b, a)} \<Longrightarrow> bs \<noteq> [] \<Longrightarrow> relay a b (Ev_ssl_write w bs # Ev_ssl_read r bs # es)"

lemma relay_append: "relay a b es \<Longrightarrow> relay a b es' \<Longrightarrow> relay a b (es @ es')"
  by (induction rule: relay.induct) (auto intro: relay.intros)

lemma relay_one: "(r, w) \<in> {(a, b), (b, a)} \<Longrightarrow> bs \<noteq> [] \<Longrightarrow> relay a b [Ev_ssl_write w bs, Ev_ssl_read r bs]"
  by (intro relay_step relay_Nil)

text \<open>The log of a relay that may have lost the packet it was working on when it stopped.\<close>

definition relay_log :: "ptr \<Rightarrow> ptr \<Rightarrow> bool \<Rightarrow> event list \<Rightarrow> bool" where
  "relay_log a b stopped es \<longleftrightarrow> relay a b es \<or> stopped \<and> (\<exists>r bs es'. es = Ev_ssl_read r bs # es' \<and> r \<in> {a, b} \<and> relay a b es')"

lemma relay_log_append: "relay_log a b st es \<Longrightarrow> relay a b es' \<Longrightarrow> relay_log a b st (es @ es')"
  by (auto simp: relay_log_def intro: relay_append)

section \<open>The forwarder implements it\<close>

text \<open>The forwarder \<open>fw\<close> with the SSL objects \<open>a\<close> (inbound) and \<open>b\<close> (outbound).\<close>

definition relays_between :: "ptr \<Rightarrow> ptr \<Rightarrow> ptr \<Rightarrow> ('k, 't) net_state \<Rightarrow> bool" where
  "relays_between fw a b s \<longleftrightarrow> (\<exists>f ci co. fwd_heap s fw = Some f \<and> conn_heap s (fw_inbound f) = Some ci \<and>
     conn_heap s (fw_outbound f) = Some co \<and> conn_ssl ci = a \<and> conn_ssl co = b)"

lemma relays_between_plain: "relays_between fw a b s \<Longrightarrow> plus_plain es s s' \<Longrightarrow> relays_between fw a b s'"
  by (simp add: relays_between_def plus_plain_def)

text \<open>Since the state \<open>s\<close> the log has grown by \<open>es\<close> with \<open>P es\<close>.\<close>

definition grown :: "(event list \<Rightarrow> bool) \<Rightarrow> ('k, 't) net_state \<Rightarrow> ('k, 't) net_state \<Rightarrow> bool" where
  "grown P s s' \<longleftrightarrow> (\<exists>es. P es \<and> plus_plain es s s')"

lemma grown_plain: "P [] \<Longrightarrow> plus_plain [] s s' \<Longrightarrow> grown P s s'"
  unfolding grown_def by blast

lemma grown_trans:
  assumes "grown P s s'" and "grown Q s' s''" and "\<And>es es'. P es \<Longrightarrow> Q es' \<Longrightarrow> R (es' @ es)"
  shows "grown R s s''"
  using assms plus_plain_trans unfolding grown_def by blast

lemma forward_grown:
  assumes T: "openssl_ok T" "ssl_error_exact T" and b: "relays_between fw a b s" and r: "op_heap s p = Some r"
  shows "wlp (forward_udp_packet T U fw p) (\<lambda>rc s'. (rc = 0 \<or> rc = -1) \<and> grown (relay_log a b (rc < 0)) s s') s"
proof -
  from b obtain f ci co where f: "fwd_heap s fw = Some f" "conn_heap s (fw_inbound f) = Some ci" "conn_heap s (fw_outbound f) = Some co"
    "conn_ssl ci = a" "conn_ssl co = b" by (auto simp: relays_between_def)
  obtain rs fs where io: "(rs, fs) = (if op_fd r = udp_fd ci then (conn_ssl ci, conn_ssl co) else (conn_ssl co, conn_ssl ci))"
    by (metis surj_pair)
  then have ab: "(rs, fs) \<in> {(a, b), (b, a)}" using f by (auto split: if_splits)
  show ?thesis
  proof (rule wlp_conseq [OF forward_plain [OF T r f(1-3) io]], goal_cases)
    case (1 rc s')
    consider "rc = -1" "plus_plain [] s s'" | bs where "rc = -1" "plus_plain [Ev_ssl_read rs bs] s s'"
      | bs where "rc = 0 \<or> rc = -1" "bs \<noteq> []" "plus_plain [Ev_ssl_write fs bs, Ev_ssl_read rs bs] s s'" using 1 by blast
    then show ?case
    proof cases
      case 1
      then show ?thesis by (auto intro: grown_plain simp: relay_log_def relay_Nil)
    next
      case 2
      then show ?thesis using ab unfolding grown_def relay_log_def by (auto intro!: exI [of _ "[Ev_ssl_read rs bs]"] intro: relay_Nil)
    next
      case 3
      then show ?thesis using relay_one [OF ab 3(2)] unfolding grown_def relay_log_def by auto
    qed
  qed
qed

text \<open>What the loop answers: \<open>None\<close> while it runs, -1 when it has stopped.\<close>

lemma forwarder_loop_grown:
  assumes T: "openssl_ok T" "ssl_error_exact T"
  shows "relays_between fw a b s \<Longrightarrow> wlp (forwarder_loop T U w n fw) (\<lambda>res. grown (relay_log a b (res \<noteq> None)) s) s"
proof (induction n arbitrary: s)
  case 0
  then show ?case by (simp add: wlp_prims grown_plain plain.frame_refl relay_log_def relay_Nil)
next
  case (Suc n)
  then obtain f where f: "fwd_heap s fw = Some f" by (auto simp: relays_between_def)
  have quiet: "grown (relay_log a b st) s s'" if "plus_plain [] s s'" for st s'
    by (rule grown_plain [OF _ that]) (simp add: relay_log_def relay_Nil)
  have body: "wlp (bnd (load op_heap p) (\<lambda>r. if op_type r \<noteq> OP_TYPE_UDP_RECV then ret (Some (-1)) else
     bnd (forward_udp_packet T U fw p) (\<lambda>rc. if rc < 0 then ret (Some rc) else
     bnd (io_op_free U (fw_uring f) p) (\<lambda>_. forwarder_loop T U w n fw)))) (\<lambda>res. grown (relay_log a b (res \<noteq> None)) s) s1"
    if s1: "plus_plain [] s s1" for s1 p
  proof (cases "op_heap s1 p")
    case None
    then show ?thesis by (auto simp: wlp_def exec_simps split: if_splits)
  next
    case (Some r)
    have "wlp (bnd (forward_udp_packet T U fw p) (\<lambda>rc. if rc < 0 then ret (Some rc) else
       bnd (io_op_free U (fw_uring f) p) (\<lambda>_. forwarder_loop T U w n fw))) (\<lambda>res. grown (relay_log a b (res \<noteq> None)) s) s1"
    proof (rule wlp_bndI [OF forward_grown [OF T relays_between_plain [OF Suc.prems s1] Some]], goal_cases)
      case (1 rc s2)
      have g: "grown (relay_log a b (rc < 0)) s s2"
        using plus_plain_trans [OF s1] 1 unfolding grown_def by auto
      show ?case
      proof (cases "rc < 0")
        case False
        have "wlp (bnd (io_op_free U (fw_uring f) p) (\<lambda>_. forwarder_loop T U w n fw)) (\<lambda>res. grown (relay_log a b (res \<noteq> None)) s) s2"
        proof (rule plain.keeps_bndI [OF plain.keeps_release], goal_cases)
          case (1 _ s3)
          have g3: "grown (relay a b) s s3" using g False plus_plain_trans [OF _ 1] unfolding grown_def relay_log_def by auto
          then have "relays_between fw a b s3" using relays_between_plain [OF Suc.prems] by (auto simp: grown_def)
          from Suc.IH [OF this] show ?case by (rule wlp_conseq) (auto intro: grown_trans [OF g3] relay_log_append)
        qed
        then show ?thesis using False by simp
      qed (use g in \<open>simp add: wlp_prims\<close>)
    qed
    then show ?thesis using quiet [OF s1] by (intro wlp_loadI [where h = op_heap, OF Some]) (simp add: wlp_prims)
  qed
  show ?case unfolding forwarder_loop.simps
  proof (rule wlp_loadI [where h = fwd_heap, OF f], rule plain.keeps_bndI [OF plain.keeps_wait], goal_cases)
    case (1 got s1)
    then show ?case using body [OF 1] quiet [OF 1] by (auto simp: wlp_prims split: option.split)
  qed
qed

text \<open>
  C2: The forwarder refines the abstract relay. It never faults, and whatever it has read from the SSL object of one side it
  has written, unchanged and before the next read, to that of the other. Only when it has stopped may the last packet be missing.
\<close>

theorem forwarder_relays:
  assumes "recvmsg_ok U" and "kernel_ok U ctx K" and T: "openssl_ok T" "ssl_error_exact T"
    and "gi ctx {} s" and "all_multi s" and "K (kw s) (trace s)" and "fwd_ok fw ctx s" and b: "relays_between fw a b s"
  shows "wp (forwarder_run T U w n fw) (\<lambda>res s'. \<exists>es. plaintext (trace s') = es @ plaintext (trace s) \<and> relay_log a b (res \<noteq> None) es) s"
proof -
  have i: "fwd.between ctx T fw K s" using assms by (simp add: fwd.between_def fwd_inv_def)
  have "wp (forwarder_loop T U w n fw) (\<lambda>res. grown (relay_log a b (res \<noteq> None)) s) s"
    by (rule wp_conseq [OF wp_wlp [OF forwarder_loop_ok [OF assms(1,2) i] forwarder_loop_grown [OF T b]]]) simp
  moreover have "forwarder_run T U w n fw = forwarder_loop T U w n fw" using assms(8) by (simp add: forwarder_run_def fwd_ok_def)
  ultimately show ?thesis by (auto simp: grown_def plus_plain_def elim!: wp_conseq)
qed

theorem forwarder_relays_witness:
  "wp (forwarder_run sample_openssl sample_uring 5 5 12)
    (\<lambda>res s'. \<exists>es. plaintext (trace s') = es @ plaintext (trace sample_state) \<and> relay_log 100 103 (res \<noteq> None) es) sample_state"
  by (rule forwarder_relays [OF sample_recvmsg_ok sample_kernel_ok sample_openssl_ok sample_fwd(1) sample_gi sample_all_multi
      sample_knows_state sample_fwd(8)])
    (simp add: relays_between_def sample_state_def sample_conn_def)

end
