(* ===== verification/Fuel.thy ===== *)
theory Fuel
  imports Relay
begin

text \<open>
  The loops that may wait for ever take fuel. A run that has finished, with a fault or a result, does not
  depend on it: with more fuel the same happens.
\<close>

section \<open>More fuel changes nothing\<close>

text \<open>A run that ended with a fault or with a result; \<open>None\<close> is a run that was still going on.\<close>

definition finished :: "fault + 'a option \<times> 's \<Rightarrow> bool" where
  "finished r \<longleftrightarrow> (\<forall>s. r \<noteq> Inr (None, s))"

lemma finished_simps [simp]: "finished (Inl e)" "finished (Inr (x, s)) \<longleftrightarrow> x \<noteq> None"
  by (simp_all add: finished_def)

definition more_fuel :: "('s, 'a option) prog \<Rightarrow> ('s, 'a option) prog \<Rightarrow> bool" where
  "more_fuel m m' \<longleftrightarrow> (\<forall>s. finished (m s) \<longrightarrow> m' s = m s)"

named_theorems fuel_rules \<open>programs with more fuel\<close>

lemma more_fuel_refl: "more_fuel m m"
  by (simp add: more_fuel_def)

lemma more_fuel_None: "more_fuel (ret None) m"
  by (simp add: more_fuel_def ret_def)

lemma more_fuel_bnd: "(\<And>a. more_fuel (f a) (g a)) \<Longrightarrow> more_fuel (bnd m f) (bnd m g)"
  by (simp add: more_fuel_def bnd_def split: sum.split)

lemma more_fuel_if: "more_fuel m m' \<Longrightarrow> more_fuel n n' \<Longrightarrow> more_fuel (if b then m else n) (if b then m' else n')"
  by simp

lemma more_fuel_prod: "(\<And>a b. more_fuel (f a b) (g a b)) \<Longrightarrow> more_fuel (case_prod f x) (case_prod g x)"
  by (simp split: prod.split)

lemma more_fuel_option:
  "more_fuel m m' \<Longrightarrow> (\<And>a. more_fuel (f a) (g a)) \<Longrightarrow> more_fuel (case x of None \<Rightarrow> m | Some a \<Rightarrow> f a) (case x of None \<Rightarrow> m' | Some a \<Rightarrow> g a)"
  by (simp split: option.split)

text \<open>The result of a loop with more fuel is used.\<close>

lemma more_fuel_result:
  assumes m: "more_fuel m m'" and f: "\<And>a. more_fuel (f a) (g a)"
  shows "more_fuel (bnd m (\<lambda>r. case r of None \<Rightarrow> ret None | Some a \<Rightarrow> f a)) (bnd m' (\<lambda>r. case r of None \<Rightarrow> ret None | Some a \<Rightarrow> g a))"
  unfolding more_fuel_def
proof (intro allI impI)
  fix s
  assume fin: "finished (bnd m (\<lambda>r. case r of None \<Rightarrow> ret None | Some a \<Rightarrow> f a) s)"
  then have "finished (m s)" by (cases "m s") (auto simp: bnd_def ret_def finished_def)
  then have "m' s = m s" using m by (simp add: more_fuel_def)
  then show "bnd m' (\<lambda>r. case r of None \<Rightarrow> ret None | Some a \<Rightarrow> g a) s = bnd m (\<lambda>r. case r of None \<Rightarrow> ret None | Some a \<Rightarrow> f a) s"
    using fin f by (auto simp: bnd_def more_fuel_def split: sum.split option.split)
qed

lemmas fuel_steps = more_fuel_refl more_fuel_None more_fuel_if more_fuel_prod more_fuel_option more_fuel_bnd

lemma wait_fuel: "w \<le> w' \<Longrightarrow> more_fuel (wait_for_recv U w ctx) (wait_for_recv U w' ctx)"
proof (induction w arbitrary: w')
  case (Suc w)
  then obtain v where v: "w' = Suc v" "w \<le> v" by (cases w') auto
  show ?case unfolding v(1) wait_for_recv.simps
    by (intro more_fuel_bnd more_fuel_prod more_fuel_if more_fuel_option Suc.IH v(2) more_fuel_refl)
qed (simp add: more_fuel_None)

lemma event_loop_fuel:
  "w \<le> w' \<Longrightarrow> n \<le> n' \<Longrightarrow> more_fuel (event_loop P U w n ctx h op rc) (event_loop P U w' n' ctx h op rc)"
proof (induction n arbitrary: n' op rc)
  case (Suc n)
  then obtain v where v: "n' = Suc v" "n \<le> v" by (cases n') auto
  show ?case unfolding v(1) event_loop.simps
    by (intro more_fuel_result wait_fuel Suc.prems(1) more_fuel_if more_fuel_refl | rule Suc.IH [OF Suc.prems(1) v(2)] | rule more_fuel_bnd)+
qed (simp add: more_fuel_None)

lemma handshake_loop_fuel:
  "w \<le> w' \<Longrightarrow> n \<le> n' \<Longrightarrow> more_fuel (handshake_loop T U w n ctx conn) (handshake_loop T U w' n' ctx conn)"
proof (induction n arbitrary: n')
  case (Suc n)
  then obtain v where v: "n' = Suc v" "n \<le> v" by (cases n') auto
  show ?case unfolding v(1) handshake_loop.simps
    by (intro more_fuel_result wait_fuel Suc.prems(1) more_fuel_if more_fuel_refl | rule Suc.IH [OF Suc.prems(1) v(2)] | rule more_fuel_bnd)+
qed (simp add: more_fuel_None)

lemma forwarder_loop_fuel:
  "w \<le> w' \<Longrightarrow> n \<le> n' \<Longrightarrow> more_fuel (forwarder_loop T U w n fw) (forwarder_loop T U w' n' fw)"
proof (induction n arbitrary: n')
  case (Suc n)
  then obtain v where v: "n' = Suc v" "n \<le> v" by (cases n') auto
  show ?case unfolding v(1) forwarder_loop.simps
    by (intro more_fuel_result wait_fuel Suc.prems(1) more_fuel_if more_fuel_refl | rule Suc.IH [OF Suc.prems(1) v(2)] | rule more_fuel_bnd)+
qed (simp add: more_fuel_None)

lemmas loops_fuel = event_loop_fuel handshake_loop_fuel forwarder_loop_fuel

lemma run_fuel:
  assumes "w \<le> w'" and "n \<le> n'"
  shows "more_fuel (do_dtls_handshake T U w n ctx conn) (do_dtls_handshake T U w' n' ctx conn)"
    and "more_fuel (tun_udp_run P T U w n ctx conn tunfd) (tun_udp_run P T U w' n' ctx conn tunfd)"
    and "more_fuel (tun_udp_run_zero P U w n ctx conn tunfd) (tun_udp_run_zero P U w' n' ctx conn tunfd)"
    and "more_fuel (forwarder_run T U w n fw) (forwarder_run T U w' n' fw)"
  unfolding do_dtls_handshake_def tun_udp_run_def tun_udp_run_zero_def run_events_def forwarder_run_def
  by (intro more_fuel_if more_fuel_refl more_fuel_result loops_fuel assms | rule more_fuel_bnd more_fuel_prod)+

lemma tunnel_fuel:
  "(\<And>fd. more_fuel (run fd) (run' fd)) \<Longrightarrow> more_fuel (edge_tunnel P U ctx conn i a run cl) (edge_tunnel P U ctx conn i a run' cl)"
  unfolding edge_tunnel_def by (intro more_fuel_if more_fuel_refl more_fuel_result | rule more_fuel_bnd | assumption)+

lemma mains_fuel:
  assumes "w \<le> w'" and "n \<le> n'"
  shows "more_fuel (edge_main P T U w n argv) (edge_main P T U w' n' argv)"
    and "more_fuel (edge_zero_main P U w n argv) (edge_zero_main P U w' n' argv)"
    and "more_fuel (forwarder_main P T U w n argv) (forwarder_main P T U w' n' argv)"
  unfolding edge_main_def edge_zero_main_def forwarder_main_def forwarder_serve_def Let_def
  by (intro more_fuel_if more_fuel_refl more_fuel_result more_fuel_option more_fuel_prod tunnel_fuel run_fuel assms | rule more_fuel_bnd)+

end
