(* ===== verification/Halting.thy ===== *)
theory Halting
  imports Fuel
begin

text \<open>
  Termination. Every round of every loop takes an event from the kernel: when the kernel has only finitely
  many completions and timeouts to deliver, the programs come to an end, and one unit of fuel per event is enough.
\<close>

section \<open>Frames of whole programs\<close>


section \<open>A kernel with finitely many events\<close>

text \<open>
  \<open>ev\<close> bounds the events that are still to come: no call increases it, and every completion or timeout that a wait
  delivers decreases it. Once it is used up a wait can only fail.
\<close>

definition finite_supply :: "'k posix \<Rightarrow> 'k liburing \<Rightarrow> ('k \<Rightarrow> nat) \<Rightarrow> bool" where
  "finite_supply P U ev \<longleftrightarrow> (\<forall>g k. call P U g \<longrightarrow> ev (g k) \<le> ev k) \<and>
     (\<forall>k rc c k'. wait_cqe_timeout U k = ((rc, c), k') \<and> (0 \<le> rc \<or> rc = -ETIME) \<longrightarrow> ev k' < ev k)"









section \<open>The programs come to an end\<close>

text \<open>\<open>m\<close> gives a result when at most \<open>B\<close> events are to come.\<close>

definition returns :: "'k posix \<Rightarrow> 'k liburing \<Rightarrow> ('k \<Rightarrow> nat) \<Rightarrow> nat \<Rightarrow> ('k, 't, 'a option) net_prog \<Rightarrow> bool" where
  "returns P U ev B m \<longleftrightarrow> finite_supply P U ev \<longrightarrow> (\<forall>s. ev (kw s) < B \<longrightarrow> wlp m (\<lambda>res _. res \<noteq> None) s)"

named_theorems return_rules \<open>programs that give a result\<close>

lemma returns_ret [return_rules]: "returns P U ev B (ret (Some a))"
  by (simp add: returns_def wlp_prims)

lemma returns_if [return_rules]: "returns P U ev B m \<Longrightarrow> returns P U ev B n \<Longrightarrow> returns P U ev B (if b then m else n)"
  by simp

lemma returns_option [return_rules]:
  "returns P U ev B m \<Longrightarrow> (\<And>a. returns P U ev B (g a)) \<Longrightarrow> returns P U ev B (case x of None \<Rightarrow> m | Some a \<Rightarrow> g a)"
  by (simp split: option.split)

lemma returns_prod [return_rules]: "(\<And>a b. returns P U ev B (g a b)) \<Longrightarrow> returns P U ev B (case_prod g x)"
  by (simp split: prod.split)
















end
