(* ===== verification/Start_Up.thy ===== *)
theory Start_Up
  imports Halting
begin

text \<open>
  The start of the two programs that use DTLS. The result of \<^verbatim>\<open>init_dtls_connection\<close> is tested with the
  wrong sign in both: where OpenSSL works and memory suffices, neither ever gets beyond its set-up, for any command line.
\<close>

text \<open>Every allocation and every call of the DTLS set-up succeeds.\<close>

definition tls_works :: "'k posix \<Rightarrow> 't openssl \<Rightarrow> bool" where
  "tls_works P T \<longleftrightarrow> (\<forall>k. fst (calloc_ok P k)) \<and> (\<forall>b t. fst (ssl_ctx_new T b t) \<noteq> NULL) \<and>
     (\<forall>p f t. fst (ssl_ctx_use_certificate_file T p f t) = 1) \<and> (\<forall>p f t. fst (ssl_ctx_use_private_key_file T p f t) = 1) \<and>
     (\<forall>p t. fst (ssl_ctx_check_private_key T p t) = 1) \<and> (\<forall>p c t. fst (ssl_ctx_set_cipher_list T p c t) = 1) \<and>
     (\<forall>p f t. fst (ssl_ctx_load_verify_locations T p f t) = 1) \<and> (\<forall>p t. fst (ssl_new T p t) \<noteq> NULL) \<and> (\<forall>t. fst (bio_new T t) \<noteq> NULL)"

lemma call_result: "(\<And>k. fst (g k) = a) \<Longrightarrow> g k = (r, k') \<Longrightarrow> r = a"
  by (metis fst_conv)

lemma tls_works_calls:
  assumes "tls_works P T"
  shows "calloc_ok P k = (ok, k') \<Longrightarrow> ok" "ssl_ctx_new T b t = (p, t') \<Longrightarrow> p \<noteq> NULL" "ssl_new T q t = (p, t') \<Longrightarrow> p \<noteq> NULL" "bio_new T t = (p, t') \<Longrightarrow> p \<noteq> NULL"
    "ssl_ctx_use_certificate_file T q f t = (rc, t') \<Longrightarrow> rc = 1" "ssl_ctx_use_private_key_file T q f t = (rc, t') \<Longrightarrow> rc = 1"
    "ssl_ctx_check_private_key T q t = (rc, t') \<Longrightarrow> rc = 1" "ssl_ctx_set_cipher_list T q f t = (rc, t') \<Longrightarrow> rc = 1"
    "ssl_ctx_load_verify_locations T q f t = (rc, t') \<Longrightarrow> rc = 1"
  using assms unfolding tls_works_def by (metis fst_conv)+

lemma contexts_work:
  assumes T: "tls_works P T" and n: "next_addr s \<noteq> NULL"
  shows "wp (dtls_client_context_init P T ca) (\<lambda>d s'. d \<noteq> NULL \<and> (\<exists>x. dtls_heap s' d = Some x \<and> dc_ctx x \<noteq> NULL) \<and> conn_heap s' = conn_heap s \<and> fwd_heap s' = fwd_heap s) s"
    and "wp (dtls_server_context_init P T (Some cert) (Some key)) (\<lambda>d s'. d \<noteq> NULL \<and> (\<exists>x. dtls_heap s' d = Some x \<and> dc_ctx x \<noteq> NULL) \<and> conn_heap s' = conn_heap s \<and> fwd_heap s' = fwd_heap s) s"
  using n by (auto simp: dtls_client_context_init_def dtls_server_context_init_def calloc_dtls_def Let_def wp_simps
    split: prod.splits option.splits dest!: tls_works_calls [OF T])

lemma init_dtls_works:
  assumes T: "tls_works P T" and n: "next_addr s \<noteq> NULL" and c: "conn \<noteq> NULL" "conn_heap s conn = Some c"
    and k: "role c = CONN_ROLE_SERVER \<Longrightarrow> cert \<noteq> None \<and> key \<noteq> None"
  shows "wp (init_dtls_connection P T conn cert key ca) (\<lambda>rc s'. rc = 0 \<and> fwd_heap s' = fwd_heap s) s"
proof -
  have "wp (if role c = CONN_ROLE_CLIENT then dtls_client_context_init P T ca else dtls_server_context_init P T cert key)
    (\<lambda>d s'. d \<noteq> NULL \<and> (\<exists>x. dtls_heap s' d = Some x \<and> dc_ctx x \<noteq> NULL) \<and> conn_heap s' = conn_heap s \<and> fwd_heap s' = fwd_heap s) s"
    using contexts_work [OF T n] k by (cases "role c") auto
  then show ?thesis unfolding init_dtls_connection_def
    by (intro wp_loadI [where h = conn_heap, OF c(2,1)], elim wp_bndI)
      (auto simp: c dtls_create_ssl_def dtls_setup_bio_pair_def wp_simps split: prod.splits dest!: tls_works_calls [OF T])
qed

lemma edge_gives_up:
  assumes T: "tls_works P T" "addrinfo_ok P" and s: "process_start s"
  shows "wp (edge_main P T U w n argv) (\<lambda>res _. res = Some 1 \<or> res = Some (-1)) s"
proof (cases "parse_role 6 argv")
  case None
  then show ?thesis by (simp add: edge_main_def wp_ret)
next
  case (Some rl)
  obtain host rport lport ifname where e: "edge_endpoint rl argv = (host, rport, lport, ifname)" by (metis prod.exhaust)
  have st: "next_addr s \<noteq> NULL" "conn_heap s (next_addr s) = None" using s by (auto simp: process_start_def fresh_state_def)
  have "wp (bnd (create_connection P rl host rport lport) (\<lambda>conn. if conn = NULL then ret (Some (-1)) else
     bnd (init_dtls_connection P T conn cert key None) (\<lambda>rc. if c_not rc \<noteq> 0 then ret (Some (-1)) else m conn))) (\<lambda>res _. res = Some 1 \<or> res = Some (-1)) s"
    if k: "rl = CONN_ROLE_SERVER \<Longrightarrow> cert \<noteq> None \<and> key \<noteq> None" for cert key m
  proof (rule wp_bndI [OF create_connection_created [OF T(2) st]], goal_cases)
    case (1 conn s1)
    show ?case
    proof (cases "conn = NULL")
      case False
      with 1 obtain c where c: "next_addr s1 \<noteq> NULL" "conn_heap s1 conn = Some c" "role c = rl"
        by (auto simp: conn_created_def new_conn_def)
      have "wp (init_dtls_connection P T conn cert key None) (\<lambda>rc s'. rc = 0 \<and> fwd_heap s' = fwd_heap s1) s1"
        by (rule init_dtls_works [OF T(1) c(1) False c(2)]) (use k c(3) in simp)
      then show ?thesis using False by (simp add: wp_bnd c_not_def wp_ret wp_conseq)
    qed (simp add: wp_ret)
  qed
  from this [of "Some (argv ! 4)" "Some (argv ! 5)"] this [of None None] show ?thesis
    using Some e by (cases rl) (simp_all add: edge_main_def)
qed

lemma forwarder_create_gives_up:
  assumes T: "tls_works P T" "addrinfo_ok P" and s: "process_start s"
  shows "wp (forwarder_create P T U host rport iport oport (cert :: string) key ca) (\<lambda>fw _. fw = NULL) s"
  unfolding forwarder_create_def
proof (rule wp_bndI [where R = "\<lambda>fw s'. fw \<noteq> NULL \<and> fresh_state s' \<and> conn_heap s' = Map.empty \<and> fwd_heap s' fw \<noteq> None"], goal_cases)
  case 1
  show ?case using s by (auto simp: calloc_fwd_def wp_simps process_start_def fresh_state_def split: prod.splits dest!: tls_works_calls [OF T(1)])
next
  case (2 fw s1)
  then have s1: "fw \<noteq> NULL" "fresh_state s1" "conn_heap s1 = Map.empty" "fwd_heap s1 fw \<noteq> None" by auto
  have gone: "wp (bnd (free_fwd fw) (\<lambda>_. ret NULL)) (\<lambda>fw _. fw = NULL) s'" if "fwd_heap s' fw \<noteq> None" for s' :: "('a, 'b) net_state"
    using that s1(1) by (auto simp: free_fwd_def wp_simps)
  note init = wp_wlp [OF iouring_init_ready [OF s1(2) refl refl] plain.keepsD [OF plain.keeps_start(1)]]
  have "wp (bnd (iouring_init P U forwarder_params) (\<lambda>uring. bnd (upd_fwd fw (\<lambda>f. f\<lparr>fw_uring := uring\<rparr>)) (\<lambda>_.
     if uring = NULL then bnd (free_fwd fw) (\<lambda>_. ret NULL) else
     bnd (create_connection P CONN_ROLE_SERVER None 0 iport) (\<lambda>inbound.
     bnd (upd_fwd fw (\<lambda>f. f\<lparr>fw_inbound := inbound\<rparr>)) (\<lambda>_.
     if inbound = NULL then bnd (free_fwd fw) (\<lambda>_. ret NULL) else
     bnd (init_dtls_connection P T inbound (Some cert) (Some key) None) (\<lambda>rc.
     if c_not rc \<noteq> 0 then bnd (free_fwd fw) (\<lambda>_. ret NULL) else m rc inbound)))))) (\<lambda>fw _. fw = NULL) s1" for m
  proof (rule wp_bndI [OF init], goal_cases)
    case (1 u s2)
    then have s2: "conn_heap s2 = Map.empty" "fwd_heap s2 fw \<noteq> None" "u \<noteq> NULL \<Longrightarrow> next_addr s2 \<noteq> NULL"
      using s1 by (auto simp: plus_plain_def buffers_ready_def)
    let ?s = "\<lambda>f. s2\<lparr>fwd_heap := (fwd_heap s2)(fw \<mapsto> f)\<rparr>"
    have "wp (bnd (create_connection P CONN_ROLE_SERVER None 0 iport) (\<lambda>inbound.
     bnd (upd_fwd fw (\<lambda>f. f\<lparr>fw_inbound := inbound\<rparr>)) (\<lambda>_.
     if inbound = NULL then bnd (free_fwd fw) (\<lambda>_. ret NULL) else
     bnd (init_dtls_connection P T inbound (Some cert) (Some key) None) (\<lambda>rc.
     if c_not rc \<noteq> 0 then bnd (free_fwd fw) (\<lambda>_. ret NULL) else m rc inbound)))) (\<lambda>fw _. fw = NULL) (?s f)" if u: "u \<noteq> NULL" for f
    proof (rule wp_bndI [OF create_connection_created [OF T(2)]], goal_cases)
      case (3 inb s3)
      then have s3: "fwd_heap s3 fw = Some f" by (simp add: conn_created_def)
      let ?s3 = "s3\<lparr>fwd_heap := (fwd_heap s3)(fw \<mapsto> f\<lparr>fw_inbound := inb\<rparr>)\<rparr>"
      have "wp (bnd (init_dtls_connection P T inb (Some cert) (Some key) None) (\<lambda>rc.
         if c_not rc \<noteq> 0 then bnd (free_fwd fw) (\<lambda>_. ret NULL) else m rc inb)) (\<lambda>fw _. fw = NULL) ?s3" if inb: "inb \<noteq> NULL"
      proof -
        from 3 inb obtain c where c: "next_addr ?s3 \<noteq> NULL" "conn_heap ?s3 inb = Some c" by (auto simp: conn_created_def)
        show ?thesis
          by (rule wp_bndI [OF init_dtls_works [OF T(1) c(1) inb c(2)]]) (auto simp: c_not_def intro!: gone)
      qed
      then show ?case using s1(1) s3 gone [of ?s3] by (cases "inb = NULL") (simp_all add: upd_fwd_def wp_load wp_bnd wp_modify)
    qed (use s2 u in simp_all)
    then show ?case using s1(1) s2(2) gone by (auto simp: upd_fwd_def wp_load wp_bnd wp_modify)
  qed
  then show ?case using s1(1) by simp
qed

text \<open>
  C11: Where memory suffices and the calls into OpenSSL succeed, neither program with DTLS ever starts, whatever its arguments and whatever the kernel does: both
  exit with an error during their set-up.
\<close>

theorem dtls_programs_never_start:
  assumes T: "tls_works P T" "addrinfo_ok P" and s: "process_start s"
  shows "\<forall>argv. wp (edge_main P T U w n argv) (\<lambda>res _. res = Some 1 \<or> res = Some (-1)) s \<and>
    wp (forwarder_main P T U w n argv) (\<lambda>res _. res = Some 1) s"
proof (intro allI conjI edge_gives_up [OF T s])
  fix argv
  show "wp (forwarder_main P T U w n argv) (\<lambda>res _. res = Some 1) s"
    unfolding forwarder_main_def by (auto simp: wp_ret intro!: wp_bndI [OF forwarder_create_gives_up [OF T s]])
qed

theorem dtls_programs_never_start_witness:
  "\<forall>argv. wp (edge_main sample_posix sample_openssl sample_uring 5 5 argv) (\<lambda>res _. res = Some 1 \<or> res = Some (-1)) blank_state \<and>
    wp (forwarder_main sample_posix sample_openssl sample_uring 5 5 argv) (\<lambda>res _. res = Some 1) blank_state"
proof (rule dtls_programs_never_start)
  show "tls_works sample_posix sample_openssl" by (simp add: tls_works_def sample_posix_def sample_openssl_def)
  show "addrinfo_ok sample_posix" by (simp add: addrinfo_ok_def sample_posix_def SOCKADDR_STORAGE_def)
  show "process_start blank_state" using blank_fresh by (simp add: process_start_def blank_state_def)
qed

end
