(* ===== verification/Handshake.thy ===== *)
theory Handshake
  imports Relay
begin

text \<open>
  The DTLS handshake of \<^verbatim>\<open>connection.c\<close> keeps the ledger. Three of its assertions can fail while the program runs (no
  operation is left, OpenSSL has pending bytes and delivers none, a completed TUN read arrives); nothing else goes wrong.
\<close>

section \<open>Programs that fail at most by an assertion\<close>

definition wpa :: "('s, 'a) prog \<Rightarrow> ('a \<Rightarrow> 's \<Rightarrow> bool) \<Rightarrow> 's \<Rightarrow> bool" where
  "wpa m Q s \<longleftrightarrow> (case m s of Inl e \<Rightarrow> e = Assert_failed | Inr (a, s') \<Rightarrow> Q a s')"

lemma wp_wpa: "wp m Q s \<Longrightarrow> wpa m Q s"
  by (auto simp: wp_def wpa_def split: sum.splits)

lemma wpa_bndI: "wpa m R s \<Longrightarrow> (\<And>a s'. R a s' \<Longrightarrow> wpa (f a) Q s') \<Longrightarrow> wpa (bnd m f) Q s"
  by (fastforce simp: wpa_def bnd_def split: sum.splits)

lemmas wp_bnd_wpa = wp_wpa [THEN wpa_bndI]

lemma wpa_loadI: "h s p = Some v \<Longrightarrow> p \<noteq> NULL \<Longrightarrow> wpa (f v) Q s \<Longrightarrow> wpa (bnd (load h p) f) Q s"
  by (simp add: wpa_def bnd_def load_def)

lemma wpa_assertI: "(b \<Longrightarrow> wpa (f ()) Q s) \<Longrightarrow> wpa (bnd (c_assert b) f) Q s"
  by (simp add: wpa_def c_assert_def bnd_def ret_def throwf_def)

lemma wpa_ret: "wpa (ret a) Q s = Q a s"
  by (simp add: wpa_def ret_def)

lemma wpa_conseq: "wpa m Q s \<Longrightarrow> (\<And>a s'. Q a s' \<Longrightarrow> R a s') \<Longrightarrow> wpa m R s"
  by (auto simp: wpa_def split: sum.splits)

lemma wpa_wlp: "wpa m Q s \<Longrightarrow> wlp m R s \<Longrightarrow> wpa m (\<lambda>a s'. Q a s' \<and> R a s') s"
  by (auto simp: wpa_def wlp_def split: sum.splits)

section \<open>What holds between two steps of the handshake\<close>

text \<open>
  The connection has its SSL object and socket \<open>f\<close>, and every UDP receive is a multishot receive on that
  socket. So no datagram is dropped: that path would not release the operation.
\<close>

definition conn_on :: "ptr \<Rightarrow> int \<Rightarrow> ('k, 't) net_state \<Rightarrow> bool" where
  "conn_on conn f s \<longleftrightarrow> conn_tls conn s \<and> (\<exists>c. conn_heap s conn = Some c \<and> udp_fd c = f)"

definition shaking :: "ptr \<Rightarrow> ptr \<Rightarrow> int \<Rightarrow> ('k \<Rightarrow> event list \<Rightarrow> bool) \<Rightarrow> ('k, 't) net_state \<Rightarrow> bool" where
  "shaking ctx conn f K s \<longleftrightarrow> gi ctx {} s \<and> conn_on conn f s \<and> all_recv {f} s \<and> K (kw s) (trace s)"

lemma conn_on_heap: "conn_heap s' = conn_heap s \<Longrightarrow> conn_on conn f s' = conn_on conn f s"
  by (simp add: conn_on_def conn_tls_def conn_ok_def)

lemma kpres_kernel: "kpres U ctx s s' \<Longrightarrow> kernel_ok U ctx K \<Longrightarrow> K (kw s) (trace s) \<Longrightarrow> K (kw s') (trace s')"
  unfolding kpres_def by blast

lemma stable_handshake [stable_rules]: "stable_on F (handshake_send T U ctx conn)" "stable_on F (handshake_recv T U ctx conn p)"
  unfolding handshake_send_def handshake_recv_def set_peer_def BIO_pending_def upd_conn_def
  by (auto intro!: stable_rules stable_alloc simp: op_type_defs stable_on_def [of F "modify g" for g] all_recv_def exec_simps)

lemma handshake_send_ok:
  fixes s :: "('k, 't) net_state"
  assumes T: "openssl_ok T" and K: "kernel_ok U ctx K" and h: "shaking ctx conn f K s"
  shows "wpa (handshake_send T U ctx conn) (\<lambda>rc s'. (rc = 0 \<and> shaking ctx conn f K s' \<or> rc = -1 \<and> live ctx {} s') \<and> conn_heap s' = conn_heap s) s"
proof -
  from h obtain c where c: "conn \<noteq> NULL" "conn_heap s conn = Some c" "length (conn_addr c) = SOCKADDR_STORAGE" "conn_addr_len c \<le> SOCKADDR_STORAGE"
    by (auto simp: shaking_def conn_on_def conn_tls_def conn_ok_def)
  let ?Q = "\<lambda>rc s'. (rc = (0 :: int) \<and> gi ctx {} s' \<or> rc = -1 \<and> live ctx {} s') \<and> kpres U ctx s s' \<and> conn_heap s' = conn_heap s"
  have send: "wpa (bnd (BIO_read T (wbio c) (int BUF_SIZE)) (\<lambda>(n, buffer). bnd (c_assert (0 < n)) (\<lambda>_.
     bnd (io_op_alloc ctx OP_TYPE_UDP_SEND (udp_fd c) False) (\<lambda>new_op. bnd (c_assert (new_op \<noteq> NULL)) (\<lambda>_.
     bnd (iouring_submit_udp_send U ctx new_op (Some (conn_addr c)) (conn_addr_len c) (Some buffer) n) (\<lambda>rc.
     if rc < 0 then ret (-1) else ret 0)))))) ?Q s"
  proof (rule wp_bnd_wpa [OF BIO_read_ok [OF T]], goal_cases)
    case (1 x s1)
    obtain n d where x: "x = (n, d)" by fastforce
    have t: "tls_step s s1" using 1 by simp
    have g1: "gi ctx {} s1" by (rule gi_env [of ctx "{}" s]) (use h t in \<open>simp_all add: shaking_def tls_stepD\<close>)
    show ?case unfolding x prod.case
    proof (rule wpa_assertI, rule wp_bnd_wpa [OF g_alloc [OF g1, where U = U]], rule wpa_assertI, goal_cases)
      case (1 p s2)
      then have l: "length d = nat n" using \<open>tls_step s s1 \<and> _\<close> x by (auto simp: read_result_def)
      from 1 obtain b where b: "b \<noteq> NULL" "op_heap s2 p = Some (new_op OP_TYPE_UDP_SEND (udp_fd c) b)" and k: "kept U ctx s1 s2"
        and p: "p \<notin> set (outstanding (trace s2))" "gi ctx (insert p {}) s2" by (auto simp: allocated_def)
      have "wp (iouring_submit_udp_send U ctx p (Some (conn_addr c)) (conn_addr_len c) (Some d) n) (sent U ctx {} p s2) s2"
        by (rule sent_udp_send [OF p(2) _ p(1) b(2)]) (use b l c in \<open>auto simp: new_op_def in_place_def\<close>)
      then show ?case
      proof (rule wp_bnd_wpa, goal_cases)
        case (1 rc s3)
        then have k3: "kept U ctx s2 s3" by (simp add: sent_def)
        have "kpres U ctx s1 s2" "kpres U ctx s2 s3" using k k3 by (simp_all add: kept_def)
        then have "kpres U ctx s s3" by (rule kpres_trans [OF tls_stepD(1) [OF t] kpres_trans])
        moreover have "conn_heap s3 = conn_heap s" using kept_conn [OF k] kept_conn [OF k3] tls_stepD(9) [OF t] by simp
        ultimately show ?case using 1 by (auto simp: sent_def wpa_ret elim: live_mono)
      qed
    qed
  qed
  have "wpa (handshake_send T U ctx conn) ?Q s" unfolding handshake_send_def
    by (rule wpa_loadI [where h = conn_heap, OF c(2,1)], rule wp_bnd_wpa [where R = "\<lambda>_ s'. s' = s"])
      (use send h in \<open>auto simp: wp_bio_pending wpa_ret shaking_def kpres_refl\<close>)
  from wpa_wlp [OF this stableD [OF stable_handshake(1) [where F = "{f}"]]] show ?thesis
  proof (rule wpa_conseq, goal_cases)
    case (1 _ s')
    have "K (kw s') (trace s')" by (rule kpres_kernel [of U ctx s, OF _ K]) (use 1 h in \<open>simp_all add: shaking_def\<close>)
    then show ?case using 1 h conn_on_heap [of s' s] by (auto simp: shaking_def)
  qed
qed

text \<open>The first packet sets the address of the peer and nothing else.\<close>

lemma set_peer_conn:
  fixes s :: "('k, 't) net_state"
  assumes c: "conn_heap s conn = Some c"
  shows "wlp (set_peer conn r) (\<lambda>_ s'. \<exists>c'. conn_heap s' conn = Some c' \<and> conn_ssl c' = conn_ssl c \<and> udp_fd c' = udp_fd c) s"
  unfolding set_peer_def
proof (rule plain.keeps_bndI [OF plain.keeps_prims(3)], rule plain.keeps_bndI [OF plain.keeps_memory(1)], goal_cases)
  case (1 _ s1 adr s2)
  then have c2: "conn_heap s2 conn = Some c" using c by (simp add: plus_plain_def)
  let ?Q = "\<lambda>_ s'. \<exists>c'. conn_heap s' conn = Some c' \<and> conn_ssl c' = conn_ssl c \<and> udp_fd c' = udp_fd c"
  let ?c = "c\<lparr>conn_addr := overwrite 0 adr (conn_addr c), conn_addr_len := op_addr_len r\<rparr>"
  have "wlp (upd_conn conn (\<lambda>c. c\<lparr>conn_addr := overwrite 0 adr (conn_addr c), conn_addr_len := op_addr_len r\<rparr>))
    (\<lambda>_ s'. conn_heap s' conn = Some ?c) s2"
    using c2 by (cases "conn = NULL") (simp_all add: upd_conn_def wlp_def exec_simps)
  then have "wlp (bnd (upd_conn conn (\<lambda>c. c\<lparr>conn_addr := overwrite 0 adr (conn_addr c), conn_addr_len := op_addr_len r\<rparr>)) (\<lambda>_.
     bnd (load conn_heap conn) (\<lambda>c. bnd (addr_to_string (\<lambda>_. []) (conn_addr c)) (\<lambda>_. ret ())))) ?Q s2"
  proof (rule wlp_bndI, goal_cases)
    case (1 _ s3)
    have "plain.keeps (bnd (load conn_heap conn) (\<lambda>c. bnd (addr_to_string (\<lambda>_. []) (conn_addr c)) (\<lambda>_. ret ())))"
      by (intro frame_rules)
    from plain.keepsD [OF this, of s3] show ?case
      by (rule wlp_conseq) (use 1 in \<open>simp add: plus_plain_def\<close>)
  qed
  then show ?case by (simp add: wlp_prims)
qed

lemma handshake_recv_ok:
  fixes s :: "('k, 't) net_state"
  assumes K: "kernel_ok U ctx K" and rc: "received ctx p s" and c: "conn_on conn f s" and m: "all_recv {f} s" and k: "K (kw s) (trace s)"
  shows "wpa (handshake_recv T U ctx conn p) (\<lambda>_. shaking ctx conn f K) s"
proof -
  from rc obtain r where r: "op_heap s p = Some r" by (auto simp: received_def)
  from c obtain d where d: "conn \<noteq> NULL" "conn_heap s conn = Some d" "udp_fd d = f" "conn_ssl d \<noteq> NULL" "conn_ok conn s"
    by (auto simp: conn_on_def conn_tls_def conn_ok_def)
  let ?Q = "\<lambda>_ s'. gi ctx {} s' \<and> conn_on conn f s' \<and> kpres U ctx s s'"
  have rest: "wpa (bnd (load_bytes (op_buffer r) (nat (data_len r))) (\<lambda>data. bnd (BIO_write T (rbio d) data (data_len r)) (\<lambda>_.
     bnd (io_op_free U ctx p) (\<lambda>_. ret ())))) ?Q s1"
    if s1: "received ctx p s1" "op_heap s1 p = Some r" "conn_on conn f s1" "kpres U ctx s s1" for s1
    using s1(1,2)
  proof (rule receivedE, goal_cases)
    case (1 ops bufs)
    have v: "valid_mem ctx s1 (op_buffer r) (nat (data_len r))"
      using 1(2) by (cases "op_buffer r"; cases "ctx_heap s1 ctx") (auto simp: packet_ok_def valid_mem_def)
    show ?case
    proof (rule wp_bnd_wpa [OF load_bytes_valid [OF ginvD(1) [OF 1(1)] v]], goal_cases)
      case (1 d s2)
      then have s2: "s2 = s1" and l: "nat (data_len r) \<le> length d" by auto
      show ?case unfolding s2
      proof (rule wp_bnd_wpa [OF BIO_write_ok [OF l]], goal_cases)
        case (1 _ s3)
        note g = received_held [OF s1(1)]
        note h3 = handled_tls [OF _ _ 1, of ctx p, OF g [THEN conjunct1] g [THEN conjunct2]]
        show ?case
        proof (rule wp_bnd_wpa [OF release_ok [OF h3(1,2), where U = U]], goal_cases)
          case (1 _ s4)
          then have "kpres U ctx s3 s4" "conn_heap s4 = conn_heap s3" using kept_conn [of U ctx s3 s4] by (simp_all add: kept_def)
          moreover have "conn_heap s3 = conn_heap s1" "kpres U ctx s1 s3" using \<open>tls_step s1 s3\<close> by (simp_all add: tls_stepD)
          moreover from calculation have "kpres U ctx s s4" by (intro kpres_trans [OF s1(4) kpres_trans [of U ctx s1 s3]])
          ultimately show ?case using 1 s1(3) conn_on_heap [of s4 s1] by (simp add: wpa_ret)
        qed
      qed
    qed
  qed
  have "wpa (handshake_recv T U ctx conn p) ?Q s" unfolding handshake_recv_def
  proof (rule wpa_loadI [where h = op_heap, OF r], goal_cases)
    case 1
    show ?case using received_held [OF rc] r by (auto simp: gi_def ginv_def uinv_def)
  next
    case 2
    show ?case
    proof (rule wpa_assertI, rule wpa_loadI [where h = conn_heap, OF d(2,1)], goal_cases)
      case 1
      then have "op_fd r = f" using m r by (auto simp: all_recv_def recv_on_def)
      moreover have "wpa (bnd (if conn_addr_len d = 0 then set_peer conn r else ret ()) (\<lambda>_.
         bnd (load_bytes (op_buffer r) (nat (data_len r))) (\<lambda>data. bnd (BIO_write T (rbio d) data (data_len r)) (\<lambda>_.
         bnd (io_op_free U ctx p) (\<lambda>_. ret ()))))) ?Q s"
      proof (cases "conn_addr_len d = 0")
        case True
        have "wpa (bnd (set_peer conn r) (\<lambda>_.
           bnd (load_bytes (op_buffer r) (nat (data_len r))) (\<lambda>data. bnd (BIO_write T (rbio d) data (data_len r)) (\<lambda>_.
           bnd (io_op_free U ctx p) (\<lambda>_. ret ()))))) ?Q s"
        proof (rule wp_bnd_wpa [OF wp_wlp [OF set_peer_ok [OF rc r 1 d(5)] set_peer_conn [OF d(2)]]], goal_cases)
          case (1 _ s1)
          then obtain h where h: "s1 = s\<lparr>conn_heap := h\<rparr>" by auto
          have "received ctx p s1" by (rule received_env [OF rc]) (simp_all add: h)
          moreover have "conn_on conn f s1" using 1 d by (auto simp: conn_on_def conn_tls_def)
          ultimately show ?case using rest [of s1] r h by (simp add: kpres_refl)
        qed
        then show ?thesis using True by simp
      qed (use rest [OF rc r c] in \<open>simp add: bnd_ret kpres_refl\<close>)
      ultimately show ?case using d(3) by simp
    qed
  qed
  from wpa_wlp [OF this stableD [OF stable_handshake(2) [where F = "{f}"]]] show ?thesis
  proof (rule wpa_conseq, goal_cases)
    case (1 _ s')
    have "K (kw s') (trace s')" by (rule kpres_kernel [OF _ K k]) (use 1 in simp)
    then show ?case using 1 m by (simp add: shaking_def)
  qed
qed

section \<open>The handshake\<close>

lemma shaking_live: "shaking ctx conn f K s \<Longrightarrow> live ctx {} s"
  by (simp add: shaking_def gi_live)

lemma shaking_tls:
  fixes s :: "('k, 't) net_state"
  assumes K: "kernel_ok U ctx K" and h: "shaking ctx conn f K s" and t: "tls_step s s'"
  shows "shaking ctx conn f K s'"
proof -
  have "gi ctx {} s'" by (rule gi_env [of ctx "{}" s]) (use h t in \<open>simp_all add: shaking_def tls_stepD\<close>)
  moreover have "K (kw s') (trace s')" by (rule kpres_kernel [OF tls_stepD(1) [OF t] K]) (use h in \<open>simp add: shaking_def\<close>)
  ultimately show ?thesis using h conn_on_heap [of s' s] tls_stepD [OF t] by (simp add: shaking_def all_recv_def)
qed

lemma shaking_conn:
  assumes h: "shaking ctx conn f K s" and c: "conn_heap s conn = Some c"
  shows "shaking ctx conn f K (s\<lparr>conn_heap := (conn_heap s)(conn \<mapsto> c\<lparr>conn_st := st\<rparr>)\<rparr>)"
proof -
  let ?s = "s\<lparr>conn_heap := (conn_heap s)(conn \<mapsto> c\<lparr>conn_st := st\<rparr>)\<rparr>"
  have "gi ctx {} ?s" by (rule gi_env [of ctx "{}" s]) (use h in \<open>simp_all add: shaking_def\<close>)
  then show ?thesis using h c by (auto simp: shaking_def all_recv_def conn_on_def conn_tls_def conn_ok_def)
qed

text \<open>The result of the handshake: still going on, established, or given up.\<close>

definition shaken :: "ptr \<Rightarrow> ptr \<Rightarrow> int \<Rightarrow> ('k \<Rightarrow> event list \<Rightarrow> bool) \<Rightarrow> int option \<Rightarrow> ('k, 't) net_state \<Rightarrow> bool" where
  "shaken ctx conn f K res s \<longleftrightarrow> (case res of None \<Rightarrow> shaking ctx conn f K s
     | Some rc \<Rightarrow> rc = 0 \<and> shaking ctx conn f K s \<or> rc = -1 \<and> live ctx {} s)"

lemma handshake_wait_ok:
  fixes s :: "('k, 't) net_state"
  assumes U: "recvmsg_ok U" "kernel_ok U ctx K" and h: "shaking ctx conn f K s"
    and next_round: "\<And>s'. shaking ctx conn f K s' \<Longrightarrow> wpa m (shaken ctx conn f K) s'"
  shows "wpa (bnd (wait_for_recv U w ctx) (\<lambda>got. case got of None \<Rightarrow> ret None | Some op \<Rightarrow>
     if op = NULL then ret (Some (-1)) else bnd (handshake_recv T U ctx conn op) (\<lambda>_. m))) (shaken ctx conn f K) s"
proof -
  have g: "gi ctx {} s" "K (kw s) (trace s)" "all_recv {f} s" "conn_on conn f s" using h by (simp_all add: shaking_def)
  have s: "wlp (wait_for_recv U w ctx) (\<lambda>_ s'. all_recv {f} s \<longrightarrow> all_recv {f} s') s" by (rule stableD [OF stable_wait])
  show ?thesis
  proof (rule wp_bnd_wpa [OF wp_wlp [OF wait_for_recv_ok [OF U g(1,2)] s]], goal_cases)
    case (1 got s1)
    then have c1: "conn_on conn f s1" "all_recv {f} s1" "K (kw s1) (trace s1)"
      using g conn_on_heap [OF more_eqD(1), of s1 s] by (auto simp: kept_wait_def)
    show ?case
    proof (cases got)
      case None
      then show ?thesis using 1 c1 by (simp add: wpa_ret shaken_def shaking_def outcome_def)
    next
      case (Some p)
      show ?thesis
      proof (cases "p = NULL")
        case False
        then have "received ctx p s1" using 1 Some by (simp add: outcome_def)
        then have "wpa (bnd (handshake_recv T U ctx conn p) (\<lambda>_. m)) (shaken ctx conn f K) s1"
          by (rule wpa_bndI [OF handshake_recv_ok [OF U(2) _ c1]]) (rule next_round)
        then show ?thesis using Some False by simp
      qed (use 1 Some in \<open>simp add: wpa_ret shaken_def outcome_def\<close>)
    qed
  qed
qed

text \<open>What follows a step of OpenSSL that has not finished the handshake; \<open>m\<close> is the next round.\<close>

lemma handshake_tail_ok:
  fixes s :: "('k, 't) net_state"
  assumes U: "recvmsg_ok U" "kernel_ok U ctx K" and h: "shaking ctx conn f K s" and ssl: "ssl \<noteq> NULL"
    and m: "\<And>s'. shaking ctx conn f K s' \<Longrightarrow> wpa m (shaken ctx conn f K) s'"
  shows "wpa (bnd (SSL_get_error T ssl rc) (\<lambda>err.
     if err = SSL_ERROR_WANT_READ then bnd (BIO_pending T rb) (\<lambda>pend. if pend \<noteq> 0 then ret (Some (-1)) else
       bnd (wait_for_recv U w ctx) (\<lambda>got. case got of None \<Rightarrow> ret None | Some op \<Rightarrow> if op = NULL then ret (Some (-1)) else
       bnd (handshake_recv T U ctx conn op) (\<lambda>_. m)))
     else if err = SSL_ERROR_WANT_WRITE then bnd (BIO_pending T wb) (\<lambda>pend. if 0 < pend then ret (Some (-1)) else m)
     else bnd (dtls_get_error_string T ssl rc) (\<lambda>_. ret (Some (-1))))) (shaken ctx conn f K) s"
proof -
  have same: "wp (SSL_get_error T ssl rc) (\<lambda>_ s'. s' = s) s" "wp (dtls_get_error_string T ssl rc) (\<lambda>_ s'. s' = s) s"
    "wp (BIO_pending T b) (\<lambda>_ s'. s' = s) s" for b
    using ssl by (simp_all add: wp_simps wp_bio_pending)
  have fail: "wpa (ret (Some (-1))) (shaken ctx conn f K) s" using shaking_live [OF h] by (simp add: wpa_ret shaken_def)
  show ?thesis
  proof (rule wp_bnd_wpa [OF same(1)], goal_cases)
    case (1 e s1)
    have "wpa (bnd (BIO_pending T rb) (\<lambda>pend. if pend \<noteq> 0 then ret (Some (-1)) else
       bnd (wait_for_recv U w ctx) (\<lambda>got. case got of None \<Rightarrow> ret None | Some op \<Rightarrow> if op = NULL then ret (Some (-1)) else
       bnd (handshake_recv T U ctx conn op) (\<lambda>_. m)))) (shaken ctx conn f K) s"
      by (rule wp_bnd_wpa [OF same(3)]) (use handshake_wait_ok [OF U h m] fail in simp)
    moreover have "wpa (bnd (BIO_pending T wb) (\<lambda>pend. if 0 < pend then ret (Some (-1)) else m)) (shaken ctx conn f K) s"
      by (rule wp_bnd_wpa [OF same(3)]) (use m [OF h] fail in simp)
    moreover have "wpa (bnd (dtls_get_error_string T ssl rc) (\<lambda>_. ret (Some (-1)))) (shaken ctx conn f K) s"
      by (rule wp_bnd_wpa [OF same(2)]) (use fail in simp)
    ultimately show ?case using 1 by simp
  qed
qed

lemma handshake_loop_ok:
  fixes s :: "('k, 't) net_state"
  assumes U: "recvmsg_ok U" "kernel_ok U ctx K" and T: "openssl_ok T"
  shows "shaking ctx conn f K s \<Longrightarrow> wpa (handshake_loop T U w n ctx conn) (shaken ctx conn f K) s"
proof (induction n arbitrary: s)
  case 0
  then show ?case by (simp add: wpa_ret shaken_def)
next
  case (Suc n)
  from Suc.prems obtain c where c: "conn \<noteq> NULL" "conn_heap s conn = Some c" "conn_ssl c \<noteq> NULL"
    by (auto simp: shaking_def conn_on_def conn_tls_def conn_ok_def)
  show ?case unfolding handshake_loop.simps
  proof (rule wpa_loadI [where h = conn_heap, OF c(2,1)], rule wp_bnd_wpa [where R = "\<lambda>_. tls_step s"],
      goal_cases)
    case 1
    then show ?case using c by (auto simp: wp_simps tls_step_tw split: prod.splits)
  next
    case (2 rc s1)
    note h1 = shaking_tls [OF U(2) Suc.prems 2]
    have str: "wp (dtls_get_error_string T (conn_ssl c) rc) (\<lambda>_ s'. s' = s1) s1" using c by (simp add: wp_simps)
    show ?case
    proof (rule wp_bnd_wpa [OF str], simp only:, rule wpa_bndI [OF handshake_send_ok [OF T U(2) h1]], goal_cases)
      case (1 _ _ sent s3)
      show ?case
      proof (cases "sent < 0")
        case False
        with 1 have h3: "shaking ctx conn f K s3" by auto
        have c3: "conn_heap s3 conn = Some c" using 1 c tls_stepD [OF 2] by simp
        have "wpa (bnd (upd_conn conn (\<lambda>c. c\<lparr>conn_st := CONN_STATE_ESTABLISHED\<rparr>)) (\<lambda>_. ret (Some 0))) (shaken ctx conn f K) s3"
          using shaking_conn [OF h3 c3, of CONN_STATE_ESTABLISHED] c3 c(1) by (simp add: wpa_def upd_conn_def exec_simps shaken_def)
        moreover have "wpa (ret (Some (-1))) (shaken ctx conn f K) s3" using shaking_live [OF h3] by (simp add: wpa_ret shaken_def)
        ultimately show ?thesis using False handshake_tail_ok [OF U h3 c(3) Suc.IH] by simp
      qed (use 1 in \<open>auto simp: wpa_ret shaken_def\<close>)
    qed
  qed
qed

text \<open>
  C8: The DTLS handshake faults at most by an assertion. While it goes on and after success the ledger is complete; it succeeds only in the state
  ESTABLISHED after OpenSSL has reported the end of the handshake; every other end is -1 with consistent pools. Every UDP receive is
  still on the socket of the connection, so no received datagram has been dropped without releasing its operation.
\<close>

theorem do_dtls_handshake_safe:
  assumes "recvmsg_ok U" and "kernel_ok U ctx K" and "openssl_ok T"
    and "gi ctx {} s" and "K (kw s) (trace s)" and "conn_tls conn s" and "conn_heap s conn = Some c" and "all_recv {udp_fd c} s"
  shows "case do_dtls_handshake T U w n ctx conn s of
      Inl e \<Rightarrow> e = Assert_failed
    | Inr (None, s') \<Rightarrow> gi ctx {} s' \<and> conn_tls conn s' \<and> all_recv {udp_fd c} s' \<and> K (kw s') (trace s')
    | Inr (Some rc, s') \<Rightarrow> rc = -1 \<and> live ctx {} s' \<or>
        rc = 0 \<and> gi ctx {} s' \<and> conn_tls conn s' \<and> all_recv {udp_fd c} s' \<and> K (kw s') (trace s') \<and>
        (\<exists>d t. conn_heap s' conn = Some d \<and> conn_st d = CONN_STATE_ESTABLISHED \<and> fst (ssl_do_handshake T (conn_ssl d) t) = 1)"
proof -
  let ?s = "s\<lparr>tw := err_clear_error T (tw s)\<rparr>"
  have "shaking ctx conn (udp_fd c) K s" using assms by (simp add: shaking_def conn_on_def)
  note h = shaking_tls [OF assms(2) this tls_step_tw, of "err_clear_error T (tw s)"]
  have "do_dtls_handshake T U w n ctx conn s = handshake_loop T U w n ctx conn ?s"
    using assms(6) by (simp add: do_dtls_handshake_def conn_tls_def conn_ok_def tdo_def exec_simps)
  then show ?thesis
    using wpa_wlp [OF handshake_loop_ok [OF assms(1-3) h, of w n] handshake_loop_result]
    by (auto simp: wpa_def shaken_def shaking_def conn_on_def established_def split: sum.splits option.splits) blast+
qed

theorem do_dtls_handshake_safe_witness:
  "case do_dtls_handshake sample_openssl sample_uring 5 5 1 10 sample_state of
      Inl e \<Rightarrow> e = Assert_failed
    | Inr (None, s') \<Rightarrow> gi 1 {} s' \<and> conn_tls 10 s' \<and> all_recv {9} s' \<and> sample_knows (kw s') (trace s')
    | Inr (Some rc, s') \<Rightarrow> rc = -1 \<and> live 1 {} s' \<or>
        rc = 0 \<and> gi 1 {} s' \<and> conn_tls 10 s' \<and> all_recv {9} s' \<and> sample_knows (kw s') (trace s') \<and>
        (\<exists>d t. conn_heap s' 10 = Some d \<and> conn_st d = CONN_STATE_ESTABLISHED \<and> fst (ssl_do_handshake sample_openssl (conn_ssl d) t) = 1)"
proof -
  have c: "conn_tls 10 sample_state" "conn_heap sample_state 10 = Some sample_conn" "udp_fd sample_conn = 9"
    using sample_dtls_inv by (simp_all add: dtls_inv_def sample_state_def sample_conn_def)
  have "all_recv {udp_fd sample_conn} sample_state"
    by (auto simp: c(3) all_recv_def recv_on_def sample_defs op_type_defs split: if_splits)
  from do_dtls_handshake_safe [OF sample_recvmsg_ok sample_kernel_ok sample_openssl_ok sample_gi sample_knows_state c(1,2) this, of 5 5]
  show ?thesis unfolding c(3) .
qed

end
