(* ===== verification/Heap_Types.thy ===== *)
theory Heap_Types
  imports Relay
begin

text \<open>
  The types of the heap. C fixes the size of every array and what a pointer field may point to; in the model these are
  properties of the state, and every turn of the event loops keeps them.
\<close>

text \<open>\<open>p\<close> is NULL or points to an object of the heap \<open>h\<close>.\<close>

definition points_to :: "(ptr \<rightharpoonup> 'a) \<Rightarrow> ptr \<Rightarrow> bool" where
  "points_to h p \<longleftrightarrow> p = NULL \<or> p \<in> dom h"

text \<open>
  Buffers and the ring have the sizes of their arrays, the two free lists lead from object to object until NULL, an operation the kernel
  knows points to its own buffer or names a buffer of the ring, and the address of the peer is a whole \<^verbatim>\<open>sockaddr_storage\<close>.
\<close>

definition well_typed :: "ptr \<Rightarrow> ptr \<Rightarrow> ('k, 't) net_state \<Rightarrow> bool" where
  "well_typed ctx conn s \<longleftrightarrow>
     (\<forall>p b. buf_heap s p = Some b \<longrightarrow> length (ba_buf b) = BUF_SIZE \<and> length (ba_addr b) = SOCKADDR_STORAGE) \<and>
     (\<exists>x mem ops bufs. ctx_heap s ctx = Some x \<and> br_bufs x = Some mem \<and> length mem = BUF_SIZE * nat (br_n_bufs (config x)) \<and>
        points_to (op_heap s) (io_op_pool x) \<and> (\<forall>p \<in> ops. \<exists>r. op_heap s p = Some r \<and> (op_next r = NULL \<or> op_next r \<in> ops)) \<and>
        points_to (buf_heap s) (buf_addr_pool x) \<and> (\<forall>p \<in> bufs. \<exists>b. buf_heap s p = Some b \<and> (ba_next b = NULL \<or> ba_next b \<in> bufs)) \<and>
        dom (op_heap s) = ops \<union> set (outstanding (trace s)) \<and>
        (\<forall>p r. op_heap s p = Some r \<and> p \<notin> ops \<longrightarrow> points_to (buf_heap s) (op_buf_addr r) \<and> op_buf_addr r \<notin> bufs \<and>
           (op_buf_addr r \<noteq> NULL \<longrightarrow> op_buffer r = MBuf (op_buf_addr r) \<and> op_addr r = MAddr (op_buf_addr r)) \<and>
           buf_idx r < max 0 (br_n_bufs (config x)) \<and> (is_multi r \<longrightarrow> op_type r = OP_TYPE_UDP_RECV))) \<and>
     (\<exists>c. conn_heap s conn = Some c \<and> length (conn_addr c) = SOCKADDR_STORAGE \<and> conn_addr_len c \<le> SOCKADDR_STORAGE)"

lemma chain_next: "chain nx p xs \<Longrightarrow> x \<in> set xs \<Longrightarrow> \<exists>q. nx x = Some q \<and> (q = NULL \<or> q \<in> set xs)"
proof (induction xs arbitrary: p)
  case (Cons a xs)
  then show ?case by (cases xs) auto
qed simp

lemma chain_points: "chain nx p xs \<Longrightarrow> p = NULL \<or> p \<in> set xs"
  by (cases xs) auto

lemma gi_well_typed:
  fixes s :: "('k, 't) net_state"
  assumes g: "gi ctx {} s" and c: "conn_ok conn s"
  shows "well_typed ctx conn s"
proof -
  obtain ops bufs where g: "ginv ctx ops bufs {} s" using g by (auto simp: gi_def)
  from ginvD(1) [OF g] show ?thesis
  proof (rule uinvE, goal_cases)
    case x: (1 x mem)
    note o = x(11) [unfolded own_def, THEN conjunct1, THEN spec, THEN spec, THEN mp]
    have ops: "\<exists>r. op_heap s p = Some r \<and> (op_next r = NULL \<or> op_next r \<in> set ops)" if "p \<in> set ops" for p
      using chain_next [OF x(6) that] by (auto simp: op_nx_def)
    have bufs: "\<exists>b. buf_heap s p = Some b \<and> (ba_next b = NULL \<or> ba_next b \<in> set bufs)" if "p \<in> set bufs" for p
      using chain_next [OF x(7) that] by (auto simp: buf_nx_def)
    have live: "points_to (buf_heap s) (op_buf_addr r) \<and> op_buf_addr r \<notin> set bufs \<and>
       (op_buf_addr r \<noteq> NULL \<longrightarrow> op_buffer r = MBuf (op_buf_addr r) \<and> op_addr r = MAddr (op_buf_addr r)) \<and>
       buf_idx r < max 0 (br_n_bufs (config x)) \<and> (is_multi r \<longrightarrow> op_type r = OP_TYPE_UDP_RECV)"
      if "op_heap s p = Some r" "p \<notin> set ops" for p r
    proof -
      have "op_wf bufs (nat (br_n_bufs (config x))) (buf_heap s) (provided (trace s)) r" by (rule o) (use that in blast)
      then show ?thesis using chain_nonnull [OF x(7)] by (auto simp: op_wf_def points_to_def)
    qed
    have heads: "points_to (op_heap s) (io_op_pool x)" "points_to (buf_heap s) (buf_addr_pool x)"
      using chain_points [OF x(6)] chain_points [OF x(7)] ops bufs by (auto simp: points_to_def)
    have d: "dom (op_heap s) = set ops \<union> set (outstanding (trace s))" using ginvD(4) [OF g] by simp
    have c': "\<exists>c. conn_heap s conn = Some c \<and> length (conn_addr c) = SOCKADDR_STORAGE \<and> conn_addr_len c \<le> SOCKADDR_STORAGE"
      using c by (auto simp: conn_ok_def)
    show ?case unfolding well_typed_def
      by (intro conjI exI [of _ x] exI [of _ mem] exI [of _ "set ops"] exI [of _ "set bufs"] c' d heads x(2,4,5))
        (use x(10) ops bufs live in \<open>auto simp: buf_sizes_def\<close>)
  qed
qed

text \<open>
  C21: Type preservation: every state that an event loop, with or without DTLS, reaches by whole turns is well-typed. All buffers, the ring and the peer's
  address have the sizes of their arrays, the free lists are linked through existing objects, and every operation in flight points to its own buffer.
\<close>

theorem turns_well_typed:
  assumes U: "recvmsg_ok U" "kernel_ok U ctx K" and T: "openssl_ok T"
    and h: "h = dtls_packet T U conn tunfd ctx \<or> h = zero_packet U conn tunfd ctx" and t: "turns P U w ctx h s s'"
    and s: "gi ctx {} s" "conn_tls conn s" "all_multi s" "K (kw s) (trace s)"
  shows "well_typed ctx conn s'"
  using h
proof
  assume e: "h = dtls_packet T U conn tunfd ctx"
  have "dtls.between ctx T conn K s" using s T by (simp add: dtls.between_def dtls_inv_def)
  from dtls.turns_between [OF U t [unfolded e] this] show ?thesis
    by (auto simp: dtls.between_def dtls_inv_def conn_tls_def intro: gi_well_typed)
next
  assume e: "h = zero_packet U conn tunfd ctx"
  have "zero.between ctx conn K s" using s by (simp add: zero.between_def conn_tls_def)
  from zero.turns_between [OF U t [unfolded e] this] show ?thesis
    by (auto simp: zero.between_def intro: gi_well_typed)
qed

text \<open>One turn of an event loop as a program, -1 when there is none, and a turn of the loop without encryption from the sample state: a TUN packet is sent off.\<close>

definition one_turn :: "'k liburing \<Rightarrow> nat \<Rightarrow> ptr \<Rightarrow> (ptr \<Rightarrow> io_op \<Rightarrow> ('k, 't, int) net_prog) \<Rightarrow> ('k, 't, int) net_prog" where
  "one_turn U w ctx h = bnd (wait_for_recv U w ctx) (\<lambda>got. case got of None \<Rightarrow> ret (-1) | Some op \<Rightarrow> if op = NULL then ret (-1) else
     bnd (load op_heap op) (\<lambda>r. bnd (h op r) (\<lambda>rc. bnd (io_op_free U ctx op) (\<lambda>_. ret rc))))"

lemma one_turn_turn:
  assumes "wp (one_turn U w ctx h) (\<lambda>rc _. 0 \<le> rc) s" and "sig_running P (kw s)"
  shows "\<exists>s'. turn P U w ctx h s s'"
proof -
  from wp_InrD [OF assms(1)] obtain rc s' where e: "one_turn U w ctx h s = Inr (rc, s')" "0 \<le> rc" by auto
  then have "turn P U w ctx h s s'" unfolding one_turn_def
    by (auto elim!: bnd_InrE simp: ret_def load_def split: option.splits if_splits)
      (rule turn.intros [OF assms(2)], assumption, simp, assumption+)
  then show ?thesis ..
qed

lemma wp_print_skip: "40 \<le> length d \<Longrightarrow> (\<And>a. Q a s) \<Longrightarrow> wp (print_ip_packet_info d k) Q s"
  by (rule wp_conseq [OF print_ip_packet_info_wp]) auto

lemmas wait_defs = wp_simps handle_completion_def dispatch_completion_def iouring_cqe_seen_def iouring_resubmit_recv_def
  io_op_alloc_def io_op_alloc_buf_def iouring_get_io_op_def iouring_get_buf_addr_def iouring_submit_tun_read_def uring_call_defs
  op_type_defs Let_def

lemmas send_defs = wp_simps print_packet_def wp_print_skip io_op_alloc_def io_op_alloc_buf_def iouring_get_io_op_def iouring_get_buf_addr_def
  iouring_submit_udp_send_def copy_payload_def send_message_def memcpy_in_def uring_call_defs
  io_op_free_def iouring_put_buf_addr_def iouring_put_io_op_def op_type_defs BUF_SIZE_def SOCKADDR_STORAGE_def

lemma sample_zero_turn: "\<exists>s'. turn sample_posix sample_uring 1 1 (zero_packet sample_uring 10 8 1) sample_state s'"
proof (rule one_turn_turn)
  show "wp (one_turn sample_uring 1 1 (zero_packet sample_uring 10 8 1)) (\<lambda>rc _. 0 \<le> rc) sample_state"
    unfolding one_turn_def One_nat_def wait_for_recv.simps iouring_wait_cqe_def
    apply (simp add: wp_simps sample_uring_def sample_state_def sample_inflight_def)
    apply (simp add: wait_defs sample_defs sample_packet_def)
    apply (simp add: send_defs sample_uring_def zero_packet_def tun_to_udp_def wp_print_skip BUF_SIZE_def SOCKADDR_STORAGE_def sample_conn_def zero_conn_def)
    by (intro exI conjI impI, rule refl, simp)
qed (simp add: sample_posix_def)

theorem turns_well_typed_witness:
  "\<exists>s'. turn sample_posix sample_uring 1 1 (zero_packet sample_uring 10 8 1) sample_state s' \<and> well_typed 1 10 s'"
proof -
  from sample_zero_turn obtain s' where t: "turn sample_posix sample_uring 1 1 (zero_packet sample_uring 10 8 1) sample_state s'" ..
  have "well_typed 1 10 s'"
    by (rule turns_well_typed [OF sample_recvmsg_ok sample_kernel_ok sample_openssl_ok _ turns_step [OF turns_refl t] sample_gi _ sample_all_multi sample_knows_state])
      (use sample_dtls_inv in \<open>auto simp: dtls_inv_def\<close>)
  with t show ?thesis by blast
qed

end
