(* ===== verification/Leaks.thy ===== *)
theory Leaks
  imports Handshake Heap_Types
begin

text \<open>
  What the program loses on its error paths: an operation in the handshake, the io-uring context and its pools when their set-up fails
  half-way, an SSL object that is freed while the connection still points to it, an operation freed while it is in flight, operations whose submission fails.
\<close>

section \<open>A foreign datagram during the handshake\<close>

lemma received_not_idle:
  assumes "received ctx p s"
  shows "\<not> gi ctx {} s"
proof
  assume "gi ctx {} s"
  then obtain ops bufs where g: "ginv ctx ops bufs {} s" by (auto simp: gi_def)
  from assms obtain r where r: "op_heap s p = Some r" by (auto simp: received_def)
  show False using assms r
  proof (rule receivedE, goal_cases)
    case (1 ops' bufs')
    obtain x where x: "ctx_heap s ctx = Some x" "chain (op_nx s) (io_op_pool x) ops"
      using ginvD(1) [OF g] by (auto simp: uinv_def)
    have "chain (op_nx s) (io_op_pool x) ops'" using ginvD(1) [OF 1(1)] x(1) by (auto simp: uinv_def)
    then have "ops' = ops" using chain_unique x(2) by blast
    then have p: "p \<notin> set ops" using ginvD(5) [OF 1(1)] by simp
    have "p \<in> set (outstanding (trace s))" using ginvD(4) [OF g] r p by auto
    moreover have "\<not> (is_multi r \<and> 0 \<le> buf_idx r)" using ginvD(7) [OF g] r p by (force simp: idle_def)
    ultimately show ?case using 1(4) by auto
  qed
qed

text \<open>
  C32: A datagram that arrives on another socket during the handshake (the forwarder has two) is dropped without releasing its operation: the ledger is
  not complete any more, and the ring buffer of the datagram is never given back.
\<close>

theorem foreign_datagram_leaks:
  assumes "received ctx p s" and "op_heap s p = Some r" and "op_type r = OP_TYPE_UDP_RECV"
    and "conn \<noteq> NULL" and "conn_heap s conn = Some c" and "op_fd r \<noteq> udp_fd c"
  shows "handshake_recv T U ctx conn p s = Inr ((), s) \<and> \<not> gi ctx {} s"
proof
  have "p \<noteq> NULL" by (rule receivedE [OF assms(1,2)])
  then show "handshake_recv T U ctx conn p s = Inr ((), s)"
    using assms by (simp add: handshake_recv_def exec_simps)
qed (rule received_not_idle [OF assms(1)])

theorem foreign_datagram_leaks_witness:
  "handshake_recv sample_openssl sample_uring 1 13 6 sample_udp_state = Inr ((), sample_udp_state) \<and> \<not> gi 1 {} sample_udp_state"
  by (rule foreign_datagram_leaks [OF sample_udp_received sample_packets(2)])
    (use sample_fwd in \<open>auto simp: udp_packet_op_def new_multi_op_def sample_conn_def\<close>)

section \<open>Set-up and error paths\<close>

lemma wp_addr_skip: "28 \<le> length p \<Longrightarrow> (\<And>a. Q a s) \<Longrightarrow> wp (addr_to_string f p) Q s"
  by (rule wp_conseq [OF addr_to_string_wp]) auto

text \<open>When the buffer ring cannot be allocated, \<^verbatim>\<open>iouring_init\<close> answers NULL and leaves the context and both pools behind.\<close>

lemma iouring_init_failure_leaks:
  "wp (iouring_init (sample_posix\<lparr>memalign_ok := \<lambda>k. (False, k)\<rparr>) sample_uring (sample_config\<lparr>n_io_ops := 1\<rparr>))
    (\<lambda>ctx s'. ctx = NULL \<and> dom (ctx_heap s') = {1} \<and> dom (op_heap s') = {2} \<and> dom (buf_heap s') = {3}) blank_state"
  by (simp add: iouring_init_def iouring_alloc_buffers_def iouring_alloc_io_op_pool_def iouring_alloc_buf_addr_pool_def calloc_op_def calloc_buf_addr_def
      iouring_alloc_multishot_buffers_def wp_simps sample_posix_def sample_uring_def sample_config_def blank_state_def USE_MULTI_RECV_def)

text \<open>When the BIOs cannot be created, the SSL object is freed and the connection keeps its address.\<close>

lemma dtls_failure_dangles:
  "wp (bnd (create_connection sample_posix CONN_ROLE_CLIENT (Some ''peer'') 4433 0) (\<lambda>conn.
       init_dtls_connection sample_posix (sample_openssl\<lparr>bio_new := \<lambda>t. (NULL, t)\<rparr>) conn None None None))
    (\<lambda>rc s'. rc = -1 \<and> map_option conn_ssl (conn_heap s' 1) = Some 100 \<and> Ev_ssl_free 100 \<in> set (trace s')) blank_state"
  by (simp add: create_connection_def connection_socket_def udp_socket_create_def calloc_conn_def resolve_hostname_def wp_simps
    init_dtls_connection_def dtls_client_context_init_def calloc_dtls_def dtls_create_ssl_def dtls_setup_bio_pair_def Let_def
    sample_posix_def sample_openssl_def blank_state_def zero_conn_def SOCKADDR_STORAGE_def wp_addr_skip)

text \<open>
  After an error the event loop frees the received operation even when it is a multishot receive, which is still in flight: here a datagram
  arrives and the write of its payload to the TUN device is not accepted.
\<close>

definition refusing_uring :: "sqe list liburing" where
  "refusing_uring = sample_uring\<lparr>submit := \<lambda>k. (-1, k),
     wait_cqe_timeout := \<lambda>k. ((0, \<lparr>cqe_data = 6, cqe_res = 164, cqe_flags = 3, cqe_writes = []\<rparr>), k)\<rparr>"

lemma error_frees_armed_operation:
  "wp (tun_udp_run_zero sample_posix refusing_uring 1 1 1 10 8)
    (\<lambda>res s'. res = Some (-1) \<and> op_heap s' 6 = None \<and> 6 \<in> set (outstanding (trace s'))) sample_state"
  unfolding tun_udp_run_zero_def run_events_def One_nat_def event_loop.simps wait_for_recv.simps iouring_wait_cqe_def
  apply (simp add: wp_simps sample_posix_def refusing_uring_def sample_uring_def sample_state_def sample_inflight_def)
  apply (simp add: wp_simps iouring_cqe_seen_def handle_completion_def dispatch_completion_def iouring_multishot_recvmsg_out_def recvmsg_parse_def Let_def
    mp_of_def sample_defs op_type_defs BUF_SIZE_def)
  apply (simp add: wp_simps zero_packet_def udp_to_tun_def op_type_defs print_packet_def sample_conn_def zero_conn_def BUF_SIZE_def)
  apply (rule wp_print_skip, simp)
  apply (simp add: wp_simps zero_op_def op_type_defs DO_NOT_FREE_def)
  apply (simp add: wp_simps io_op_alloc_buf_def iouring_get_io_op_def op_type_defs zero_op_def DO_NOT_FREE_def)
  apply (simp add: wp_simps refusing_uring_def sample_uring_def iouring_submit_tun_write_def copy_payload_def uring_call_defs Let_def op_type_defs BUF_SIZE_def)
  by (simp add: wp_simps io_op_free_def iouring_put_io_op_def iouring_recycle_buffer_def uring_call_defs DO_NOT_FREE_def free_op_def outstanding_def)

text \<open>
  When the submission of a handshake flight fails, the operation allocated for it is neither in flight for the kernel nor in the pool; the same
  happens to the replacement of a completed receive.
\<close>

lemma failed_flight_keeps_operation:
  "wp (handshake_send (sample_openssl\<lparr>bio_pending := \<lambda>b t. 1, bio_read := \<lambda>b n t. ((1, [22]), t)\<rparr>) refusing_uring 1 10)
    (\<lambda>rc s'. rc = -1 \<and> map_option io_op_pool (ctx_heap s' 1) = Some 7 \<and> op_heap s' 2 \<noteq> None) sample_state"
  apply (simp add: wp_simps handshake_send_def BIO_read_def sample_openssl_def sample_state_def sample_conn_def zero_conn_def)
  apply (simp add: wp_simps io_op_alloc_def io_op_alloc_buf_def iouring_get_io_op_def iouring_get_buf_addr_def sample_defs op_type_defs Let_def)
  apply (simp add: wp_simps iouring_submit_udp_send_def copy_payload_def memcpy_in_def uring_call_defs refusing_uring_def sample_uring_def zero_op_def
      op_type_defs BUF_SIZE_def)
  by (simp add: wp_simps send_message_def memcpy_in_def uring_call_defs SOCKADDR_STORAGE_def zero_buf_addr_def BUF_SIZE_def)

lemma failed_resubmission_keeps_operation:
  "wp (iouring_resubmit_recv refusing_uring 1 3)
    (\<lambda>rc s'. rc = -1 \<and> map_option io_op_pool (ctx_heap s' 1) = Some 7 \<and> op_heap s' 2 \<noteq> None) sample_state"
  apply (simp add: wp_simps iouring_resubmit_recv_def sample_state_def)
  by (simp add: wait_defs sample_defs refusing_uring_def sample_uring_def)

end
