(* ===== verification/Delivery.thy ===== *)
theory Delivery
  imports Loop_Properties
begin

text \<open>
  Delivery: what goes into the edge without encryption comes out on the other side, in the same turn of the event loop and byte for byte.
  The kernel has to accept submissions and the pools must not be empty; apart from that nothing is assumed of the state but the ledger.
\<close>

section \<open>What the kernel is told to send\<close>

text \<open>
  \<open>emits s e\<close>: what the kernel reads from memory in the state \<open>s\<close> when it carries out the entry \<open>e\<close>: a datagram (socket, destination
  address, payload), or a packet for the TUN device (descriptor, bytes).
\<close>

datatype emission = To_peer int "byte list" "byte list" | To_tun int "byte list"

definition bytes_at_mem :: "('k, 'z) uring_state_scheme \<Rightarrow> mptr \<Rightarrow> nat \<Rightarrow> byte list option" where
  "bytes_at_mem s m n = (case load_bytes m n s of Inl e \<Rightarrow> None | Inr (bs, _) \<Rightarrow> Some bs)"

fun emits :: "('k, 'z) uring_state_scheme \<Rightarrow> sqe \<Rightarrow> emission option" where
  "emits s (Sqe_sendmsg fd h v u) = (case (bytes_at_mem s (msg_name h) (msg_namelen h), bytes_at_mem s (iov_base v) (iov_len v)) of
     (Some a, Some d) \<Rightarrow> Some (To_peer fd a d) | _ \<Rightarrow> None)"
| "emits s (Sqe_write fd m n u) = map_option (To_tun fd) (bytes_at_mem s m n)"
| "emits s _ = None"

section \<open>A kernel that accepts\<close>

text \<open>The submission queue has room and every submission takes at least one entry.\<close>

definition accepting :: "'k liburing \<Rightarrow> bool" where
  "accepting U \<longleftrightarrow> (\<forall>k. fst (get_sqe U k) \<and> 0 < fst (submit U k))"

lemma acceptingD:
  assumes "accepting U"
  shows "get_sqe U k = (ok, k') \<Longrightarrow> ok" and "submit U k = (rc, k') \<Longrightarrow> 0 < rc"
  using assms unfolding accepting_def by (metis fst_conv)+

text \<open>Sends and writes whose payload is in place go through; so does taking over a buffer while an operation is free.\<close>

lemma transfer_not_null:
  assumes "ctx \<noteq> NULL" and "ctx_heap s ctx = Some x" and "io_op_pool x \<noteq> NULL" and "p \<noteq> NULL"
  shows "wlp (io_op_alloc_buf ctx typ fd False p) (\<lambda>r s'. r \<noteq> NULL \<and> map_option br_bufs (ctx_heap s' ctx) = Some (br_bufs x)) s"
  using assms by (auto simp: wlp_def io_op_alloc_buf_def iouring_get_io_op_def exec_simps Let_def split: if_splits option.splits)

lemma udp_send_accepted:
  assumes "accepting U" and "op_heap s q = Some r" and "0 \<le> op_fd r" and "0 < len" and "len \<le> int BUF_SIZE" and "ctx \<noteq> NULL" and "q \<noteq> NULL"
  shows "wlp (iouring_submit_udp_send U ctx q (Some adr) al None len) (\<lambda>rc _. rc = 0) s"
  using assms(2-)
  by (auto simp: wlp_def iouring_submit_udp_send_def copy_payload_def send_message_def uring_call_defs exec_simps
    dest!: acceptingD [OF assms(1)] split: if_splits prod.splits option.splits sum.splits)

lemma tun_write_accepted:
  assumes "accepting U" and "op_heap s q = Some r" and "0 \<le> op_fd r" and "0 < len" and "len \<le> int BUF_SIZE" and "ctx \<noteq> NULL" and "q \<noteq> NULL"
  shows "wlp (iouring_submit_tun_write U ctx q None len) (\<lambda>rc _. rc = 0) s"
  using assms(2-)
  by (auto simp: wlp_def iouring_submit_tun_write_def copy_payload_def uring_call_defs exec_simps
    dest!: acceptingD [OF assms(1)] split: if_splits prod.splits option.splits sum.splits)

section \<open>From the TUN device to the peer\<close>

text \<open>The packet bytes of the pool buffers.\<close>

definition buf_bytes :: "('k, 'z) uring_state_scheme \<Rightarrow> ptr \<Rightarrow> byte list option" where
  "buf_bytes s b = map_option ba_buf (buf_heap s b)"

lemma submit_read_accepted:
  assumes "accepting U" and "ctx \<noteq> NULL" and "p \<noteq> NULL" and "op_heap s p = Some r"
  shows "wlp (iouring_submit_tun_read U ctx p) (\<lambda>rc s'. rc = 0 \<and> op_heap s' = op_heap s \<and> ctx_heap s' = ctx_heap s \<and>
    buf_heap s' = buf_heap s \<and> (\<exists>n. trace s' = Ev_submit n # Ev_prep (Sqe_read (op_fd r) (op_buffer r) BUF_SIZE p) # trace s)) s"
  using assms(2-4)
  by (auto simp: wlp_def iouring_submit_tun_read_def uring_call_defs exec_simps dest!: acceptingD [OF assms(1)]
    split: if_splits prod.splits option.splits)

lemma alloc_bytes: "wlp (io_op_alloc ctx typ fd False) (\<lambda>_ s'. buf_bytes s' = buf_bytes s) s"
  by (auto simp: wlp_def io_op_alloc_def io_op_alloc_buf_def iouring_get_io_op_def iouring_get_buf_addr_def iouring_put_io_op_def
    exec_simps Let_def buf_bytes_def fun_eq_iff split: if_splits option.splits)

text \<open>\<open>rearmed\<close>: the completed read \<open>p\<close> is as \<open>r\<close> says, and the next read is in flight with the operation \<open>q\<close> and the buffer \<open>b\<close>.\<close>

definition rearmed :: "ptr \<Rightarrow> io_op \<Rightarrow> ptr \<Rightarrow> ptr \<Rightarrow> ('k, 'z) uring_state_scheme \<Rightarrow> ('k, 'z) uring_state_scheme \<Rightarrow> bool" where
  "rearmed p r q b s s' \<longleftrightarrow> op_heap s' p = Some r \<and> buf_bytes s' = buf_bytes s \<and>
     inflight (trace s') = Sqe_read (op_fd r) (MBuf b) BUF_SIZE q # inflight (trace s)"

lemma resubmit_read_accepted:
  assumes U: "accepting U" and u: "uinv ctx (q # ops) (b # bufs) s" and r: "op_heap s p = Some r" "op_type r = OP_TYPE_TUN_READ"
    and p: "p \<notin> set (q # ops)"
  shows "wlp (iouring_resubmit_recv U ctx p) (\<lambda>rc s'. rc = 0 \<and> uinv ctx ops bufs s' \<and> rearmed p r q b s s') s"
  unfolding iouring_resubmit_recv_def
proof (rule wlp_loadI [where h = op_heap, OF r(1)],
    rule wlp_bndI [OF wlp_conjI [OF wp_imp_wlp [OF io_op_alloc_single [OF u]] alloc_bytes]], goal_cases)
  case (1 a s1)
  then have a: "a = q" "q \<noteq> NULL" "uinv ctx ops bufs s1" "same_env s s1" "buf_bytes s1 = buf_bytes s"
    "op_heap s1 = (op_heap s)(q \<mapsto> new_op OP_TYPE_TUN_READ (op_fd r) b)" using r(2) by auto
  have c: "ctx \<noteq> NULL" using u by (simp add: uinv_def)
  have "wlp (iouring_submit_tun_read U ctx q) (\<lambda>rc s'. rc = 0 \<and> uinv ctx ops bufs s' \<and> rearmed p r q b s s') s1"
  proof (rule wlp_conseq [OF submit_read_accepted [OF U c a(2)]], use a in simp, goal_cases)
    case (1 rc s2)
    then have "uinv ctx ops bufs s2" using a(3) by (auto intro: uinv_frame)
    then show ?case using 1 a p r by (auto simp: rearmed_def buf_bytes_def fun_eq_iff same_env_def new_op_def)
  qed
  then show ?case using a r by simp
qed

lemma handle_read_accepted:
  assumes U: "accepting U" and u: "uinv ctx (q # ops) (b # bufs) s" and p: "p \<notin> set (q # ops)"
    and r: "op_heap s p = Some r" "op_type r = OP_TYPE_TUN_READ" and res: "0 \<le> res"
  shows "wlp (handle_completion U ctx p res f) (\<lambda>w s'. w = Some p \<and> uinv ctx ops bufs s' \<and> rearmed p (r\<lparr>data_len := res\<rparr>) q b s s') s"
proof -
  let ?r = "r\<lparr>data_len := res\<rparr>" and ?s = "s\<lparr>op_heap := (op_heap s)(p \<mapsto> r\<lparr>data_len := res\<rparr>)\<rparr>"
  let ?Q = "\<lambda>s'. uinv ctx ops bufs s' \<and> rearmed p ?r q b s s'"
  have n: "p \<noteq> NULL" by (rule uinv_live_nonnull [OF u r(1)])
  have m: "\<not> is_multi r" using live_multi(2) [OF u r(1) p] r(2) by (auto simp: op_type_defs)
  have u1: "uinv ctx (q # ops) (b # bufs) ?s" by (rule uinv_upd_op [OF u r(1) p]) auto
  have "wlp (bnd (iouring_resubmit_recv U ctx p) (\<lambda>rc. if rc < 0 then bnd (io_op_free U ctx p) (\<lambda>_. ret (Some NULL)) else ret (Some p)))
    (\<lambda>w s'. w = Some p \<and> ?Q s') ?s"
    by (rule wlp_bndI [OF resubmit_read_accepted [OF U u1, where r = ?r]])
      (use r p in \<open>auto simp: wlp_prims rearmed_def buf_bytes_def fun_eq_iff\<close>)
  then have "wlp (dispatch_completion U ctx p ?r f) (\<lambda>w s'. w = Some p \<and> ?Q s') ?s"
    using m r(2) by (simp add: dispatch_completion_def Let_def op_type_defs)
  then show ?thesis using r(1) res n by (auto simp: wlp_def handle_completion_def exec_simps)
qed

lemma dma_bytes: "wlp (dma [(MBuf a, bs)]) (\<lambda>_ s'. \<exists>y. buf_bytes s' a = Some y \<and> take (length bs) y = bs) s"
  by (auto simp: wlp_def exec_simps buf_bytes_def split: if_splits option.splits sum.splits)

text \<open>A completed TUN read is returned by the wait it ends, with the packet in its buffer and the next read in flight.\<close>

lemma completed_read_is_returned:
  assumes U: "recvmsg_ok U" "kernel_ok U ctx K" "accepting U" and g: "ginv ctx (q # ops) (b # bufs) {} s" and k: "K (kw s) (trace s)"
    and w: "wait_cqe_timeout U (kw s) = ((0, c), k')" and r: "op_heap s (cqe_data c) = Some r" "op_type r = OP_TYPE_TUN_READ"
    and res: "0 \<le> cqe_res c" and wr: "cqe_writes c = [(op_buffer r, bs)]"
  shows "wp (wait_for_recv U (Suc n) ctx) (\<lambda>got s'. got = Some (cqe_data c) \<and> received ctx (cqe_data c) s' \<and> uinv ctx ops bufs s' \<and>
    uring_state.more s' = uring_state.more s \<and> op_heap s' (cqe_data c) = Some (r\<lparr>data_len := cqe_res c\<rparr>) \<and>
    (\<exists>y. buf_bytes s' (op_buf_addr r) = Some y \<and> take (length bs) y = bs) \<and>
    inflight (trace s') = Sqe_read (op_fd r) (MBuf b) BUF_SIZE q # remove_sqe (cqe_data c) (inflight (trace s))) s"
proof -
  let ?p = "cqe_data c" and ?r = "r\<lparr>data_len := cqe_res c\<rparr>"
  from kernel_wait(2) [OF U(2) k w] obtain e where e: "e \<in> set (inflight (trace s))" "cqe_legal ctx (trace s) c e"
    by (auto simp: cqe_ok_def list_ex_iff)
  have u: "uinv ctx (q # ops) (b # bufs) (s\<lparr>kw := k'\<rparr>)" using ginvD(1) [OF g] by simp
  have ctx: "ctx \<noteq> NULL" using u by (simp add: uinv_def)
  have p: "?p \<notin> set (q # ops)" using e linked_out [OF ginvD(2) [OF g]] by (force simp: cqe_legal_def outstanding_def)
  have sq: "sqe_for ?p r e" using ginvD(2) [OF g] e r by (auto simp: linked_def cqe_legal_def)
  have nm: "\<not> is_multi r" using live_multi(2) [OF ginvD(1) [OF g] r(1) p] r(2) by (auto simp: op_type_defs)
  then have more: "\<not> has_more (cqe_flags c)" using sq e(2) by (cases e) (auto simp: cqe_legal_def)
  have a: "op_buf_addr r \<noteq> NULL" using sq nm r(2) by (cases e) (auto simp: op_type_defs)
  have buf: "op_buffer r = MBuf (op_buf_addr r)" by (rule live_buf(2) [OF ginvD(1) [OF g] r(1) p a])
  have v: "\<forall>(m, bs) \<in> set (cqe_writes c). valid_mem ctx (s\<lparr>kw := k'\<rparr>) m (length bs)" using writes_valid [OF g e] by simp
  have d: "wlp (dma (cqe_writes c)) (\<lambda>_ s'. \<exists>y. buf_bytes s' (op_buf_addr r) = Some y \<and> take (length bs) y = bs) s0" for s0 :: "('a, 'b) uring_state_scheme"
    unfolding wr buf by (rule dma_bytes)
  let ?Q = "\<lambda>got s'. got = Some ?p \<and> uinv ctx ops bufs s' \<and> op_heap s' ?p = Some ?r \<and>
    (\<exists>y. buf_bytes s' (op_buf_addr r) = Some y \<and> take (length bs) y = bs) \<and>
    inflight (trace s') = Sqe_read (op_fd r) (MBuf b) BUF_SIZE q # remove_sqe ?p (inflight (trace s))"
  have "wlp (bnd (dma (cqe_writes c)) (\<lambda>_. bnd (iouring_cqe_seen U ctx c) (\<lambda>_.
      bnd (handle_completion U ctx ?p (cqe_res c) (cqe_flags c)) (\<lambda>r.
      case r of None \<Rightarrow> wait_for_recv U n ctx | Some p \<Rightarrow> ret (Some p))))) ?Q (s\<lparr>kw := k'\<rparr>)"
  proof (rule wlp_bndI [OF wlp_conjI [OF wp_imp_wlp [OF dma_uinv [OF u v]] d]], goal_cases)
    case (1 _ s1)
    let ?s = "s1\<lparr>kw := cqe_seen U (kw s1), trace := Ev_cqe ?p (cqe_flags c) # trace s1\<rparr>"
    have u1: "uinv ctx (q # ops) (b # bufs) ?s" using 1 by (intro uinv_cqe) simp
    have r1: "op_heap ?s ?p = Some r" and t: "trace s1 = trace s" using 1 r(1) by (simp_all add: same_but_mem_def)
    have bb: "buf_bytes ?s = buf_bytes s1" by (simp add: buf_bytes_def fun_eq_iff)
    have "wlp (bnd (handle_completion U ctx ?p (cqe_res c) (cqe_flags c)) (\<lambda>r.
      case r of None \<Rightarrow> wait_for_recv U n ctx | Some p \<Rightarrow> ret (Some p))) ?Q ?s"
      by (rule wlp_bndI [OF handle_read_accepted [OF U(3) u1 p r1 r(2) res]])
        (use 1 t more bb in \<open>auto simp: wlp_prims rearmed_def\<close>)
    then show ?case using ctx by (simp add: wlp_def iouring_cqe_seen_def exec_simps)
  qed
  then have "wlp (wait_for_recv U (Suc n) ctx) ?Q s" unfolding wlp_def wait_completion [OF ctx w order.irrefl] bnd_assoc .
  moreover have "gi ctx {} s" and "?p \<noteq> NULL" using g uinv_live_nonnull [OF ginvD(1) [OF g] r(1)] by (auto simp: gi_def)
  ultimately show ?thesis
    by (intro wp_conseq [OF wp_wlp [OF wait_for_recv_ok [OF U(1,2) _ k]]]) (auto simp: outcome_def kept_wait_def simp del: wait_for_recv.simps)
qed

lemma tun_to_udp_accepted:
  assumes U: "accepting U" and rc: "received ctx p s" and x: "ctx_heap s ctx = Some x" "io_op_pool x \<noteq> NULL" and r: "op_heap s p = Some r" "op_type r = OP_TYPE_TUN_READ" "0 < data_len r"
    and c: "conn_heap s conn = Some c" "0 \<le> udp_fd c"
  shows "wlp (tun_to_udp U conn p ctx) (\<lambda>rc s'. rc = 0) s"
proof (rule receivedE [OF rc r(1)], goal_cases)
  case (1 ops' bufs')
  have o: "\<not> is_multi r" "op_buf_addr r \<noteq> NULL" "p \<notin> set (outstanding (trace s))" using 1 r(2) by (auto simp: op_type_defs)
  have g: "gi ctx {p} s" using 1 by (auto simp: gi_def)
  have d: "ctx \<noteq> NULL" "data_len r \<le> int BUF_SIZE" using 1(1,2) by (auto simp: ginv_def uinv_def packet_ok_def)
  have "wlp (bnd (io_op_alloc_buf ctx OP_TYPE_UDP_SEND (udp_fd c) False p) (\<lambda>send_op.
     if send_op = NULL then ret (-1) else
     bnd (load op_heap send_op) (\<lambda>o'.
     bnd (iouring_submit_udp_send U ctx send_op (Some (conn_addr c)) (conn_addr_len c) None (data_len o')) (\<lambda>rc.
     if rc < 0 then bnd (io_op_free U ctx send_op) (\<lambda>_. ret (-1)) else ret 0)))) (\<lambda>rc s'. rc = (0 :: int)) s"
  proof (rule wlp_bndI [OF wlp_conjI [OF wp_imp_wlp [OF g_transfer [OF g singletonI o(3) r(1) o(1) refl o(2), where U = U]]
        transfer_not_null [OF d(1) x 1(3)]]], goal_cases)
    case (1 q' s1)
    let ?r = "(new_op OP_TYPE_UDP_SEND (udp_fd c) (op_buf_addr r))\<lparr>data_len := data_len r\<rparr>"
    have s1: "op_heap s1 q' = Some ?r" "q' \<noteq> NULL" using 1 by (auto simp: transferred_def)
    have "wlp (bnd (iouring_submit_udp_send U ctx q' (Some (conn_addr c)) (conn_addr_len c) None (data_len r)) (\<lambda>rc.
        if rc < 0 then bnd (io_op_free U ctx q') (\<lambda>_. ret (-1)) else ret 0)) (\<lambda>rc s'. rc = (0 :: int)) s1"
      by (rule wlp_bndI [OF udp_send_accepted [OF U s1(1) _ r(3) d(2,1) s1(2)]]) (use c in \<open>simp_all add: new_op_def wlp_prims\<close>)
    then show ?case using s1 by (auto intro!: wlp_loadI)
  qed
  then show ?case unfolding tun_to_udp_def
    by (intro wlp_loadI [where h = op_heap, OF r(1)] wlp_bndI [OF wp_imp_wlp [OF print_received [OF rc r(1)]]])
      (auto intro: wlp_loadI [where h = conn_heap, OF c(1)])
qed

text \<open>Releasing the read, whose buffer has gone to the send, changes no memory.\<close>

lemma free_single_effect:
  assumes "op_heap s p = Some r" and "\<not> is_multi r" and "op_buf_addr r = NULL" and "\<not> 0 \<le> buf_idx r"
  shows "wlp (io_op_free U ctx p) (\<lambda>_ s'. trace s' = trace s \<and> buf_heap s' = buf_heap s \<and> uring_state.more s' = uring_state.more s) s"
  using assms by (auto simp: wlp_def io_op_free_def iouring_put_io_op_def exec_simps split: if_splits option.splits)

text \<open>
  C5: When a TUN read completes, the event loop without encryption makes a whole turn and hands the kernel one send: its payload are the bytes that were
  read, its destination is the peer of the connection, and the next read is in flight. Two free operations, a free buffer and a kernel that
  accepts submissions are enough.
\<close>

theorem tun_packet_is_sent:
  assumes U: "recvmsg_ok U" "kernel_ok U ctx K" "accepting U" and g: "ginv ctx (q1 # q2 # ops) (b # bufs) {} s" and k: "K (kw s) (trace s)"
    and run: "sig_running P (kw s)" and w: "wait_cqe_timeout U (kw s) = ((0, c), k')" and r: "op_heap s (cqe_data c) = Some r" "op_type r = OP_TYPE_TUN_READ"
    and wr: "cqe_writes c = [(op_buffer r, packet)]" "cqe_res c = int (length packet)" "packet \<noteq> []"
    and conn: "conn_ok conn s" "conn_heap s conn = Some d" "0 \<le> udp_fd d"
  shows "\<exists>s' e. turn P U (Suc n) ctx (zero_packet U conn tunfd ctx) s s' \<and>
    inflight (trace s') = e # Sqe_read (op_fd r) (MBuf b) BUF_SIZE q1 # remove_sqe (cqe_data c) (inflight (trace s)) \<and>
    emits s' e = Some (To_peer (udp_fd d) (take (conn_addr_len d) (conn_addr d)) packet)"
proof -
  let ?p = "cqe_data c" and ?r = "r\<lparr>data_len := cqe_res c\<rparr>" and ?b = "op_buf_addr r"
  from wp_InrD [OF completed_read_is_returned [OF U g k w r _ wr(1), of n]] wr(2)
  obtain s1 y where s1: "wait_for_recv U (Suc n) ctx s = Inr (Some ?p, s1)" "received ctx ?p s1" "uinv ctx (q2 # ops) bufs s1"
    "uring_state.more s1 = uring_state.more s" "op_heap s1 ?p = Some ?r" "buf_bytes s1 ?b = Some y" "take (length packet) y = packet"
    "inflight (trace s1) = Sqe_read (op_fd r) (MBuf b) BUF_SIZE q1 # remove_sqe ?p (inflight (trace s))"
    by (auto simp del: wait_for_recv.simps)
  have ch: "conn_heap s1 = conn_heap s" using more_eqD(1) [OF s1(4)] .
  obtain Y where Y: "buf_heap s1 ?b = Some Y" "ba_buf Y = y" using s1(6) by (auto simp: buf_bytes_def)
  have c1: "conn_ok conn s1" "conn_heap s1 conn = Some d" using conn ch by (simp_all add: conn_ok_def)
  have z: "zero_packet U conn tunfd ctx ?p ?r s1 = tun_to_udp U conn ?p ctx s1" using r(2) by (simp add: zero_packet_def)
  obtain x where pool: "ctx_heap s1 ctx = Some x" "io_op_pool x \<noteq> NULL" using s1(3) by (auto simp: uinv_def)
  from wp_InrD [OF wp_wlp [OF tun_to_udp_ok [OF s1(2,5) _ c1(1), where U = U] wlp_conjI [OF
      tun_to_udp_effect [OF s1(2,5) _ c1(2), where U = U and y = Y] tun_to_udp_accepted [OF U(3) s1(2) pool s1(5) _ _ c1(2) conn(3)]]]]
    r(2) wr(2,3) Y(1)
  obtain s2 q h v where s2: "tun_to_udp U conn ?p ctx s1 = Inr (0, s2)" "handled U ctx ?p s1 0 s2"
    "inflight (trace s2) = Sqe_sendmsg (udp_fd d) h v q # inflight (trace s1)"
    "iov_base v = MBuf ?b" "iov_len v = length packet" "msg_name h = MAddr ?b" "msg_namelen h = conn_addr_len d"
    "buf_heap s2 = (buf_heap s1)(?b \<mapsto> Y\<lparr>ba_addr := overwrite 0 (take (conn_addr_len d) (conn_addr d)) (ba_addr Y)\<rparr>)"
    "op_heap s2 ?p = Some (?r\<lparr>op_buf_addr := NULL\<rparr>)"
    by auto
  obtain ops' bufs' where l: "ginv ctx ops' bufs' {?p} s1" "\<not> is_multi r" "?b \<noteq> NULL"
    by (rule receivedE [OF s1(2,5)]) (use r(2) in \<open>auto simp: op_type_defs\<close>)
  have ix: "buf_idx r = -1" using live_buf(4) [OF ginvD(1) [OF l(1)] s1(5) ginv_local(1) [OF l(1)]] l(3) by simp
  have h2: "gi ctx {?p} s2" "held ?p s2" using s2(2) by (auto simp: handled_def)
  from wp_InrD [OF wp_wlp [OF release_ok [OF h2, where U = U] free_single_effect [OF s2(9), where U = U and ctx = ctx]]] l(2) ix
  obtain x s3 where s3: "io_op_free U ctx ?p s2 = Inr (x, s3)" "trace s3 = trace s2" "buf_heap s3 = buf_heap s2" by auto
  have "turn P U (Suc n) ctx (zero_packet U conn tunfd ctx) s s3"
    by (rule turn.intros [OF run s1(1) _ s1(5) _ _ s3(1), where rc = 0]) (use z s2(1) uinv_live_nonnull [OF s1(3,5)] in simp_all)
  moreover have "inflight (trace s3) = Sqe_sendmsg (udp_fd d) h v q # Sqe_read (op_fd r) (MBuf b) BUF_SIZE q1 # remove_sqe ?p (inflight (trace s))"
    using s3(2) s2(3) s1(8) by simp
  moreover have "emits s3 (Sqe_sendmsg (udp_fd d) h v q) = Some (To_peer (udp_fd d) (take (conn_addr_len d) (conn_addr d)) packet)"
  proof -
    have la: "length (ba_addr Y) = SOCKADDR_STORAGE" using s1(3) Y(1) by (auto simp: uinv_def buf_sizes_def)
    have ly: "length packet \<le> length y" using s1(7) by (metis length_take min.cobounded1)
    have ld: "conn_addr_len d \<le> SOCKADDR_STORAGE" "length (conn_addr d) = SOCKADDR_STORAGE" using conn by (auto simp: conn_ok_def)
    show ?thesis using s2(4-7) s2(8) s3(3) s1(7) Y(2) l(3) la ly ld by (simp add: bytes_at_mem_def exec_simps)
  qed
  ultimately show ?thesis by blast
qed

section \<open>From the network to the TUN device\<close>

text \<open>
  \<open>datagram\<close>: the ring buffer \<open>buf\<close> of a completion holds a datagram of \<open>sender\<close> with the payload \<open>payload\<close>, as liburing's accessors see it.
\<close>

definition datagram :: "'k liburing \<Rightarrow> cqe \<Rightarrow> io_op \<Rightarrow> byte list \<Rightarrow> byte list \<Rightarrow> byte list \<Rightarrow> bool" where
  "datagram U c r buf sender payload \<longleftrightarrow> recvmsg_validate U buf (cqe_res c) (op_msg r) \<and> sender \<noteq> [] \<and> payload \<noteq> [] \<and>
     (\<exists>kn kp. recvmsg_name U buf = Some kn \<and> recvmsg_namelen U buf = length sender \<and> sender = take (length sender) (drop kn buf) \<and>
       recvmsg_payload U buf (op_msg r) = Some kp \<and>
       recvmsg_payload_length U buf (cqe_res c) (op_msg r) = int (length payload) \<and> payload = take (length payload) (drop kp buf))"

text \<open>The kernel writes into the ring buffer; the program reads address and payload out of it.\<close>

lemma dma_ring:
  assumes "ctx_heap s ctx = Some x" and "br_bufs x = Some mem"
  shows "wlp (dma [(MRing ctx off, bs)]) (\<lambda>_ s'. off + length bs \<le> length mem \<and>
    s' = s\<lparr>ctx_heap := (ctx_heap s)(ctx \<mapsto> x\<lparr>br_bufs := Some (overwrite off bs mem)\<rparr>)\<rparr>) s"
  using assms by (auto simp: wlp_def exec_simps split: if_splits)

lemma ring_buffer_after:
  "off + n \<le> length mem \<Longrightarrow> length bs \<le> n \<Longrightarrow> take n (drop off (overwrite off bs mem)) = overwrite 0 bs (take n (drop off mem))"
  by (simp add: overwrite_def drop_take add.commute)

lemma recvmsg_out_effect:
  assumes x: "ctx_heap s ctx = Some x" "br_bufs x = Some mem" and r: "op_heap s p = Some r" and f: "has_buffer f" "has_more f"
    and buf: "buf = take BUF_SIZE (drop (buffer_id f * BUF_SIZE) mem)"
    and d: "recvmsg_validate U buf (data_len r) (op_msg r)" "recvmsg_name U buf = Some kn" "recvmsg_namelen U buf \<noteq> 0"
      "recvmsg_payload U buf (op_msg r) = Some kp" "recvmsg_payload_length U buf (data_len r) (op_msg r) \<noteq> 0"
  shows "wlp (iouring_multishot_recvmsg_out U ctx p f) (\<lambda>rc s'. rc = 0 \<and> buffer_id f * BUF_SIZE + BUF_SIZE \<le> length mem \<and>
    s' = s\<lparr>op_heap := (op_heap s)(p \<mapsto> r\<lparr>buf_idx := int (buffer_id f), op_addr := MRing ctx (buffer_id f * BUF_SIZE + kn),
      op_addr_len := recvmsg_namelen U buf, op_buffer := MRing ctx (buffer_id f * BUF_SIZE + kp),
      data_len := recvmsg_payload_length U buf (data_len r) (op_msg r)\<rparr>)\<rparr>) s"
  using x r f d unfolding buf
  by (auto simp: wlp_def iouring_multishot_recvmsg_out_def recvmsg_parse_def mp_of_def Let_def exec_simps split: if_splits)


lemma handle_datagram:
  assumes x: "ctx_heap s ctx = Some x" "br_bufs x = Some mem" and r: "op_heap s p = Some r" "is_multi r" "op_type r = OP_TYPE_UDP_RECV"
    and f: "has_buffer (cqe_flags c)" "has_more (cqe_flags c)" and res: "0 \<le> cqe_res c" "p \<noteq> NULL"
    and buf: "buf = take BUF_SIZE (drop (buffer_id (cqe_flags c) * BUF_SIZE) mem)"
    and d: "recvmsg_validate U buf (cqe_res c) (op_msg r)" "recvmsg_name U buf = Some kn" "recvmsg_namelen U buf \<noteq> 0"
      "recvmsg_payload U buf (op_msg r) = Some kp" "recvmsg_payload_length U buf (cqe_res c) (op_msg r) = len" "len \<noteq> 0"
  shows "wlp (handle_completion U ctx p (cqe_res c) (cqe_flags c)) (\<lambda>w s'. w = Some p \<and> buffer_id (cqe_flags c) * BUF_SIZE + BUF_SIZE \<le> length mem \<and>
    s' = s\<lparr>op_heap := (op_heap s)(p \<mapsto> r\<lparr>buf_idx := int (buffer_id (cqe_flags c)), op_addr := MRing ctx (buffer_id (cqe_flags c) * BUF_SIZE + kn),
      op_addr_len := recvmsg_namelen U buf, op_buffer := MRing ctx (buffer_id (cqe_flags c) * BUF_SIZE + kp), data_len := len\<rparr>)\<rparr>) s"
proof -
  let ?r = "r\<lparr>data_len := cqe_res c\<rparr>" and ?s = "s\<lparr>op_heap := (op_heap s)(p \<mapsto> r\<lparr>data_len := cqe_res c\<rparr>)\<rparr>"
  let ?r' = "r\<lparr>buf_idx := int (buffer_id (cqe_flags c)), op_addr := MRing ctx (buffer_id (cqe_flags c) * BUF_SIZE + kn),
      op_addr_len := recvmsg_namelen U buf, op_buffer := MRing ctx (buffer_id (cqe_flags c) * BUF_SIZE + kp), data_len := len\<rparr>"
  let ?Q = "\<lambda>w s'. w = Some p \<and> buffer_id (cqe_flags c) * BUF_SIZE + BUF_SIZE \<le> length mem \<and> s' = s\<lparr>op_heap := (op_heap s)(p \<mapsto> ?r')\<rparr>"
  have "wlp (bnd (iouring_multishot_recvmsg_out U ctx p (cqe_flags c)) (\<lambda>rc. if rc < 0 then bnd (io_op_free U ctx p) (\<lambda>_. ret (Some NULL)) else ret (Some p))) ?Q ?s"
    by (rule wlp_bndI [OF recvmsg_out_effect [of ?s ctx x mem p ?r, OF _ x(2) _ f buf]]) (use x r d in \<open>auto simp: wlp_prims\<close>)
  then have "wlp (dispatch_completion U ctx p ?r (cqe_flags c)) ?Q ?s"
    using r by (simp add: dispatch_completion_def Let_def)
  then show ?thesis using r(1) res by (auto simp: wlp_def handle_completion_def exec_simps)
qed


lemma datagram_is_returned:
  assumes U: "recvmsg_ok U" "kernel_ok U ctx K" and g: "ginv ctx ops bufs {} s" and k: "K (kw s) (trace s)"
    and w: "wait_cqe_timeout U (kw s) = ((0, c), k')" and r: "op_heap s (cqe_data c) = Some r" "is_multi r"
    and f: "has_buffer (cqe_flags c)" "has_more (cqe_flags c)" and res: "0 \<le> cqe_res c"
    and x: "ctx_heap s ctx = Some x" "br_bufs x = Some mem"
    and wr: "off = buffer_id (cqe_flags c) * BUF_SIZE" "cqe_writes c = [(MRing ctx off, bs)]" "buf = overwrite 0 bs (take BUF_SIZE (drop off mem))"
    and d: "recvmsg_validate U buf (cqe_res c) (op_msg r)" "recvmsg_name U buf = Some kn" "recvmsg_namelen U buf \<noteq> 0"
      "recvmsg_payload U buf (op_msg r) = Some kp" "recvmsg_payload_length U buf (cqe_res c) (op_msg r) = len" "len \<noteq> 0"
  shows "wp (wait_for_recv U (Suc n) ctx) (\<lambda>got s'. got = Some (cqe_data c) \<and> received ctx (cqe_data c) s' \<and>
    uring_state.more s' = uring_state.more s \<and> op_heap s' (cqe_data c) = Some (r\<lparr>buf_idx := int (buffer_id (cqe_flags c)), op_addr := MRing ctx (off + kn),
      op_addr_len := recvmsg_namelen U buf, op_buffer := MRing ctx (off + kp), data_len := len\<rparr>) \<and>
    ctx_heap s' ctx = Some (x\<lparr>br_bufs := Some (overwrite off bs mem)\<rparr>) \<and> off + BUF_SIZE \<le> length mem \<and>
    take BUF_SIZE (drop off (overwrite off bs mem)) = buf \<and> length (overwrite off bs mem) = length mem \<and>
    inflight (trace s') = inflight (trace s)) s"
proof -
  let ?p = "cqe_data c" and ?m = "overwrite off bs mem"
  let ?r = "r\<lparr>buf_idx := int (buffer_id (cqe_flags c)), op_addr := MRing ctx (off + kn),
      op_addr_len := recvmsg_namelen U buf, op_buffer := MRing ctx (off + kp), data_len := len\<rparr>"
  from kernel_wait(2) [OF U(2) k w] obtain e where e: "e \<in> set (inflight (trace s))" "cqe_legal ctx (trace s) c e"
    by (auto simp: cqe_ok_def list_ex_iff)
  have p: "?p \<notin> set ops" using e linked_out [OF ginvD(2) [OF g]] by (force simp: cqe_legal_def outstanding_def)
  have ctx: "ctx \<noteq> NULL" using ginvD(1) [OF g] by (simp add: uinv_def)
  have pn: "?p \<noteq> NULL" by (rule uinv_live_nonnull [OF ginvD(1) [OF g] r(1)])
  have t: "op_type r = OP_TYPE_UDP_RECV" by (rule live_multi(2) [OF ginvD(1) [OF g] r(1) p r(2)])
  have "sqe_for ?p r e" using ginvD(2) [OF g] e r by (auto simp: linked_def cqe_legal_def)
  then have n: "length bs \<le> BUF_SIZE" using e(2) r(2) wr(2) by (cases e) (auto simp: cqe_legal_def)
  have "buffer_id (cqe_flags c) < nat (br_n_bufs (config x))" "length mem = BUF_SIZE * nat (br_n_bufs (config x))"
    using ginvD(1) [OF g] e(2) f(1) x by (auto simp: uinv_def own_def ring_ok_def cqe_legal_def)
  then have room: "off + BUF_SIZE \<le> length mem" using wr(1) by (simp add: BUF_SIZE_def)
  let ?Q = "\<lambda>got s'. got = Some ?p \<and> op_heap s' ?p = Some ?r \<and>
    ctx_heap s' ctx = Some (x\<lparr>br_bufs := Some ?m\<rparr>) \<and> off + BUF_SIZE \<le> length mem \<and>
    take BUF_SIZE (drop off ?m) = buf \<and> length ?m = length mem \<and> inflight (trace s') = inflight (trace s)"
  have "wlp (bnd (dma (cqe_writes c)) (\<lambda>_. bnd (iouring_cqe_seen U ctx c) (\<lambda>_.
      bnd (handle_completion U ctx ?p (cqe_res c) (cqe_flags c)) (\<lambda>r.
      case r of None \<Rightarrow> wait_for_recv U n ctx | Some p \<Rightarrow> ret (Some p))))) ?Q (s\<lparr>kw := k'\<rparr>)"
    unfolding wr(2)
  proof (rule wlp_bndI [OF dma_ring [OF _ x(2)]], use x in simp, goal_cases)
    case (1 _ s1)
    let ?x = "x\<lparr>br_bufs := Some ?m\<rparr>"
    let ?s = "s1\<lparr>kw := cqe_seen U (kw s1), trace := Ev_cqe ?p (cqe_flags c) # trace s1\<rparr>"
    have l: "length ?m = length mem" using 1 by simp
    have "wlp (bnd (handle_completion U ctx ?p (cqe_res c) (cqe_flags c)) (\<lambda>r.
      case r of None \<Rightarrow> wait_for_recv U n ctx | Some p \<Rightarrow> ret (Some p))) ?Q ?s"
    proof -
      have b: "buf = take BUF_SIZE (drop off ?m)" using ring_buffer_after [OF room n] wr(3) by simp
      show ?thesis
        by (rule wlp_bndI [OF handle_datagram [of ?s ctx ?x ?m ?p r, OF _ _ _ r(2) t f res pn _ d, folded wr(1)]])
          (use 1 x r b l f in \<open>simp_all add: wlp_prims\<close>)
    qed
    then show ?case using ctx by (simp add: wlp_def iouring_cqe_seen_def exec_simps)
  qed
  then have "wlp (wait_for_recv U (Suc n) ctx) ?Q s" unfolding wlp_def wait_completion [OF ctx w order.irrefl] bnd_assoc .
  moreover have "gi ctx {} s" using g by (auto simp: gi_def)
  ultimately show ?thesis using pn
    by (intro wp_conseq [OF wp_wlp [OF wait_for_recv_ok [OF U(1,2) _ k]]]) (auto simp: outcome_def kept_wait_def simp del: wait_for_recv.simps)
qed


text \<open>The received payload goes on to the TUN device, and the multishot operation gives its buffer away.\<close>

lemma datagram_is_passed:
  assumes U: "accepting U" and rc: "received ctx p s" and r: "op_heap s p = Some r" "is_multi r" "0 < data_len r"
    and x: "ctx_heap s ctx = Some x" "io_op_pool x \<noteq> NULL" and fd: "0 \<le> tunfd"
  shows "wlp (udp_to_tun U tunfd p ctx) (\<lambda>rc s'. rc = 0 \<and> map_option br_bufs (ctx_heap s' ctx) = Some (br_bufs x) \<and>
    op_heap s' p = Some (r\<lparr>buf_idx := DO_NOT_FREE\<rparr>) \<and>
    (\<exists>q. inflight (trace s') = Sqe_write tunfd (op_buffer r) (nat (data_len r)) q # inflight (trace s))) s"
proof (rule receivedE [OF rc r(1)], goal_cases)
  case (1 ops bufs)
  have g: "gi ctx {p} s" using 1 by (auto simp: gi_def)
  have d: "ctx \<noteq> NULL" "data_len r \<le> int BUF_SIZE" using 1(1,2) by (auto simp: ginv_def uinv_def packet_ok_def)
  let ?Q = "\<lambda>rc s'. rc = 0 \<and> map_option br_bufs (ctx_heap s' ctx) = Some (br_bufs x) \<and>
    op_heap s' p = Some (r\<lparr>buf_idx := DO_NOT_FREE\<rparr>) \<and>
    (\<exists>q. inflight (trace s') = Sqe_write tunfd (op_buffer r) (nat (data_len r)) q # inflight (trace s))"
  have "wlp (bnd (io_op_alloc_buf ctx OP_TYPE_TUN_WRITE tunfd False p) (\<lambda>send_op.
     if send_op = NULL then ret (-1) else
     bnd (load op_heap p) (\<lambda>r.
     bnd (iouring_submit_tun_write U ctx send_op None (data_len r)) (\<lambda>rc.
     if rc < 0 then bnd (io_op_free U ctx send_op) (\<lambda>_. ret (-1)) else ret 0)))) ?Q s"
  proof (rule wlp_bndI [OF wlp_conjI [OF wp_imp_wlp [OF g_transfer_ring [OF g singletonI r(1,2), where U = U]]
        transfer_not_null [OF d(1) x 1(3)]]], goal_cases)
    case (1 q s1)
    let ?r = "zero_op\<lparr>op_type := OP_TYPE_TUN_WRITE, op_fd := tunfd, buf_idx := buf_idx r, op_buffer := op_buffer r, data_len := data_len r\<rparr>"
    have s1: "q \<noteq> NULL" "op_heap s1 q = Some ?r" "op_heap s1 p = Some (r\<lparr>buf_idx := DO_NOT_FREE\<rparr>)" "trace s1 = trace s"
      "map_option br_bufs (ctx_heap s1 ctx) = Some (br_bufs x)"
      using 1 by (auto simp: transferred_def)
    have "wlp (bnd (iouring_submit_tun_write U ctx q None (data_len r)) (\<lambda>rc.
        if rc < 0 then bnd (io_op_free U ctx q) (\<lambda>_. ret (-1)) else ret 0)) ?Q s1"
      by (rule wlp_bndI [OF wlp_conjI [OF tun_write_effect [OF s1(2)] tun_write_accepted [OF U s1(2) _ r(3) d(2,1) s1(1)]]])
        (use s1 fd in \<open>auto simp: wlp_prims\<close>)
    then show ?case using s1 by (auto intro!: wlp_loadI)
  qed
  then show ?case unfolding udp_to_tun_def
    by (intro wlp_loadI [where h = op_heap, OF r(1)] wlp_bndI [OF wp_imp_wlp [OF print_received [OF rc r(1)]]]) auto
qed


lemma set_peer_effect:
  assumes d: "conn_heap s conn = Some d" "length (conn_addr d) = SOCKADDR_STORAGE"
    and r: "op_addr r = MRing ctx a" "op_addr_len r = length adr"
    and x: "ctx_heap s ctx = Some x" "br_bufs x = Some mem" and adr: "take (length adr) (drop a mem) = adr"
  shows "wlp (set_peer conn r) (\<lambda>_ s'. s' = s\<lparr>conn_heap := (conn_heap s)(conn \<mapsto> d\<lparr>conn_addr := overwrite 0 adr (conn_addr d), conn_addr_len := length adr\<rparr>)\<rparr>) s"
proof -
  let ?d = "d\<lparr>conn_addr := overwrite 0 adr (conn_addr d), conn_addr_len := length adr\<rparr>"
  let ?s = "s\<lparr>conn_heap := (conn_heap s)(conn \<mapsto> ?d)\<rparr>"
  have a: "wlp (addr_to_string (\<lambda>_. []) (conn_addr ?d)) (\<lambda>_ s'. s' = ?s) ?s" if "length adr \<le> SOCKADDR_STORAGE"
    by (rule wp_imp_wlp [OF addr_to_string_wp]) (use that d(2) in \<open>simp add: SOCKADDR_STORAGE_def\<close>)
  have "wlp (bnd (addr_to_string (\<lambda>_. []) (conn_addr ?d)) (\<lambda>_. ret ())) (\<lambda>_ s'. s' = ?s) ?s" if "length adr \<le> SOCKADDR_STORAGE"
    by (rule wlp_bndI [OF a [OF that]]) (simp add: wlp_prims)
  then show ?thesis using d(1) r x adr by (auto simp: wlp_def set_peer_def upd_conn_def exec_simps split: if_splits)
qed

lemma free_transferred:
  assumes "op_heap s p = Some r" and "p \<noteq> NULL" and "is_multi r" and "buf_idx r = DO_NOT_FREE"
  shows "io_op_free U ctx p s = Inr (p, s)"
  using assms by (simp add: io_op_free_def exec_simps DO_NOT_FREE_def)

lemma window_length:
  assumes "take (length w) (drop k m) = w" and "w \<noteq> []"
  shows "k + length w \<le> length m"
proof -
  have "length w \<le> length m - k" using arg_cong [OF assms(1), of length] by simp
  then show ?thesis using assms(2) by (cases "k \<le> length m") auto
qed

lemma window_in: "k + n \<le> N \<Longrightarrow> take n (drop k (take N (drop off m))) = take n (drop (off + k) m)"
  by (simp add: drop_take min_def add.commute)

lemma wp_unitD: "wp m (\<lambda>_ s'. s' = t) s \<Longrightarrow> m s = Inr ((), t)"
  by (auto simp: wp_def split: sum.splits)

text \<open>
  C6: When a datagram completes the multishot receive, the event loop without encryption makes a whole turn and hands the kernel one write to the TUN
  device of exactly its payload, while the receive stays in flight. The first datagram makes its sender the peer of the connection.
\<close>

theorem datagram_is_written:
  assumes U: "recvmsg_ok U" "kernel_ok U ctx K" "accepting U" and g: "ginv ctx (q # ops) bufs {} s" and k: "K (kw s) (trace s)"
    and run: "sig_running P (kw s)" and w: "wait_cqe_timeout U (kw s) = ((0, c), k')" and r: "op_heap s (cqe_data c) = Some r" "is_multi r"
    and f: "has_buffer (cqe_flags c)" "has_more (cqe_flags c)" and res: "0 \<le> cqe_res c"
    and x: "ctx_heap s ctx = Some x" "br_bufs x = Some mem"
    and wr: "off = buffer_id (cqe_flags c) * BUF_SIZE" "cqe_writes c = [(MRing ctx off, bs)]"
    and dg: "datagram U c r (overwrite 0 bs (take BUF_SIZE (drop off mem))) sender packet"
    and conn: "conn_ok conn s" "conn_heap s conn = Some d" and fd: "0 \<le> tunfd"
  shows "\<exists>s' e. turn P U (Suc n) ctx (zero_packet U conn tunfd ctx) s s' \<and>
    inflight (trace s') = e # inflight (trace s) \<and> emits s' e = Some (To_tun tunfd packet) \<and>
    conn_heap s' conn = Some (if conn_addr_len d = 0 then d\<lparr>conn_addr := overwrite 0 sender (conn_addr d), conn_addr_len := length sender\<rparr> else d)"
proof -
  let ?p = "cqe_data c" and ?buf = "overwrite 0 bs (take BUF_SIZE (drop off mem))" and ?m = "overwrite off bs mem"
  obtain kn kp where dk: "recvmsg_validate U ?buf (cqe_res c) (op_msg r)" "recvmsg_name U ?buf = Some kn" "recvmsg_namelen U ?buf = length sender"
      "recvmsg_payload U ?buf (op_msg r) = Some kp" "recvmsg_payload_length U ?buf (cqe_res c) (op_msg r) = int (length packet)"
      "take (length sender) (drop kn ?buf) = sender" "take (length packet) (drop kp ?buf) = packet" "sender \<noteq> []" "packet \<noteq> []"
    using dg unfolding datagram_def by metis
  let ?r = "r\<lparr>buf_idx := int (buffer_id (cqe_flags c)), op_addr := MRing ctx (off + kn),
      op_addr_len := length sender, op_buffer := MRing ctx (off + kp), data_len := int (length packet)\<rparr>"
  from wp_InrD [OF datagram_is_returned [OF U(1,2) g k w r f res x wr refl dk(1,2) _ dk(4,5), of n]] dk(3,8,9)
  obtain s1 where s1: "wait_for_recv U (Suc n) ctx s = Inr (Some ?p, s1)" "received ctx ?p s1" "uring_state.more s1 = uring_state.more s"
    "op_heap s1 ?p = Some ?r" "ctx_heap s1 ctx = Some (x\<lparr>br_bufs := Some ?m\<rparr>)" "off + BUF_SIZE \<le> length mem"
    "take BUF_SIZE (drop off ?m) = ?buf" "length ?m = length mem" "inflight (trace s1) = inflight (trace s)"
    by (auto simp del: wait_for_recv.simps overwrite_0)
  have len: "kn + length sender \<le> BUF_SIZE" "kp + length packet \<le> BUF_SIZE"
    using window_length [OF dk(6,8)] window_length [OF dk(7,9)] arg_cong [OF s1(7), of length] s1(6,8) by simp_all
  have win: "take (length sender) (drop (off + kn) ?m) = sender" "take (length packet) (drop (off + kp) ?m) = packet"
    using dk(6,7) window_in [OF len(1), of off ?m] window_in [OF len(2), of off ?m] s1(7) by simp_all
  let ?d = "if conn_addr_len d = 0 then d\<lparr>conn_addr := overwrite 0 sender (conn_addr d), conn_addr_len := length sender\<rparr> else d"
  let ?s = "s1\<lparr>conn_heap := (conn_heap s1)(conn \<mapsto> ?d)\<rparr>"
  have c: "conn \<noteq> NULL" "conn_heap s1 conn = Some d" "conn_ok conn s1" "length (conn_addr d) = SOCKADDR_STORAGE"
    using conn more_eqD(1) [OF s1(3)] by (auto simp: conn_ok_def)
  have t: "op_type r = OP_TYPE_UDP_RECV" using s1(2,4) r(2) by (simp add: received_def)
  have peer: "(if conn_addr_len d = 0 then set_peer conn ?r else ret ()) s1 = Inr ((), ?s)"
  proof (cases "conn_addr_len d = 0")
    case True
    let ?s0 = "s1\<lparr>conn_heap := (conn_heap s1)(conn \<mapsto> d\<lparr>conn_addr := overwrite 0 sender (conn_addr d), conn_addr_len := length sender\<rparr>)\<rparr>"
    have "wp (set_peer conn ?r) (\<lambda>_ s'. (conn_ok conn s' \<and> (\<exists>h. s' = s1\<lparr>conn_heap := h\<rparr>)) \<and> s' = ?s0) s1"
      by (rule wp_wlp [OF set_peer_ok [OF s1(2,4) _ c(3)] set_peer_effect [OF c(2,4) _ _ s1(5) _ win(1)]]) (use t in simp_all)
    then have "set_peer conn ?r s1 = Inr ((), ?s0)" by (rule wp_unitD [OF wp_conseq]) simp
    then show ?thesis using True by (simp only: if_True refl)
  next
    case False
    then show ?thesis using c(2) by (simp add: ret_def fun_upd_idem)
  qed
  have rs: "received ctx ?p ?s" by (rule received_env [OF s1(2)]) simp_all
  have rs': "op_heap ?s ?p = Some ?r" "ctx_heap ?s ctx = Some (x\<lparr>br_bufs := Some ?m\<rparr>)" using s1(4,5) by simp_all
  have pool: "io_op_pool (x\<lparr>br_bufs := Some ?m\<rparr>) \<noteq> NULL" using ginvD(1) [OF g] x(1) by (auto simp: uinv_def)
  from wp_InrD [OF wp_wlp [OF udp_to_tun_ok [OF rs rs'(1), where U = U and tunfd = tunfd]
      datagram_is_passed [OF U(3) rs rs'(1) _ _ rs'(2) pool fd]]] r(2) dk(9)
  obtain s2 q' where s2: "udp_to_tun U tunfd ?p ctx ?s = Inr (0, s2)" "uring_state.more s2 = uring_state.more ?s"
    "map_option br_bufs (ctx_heap s2 ctx) = Some (Some ?m)" "op_heap s2 ?p = Some (?r\<lparr>buf_idx := DO_NOT_FREE\<rparr>)"
    "inflight (trace s2) = Sqe_write tunfd (MRing ctx (off + kp)) (length packet) q' # inflight (trace s)"
    using s1(9) by auto
  have pn: "?p \<noteq> NULL" by (rule uinv_live_nonnull [OF ginvD(1) [OF g] r(1)])
  have "turn P U (Suc n) ctx (zero_packet U conn tunfd ctx) s s2"
    by (rule turn.intros [OF run s1(1) pn s1(4) _ _ free_transferred [OF s2(4) pn], where rc = 0])
      (use c t peer s2(1) r(2) in \<open>simp_all add: zero_packet_def op_type_defs exec_simps\<close>)
  moreover have "emits s2 (Sqe_write tunfd (MRing ctx (off + kp)) (length packet) q') = Some (To_tun tunfd packet)"
    using s2(3) win(2) len(2) s1(6,8) ginvD(1) [OF g] by (auto simp: bytes_at_mem_def exec_simps uinv_def)
  moreover have "conn_heap s2 conn = Some ?d" using more_eqD(1) [OF s2(2)] by simp
  ultimately show ?thesis using s2(5) by blast
qed

section \<open>Witnesses\<close>

lemma sample_accepting: "accepting sample_uring"
  by (simp add: accepting_def sample_uring_def)

theorem tun_packet_is_sent_witness:
  "\<exists>s' e. turn sample_posix sample_uring 1 1 (zero_packet sample_uring 10 8 1) sample_state s' \<and>
    inflight (trace s') = [e, Sqe_read 8 (MBuf 5) BUF_SIZE 2, Sqe_recvmsg_multishot 9 6 1 6] \<and>
    emits s' e = Some (To_peer 9 (replicate 16 0) sample_packet)"
proof -
  let ?r = "new_op OP_TYPE_TUN_READ 8 4"
  let ?c = "\<lparr>cqe_data = 3, cqe_res = 20, cqe_flags = 0, cqe_writes = [(MBuf 4, sample_packet)]\<rparr>"
  have w: "wait_cqe_timeout sample_uring (kw sample_state) = ((0, ?c), sample_inflight)"
    by (simp add: sample_uring_def sample_state_def sample_inflight_def sample_packet_def BUF_SIZE_def)
  have r: "op_heap sample_state (cqe_data ?c) = Some ?r" "op_type ?r = OP_TYPE_TUN_READ" "op_buffer ?r = MBuf 4"
    by (simp_all add: sample_state_def sample_ops_def new_op_def)
  have c: "conn_heap sample_state 10 = Some sample_conn" "0 \<le> udp_fd sample_conn" by (simp_all add: sample_state_def sample_conn_def)
  from tun_packet_is_sent [OF sample_recvmsg_ok sample_kernel_ok sample_accepting sample_ginv sample_knows_state _ w r(1,2) _ _ _ sample_conn_ok c,
      of sample_posix sample_packet 0 8] r(3)
  show ?thesis
    by (simp add: sample_packet_def sample_posix_def sample_conn_def zero_conn_def SOCKADDR_STORAGE_def sample_state_def sample_inflight_def new_op_def)
qed

text \<open>A kernel that has one datagram for the sample program, and then nothing.\<close>

definition one_datagram :: "byte list" where
  "one_datagram = replicate 16 0 @ (2 # replicate 127 0) @ sample_packet"

definition datagram_cqe :: cqe where
  "datagram_cqe = \<lparr>cqe_data = 6, cqe_res = 164, cqe_flags = 3, cqe_writes = [(MRing 1 0, one_datagram)]\<rparr>"

definition datagram_uring :: "sqe list liburing" where
  "datagram_uring = sample_uring\<lparr>prep := \<lambda>e k. k, cqe_seen := \<lambda>k. [],
     wait_cqe_timeout := \<lambda>k. (if k = [] then (-ETIME, no_cqe) else (0, datagram_cqe), k)\<rparr>"

definition datagram_waits :: "sqe list \<Rightarrow> event list \<Rightarrow> bool" where
  "datagram_waits k tr \<longleftrightarrow> k = [] \<or> Sqe_recvmsg_multishot 9 6 1 6 \<in> set (inflight tr) \<and> 0 \<in> set (provided tr) \<and> Ev_br_add 0 0 0 \<in> set tr"

lemma datagram_uring_ok: "recvmsg_ok datagram_uring" "accepting datagram_uring"
  by (simp_all add: recvmsg_ok_def accepting_def datagram_uring_def sample_uring_def SOCKADDR_STORAGE_def RECVMSG_OUT_SIZE_def BUF_SIZE_def)

lemma datagram_kernel_ok: "kernel_ok datagram_uring 1 datagram_waits"
proof -
  have off: "inflight (e # tr) = inflight tr" "provided (e # tr) = provided tr" if "off_ring e" for e tr using that by (cases e; simp)+
  have leg: "cqe_ok 1 tr datagram_cqe" if "datagram_waits k tr" "k \<noteq> []" for k tr
    using that by (fastforce simp: datagram_waits_def cqe_ok_def list_ex_iff cqe_legal_def datagram_cqe_def one_datagram_def sample_packet_def BUF_SIZE_def
      intro!: bexI [of _ "Sqe_recvmsg_multishot 9 6 1 6"])
  show ?thesis unfolding kernel_ok_def
  proof (intro allI impI conjI, goal_cases)
    case (7 k tr)
    then show ?case using leg [OF 7] by (auto simp: datagram_uring_def ETIME_def datagram_waits_def)
  qed (auto simp: datagram_uring_def sample_uring_def datagram_waits_def off)
qed

theorem datagram_is_written_witness:
  "\<exists>s' e. turn sample_posix datagram_uring 1 1 (zero_packet datagram_uring 10 8 1) sample_state s' \<and>
    inflight (trace s') = e # sample_inflight \<and> emits s' e = Some (To_tun 8 sample_packet)"
proof -
  let ?r = "(new_multi_op OP_TYPE_UDP_RECV 9)\<lparr>op_msg := (op_msg zero_op)\<lparr>msg_namelen := SOCKADDR_STORAGE\<rparr>\<rparr>"
  let ?ring = "replicate BUF_SIZE 0 :: byte list" and ?x = sample_ctx
  have k: "datagram_waits (kw sample_state) (trace sample_state)" by (simp add: datagram_waits_def sample_state_def sample_inflight_def)
  have w: "wait_cqe_timeout datagram_uring (kw sample_state) = ((0, datagram_cqe), sample_inflight)"
    by (simp add: datagram_uring_def sample_state_def sample_inflight_def)
  have r: "op_heap sample_state (cqe_data datagram_cqe) = Some ?r" "is_multi ?r"
    by (simp_all add: sample_state_def sample_ops_def datagram_cqe_def new_multi_op_def)
  have f: "has_buffer (cqe_flags datagram_cqe)" "has_more (cqe_flags datagram_cqe)" "0 \<le> cqe_res datagram_cqe" by (simp_all add: datagram_cqe_def)
  have x: "ctx_heap sample_state 1 = Some ?x" "br_bufs ?x = Some ?ring" by (simp_all add: sample_state_def sample_ctx_def)
  have wr: "0 = buffer_id (cqe_flags datagram_cqe) * BUF_SIZE" "cqe_writes datagram_cqe = [(MRing 1 0, one_datagram)]"
    by (simp_all add: datagram_cqe_def)
  have dg: "datagram datagram_uring datagram_cqe ?r (overwrite 0 one_datagram (take BUF_SIZE (drop 0 ?ring))) (2 # replicate 15 0) sample_packet"
    by (simp add: datagram_def datagram_uring_def sample_uring_def datagram_cqe_def one_datagram_def sample_packet_def)
  have c: "conn_heap sample_state 10 = Some sample_conn" by (simp add: sample_state_def sample_conn_def)
  from datagram_is_written [OF datagram_uring_ok(1) datagram_kernel_ok datagram_uring_ok(2) sample_ginv k _ w r f x wr dg sample_conn_ok c, of sample_posix 8 0]
  have "\<exists>s' e. turn sample_posix datagram_uring 1 1 (zero_packet datagram_uring 10 8 1) sample_state s' \<and>
    inflight (trace s') = e # inflight (trace sample_state) \<and> emits s' e = Some (To_tun 8 sample_packet)"
    by (auto simp: sample_posix_def)
  then show ?thesis by (simp add: sample_state_def sample_inflight_def)
qed

end
