(* ===== verification/Cipher_Flow.thy ===== *)
theory Cipher_Flow
  imports Plaintext Delivery
begin

text \<open>
  What the DTLS edge does with a packet. \<open>tls_io\<close> is the traffic between the program and OpenSSL, \<open>emits\<close> (\<open>Delivery\<close>) what the kernel is made to send.
  The handler of the event loop passes every packet through the SSL object of its connection exactly once, and what it hands to the kernel are the bytes
  OpenSSL has produced: nothing leaves the host unencrypted, and nothing reaches the TUN device that OpenSSL has not accepted.
\<close>

section \<open>The traffic with OpenSSL\<close>

fun tls_io_event :: "event \<Rightarrow> bool" where
  "tls_io_event (Ev_ssl_write p bs) = True"
| "tls_io_event (Ev_ssl_read p bs) = True"
| "tls_io_event (Ev_bio_write p bs) = True"
| "tls_io_event (Ev_bio_read p bs) = True"
| "tls_io_event _ = False"

definition tls_io :: "event list \<Rightarrow> event list" where
  "tls_io tr = filter tls_io_event tr"

lemma tls_io_Cons [simp]: "tls_io (e # tr) = (if tls_io_event e then e # tls_io tr else tls_io tr)"
  by (simp add: tls_io_def)

text \<open>The entries that make the kernel send something.\<close>

fun outgoing :: "event list \<Rightarrow> sqe list" where
  "outgoing [] = []"
| "outgoing (Ev_prep e # tr) = (if send_entry (Ev_prep e) then e # outgoing tr else outgoing tr)"
| "outgoing (_ # tr) = outgoing tr"

lemma outgoing_off_ring: "list_all off_ring evs \<Longrightarrow> outgoing (evs @ tr) = outgoing tr"
proof (induction evs)
  case (Cons e evs)
  then show ?case by (cases e) auto
qed simp

lemma tls_step_outgoing: "tls_step s s' \<Longrightarrow> outgoing (trace s') = outgoing (trace s)"
  by (auto simp: tls_step_def outgoing_off_ring)

text \<open>Waiting for a packet prepares receives only and has nothing to do with OpenSSL.\<close>

definition no_output :: "('k, 't) net_state \<Rightarrow> ('k, 't) net_state \<Rightarrow> bool" where
  "no_output s s' \<longleftrightarrow> outgoing (trace s') = outgoing (trace s) \<and> tls_io (trace s') = tls_io (trace s) \<and> conn_heap s' = conn_heap s"

interpretation receiving: recv_frame no_output "\<lambda>e. \<not> send_entry e \<and> \<not> tls_io_event e" P U for P U
proof (unfold_locales, goal_cases)
  case (9 e s)
  then show ?case by (cases e) (auto simp: no_output_def)
next
  case (10 e)
  then show ?case by (cases e) auto
qed (auto simp: no_output_def)

text \<open>Encryption: the packet is written, its ciphertext is read from the write BIO.\<close>

lemma encrypt_io:
  assumes "conn_heap s conn = Some c"
  shows "wlp (dtls_encrypt_packet T conn d n cap) (\<lambda>(got, bs) s'. 0 \<le> got \<longrightarrow>
    trace s' = Ev_bio_read (wbio c) bs # Ev_ssl_write (conn_ssl c) (take (nat n) d) # trace s) s"
  using assms
  by (auto simp: wlp_def dtls_encrypt_packet_def SSL_write_def BIO_read_def SSL_get_error_def dtls_get_error_string_def with_ssl_def exec_simps
    split: if_splits prod.splits)

text \<open>Decryption: the datagram is written to the read BIO, and one \<^verbatim>\<open>SSL_read\<close> at most delivers a packet.\<close>

definition read_once :: "ptr \<Rightarrow> event list \<Rightarrow> int \<times> byte list \<times> int \<Rightarrow> ('k, 't) net_state \<Rightarrow> bool" where
  "read_once ssl tr = (\<lambda>(got, bs, err) s. (if got \<le> 0 then trace s = tr else trace s = Ev_ssl_read ssl bs # tr) \<and>
     (err \<noteq> SSL_ERROR_NONE \<longrightarrow> got \<le> 0))"

lemma one_read:
  assumes "ssl_error_exact T"
  shows "wlp (bnd (SSL_read T ssl n) (\<lambda>(rd, bs). bnd (SSL_get_error T ssl rd) (\<lambda>err. ret (rd, bs, err)))) (read_once ssl (trace s)) s"
  using assms
  by (auto simp: wlp_def SSL_read_def SSL_get_error_def with_ssl_def exec_simps read_once_def ssl_error_exact_def
    split: if_splits prod.splits) 

lemma bnd_split: "bnd (case x of (a, b) \<Rightarrow> f a b) g = (case x of (a, b) \<Rightarrow> bnd (f a b) g)"
  by (cases x) simp

lemma retry_io:
  assumes T: "ssl_error_exact T"
  shows "read_once ssl tr (got, bs, err) s \<Longrightarrow> err \<noteq> SSL_ERROR_NONE \<Longrightarrow> wlp (ssl_read_retry T ssl n i (got, bs, err)) (read_once ssl tr) s"
proof (induction i arbitrary: got bs err s)
  case 0
  then show ?case by (simp add: wlp_prims)
next
  case (Suc i)
  then have tr: "trace s = tr" by (auto simp: read_once_def split: if_splits)
  have "wlp (bnd (bnd (SSL_read T ssl n) (\<lambda>(rd, bs). bnd (SSL_get_error T ssl rd) (\<lambda>err. ret (rd, bs, err))))
      (\<lambda>(rd, bs, err). if err \<noteq> SSL_ERROR_WANT_READ then ret (rd, bs, err) else ssl_read_retry T ssl n i (rd, bs, err))) (read_once ssl tr) s"
    by (rule wlp_bndI [OF one_read [OF T]]) (use tr Suc.IH in \<open>auto simp: wlp_prims ssl_error_defs\<close>)
  then show ?case by (simp add: bnd_assoc bnd_split bnd_ret)
qed

lemma decrypt_io:
  assumes T: "ssl_error_exact T" and c: "conn_heap s conn = Some c"
  shows "wlp (dtls_decrypt_packet T conn d n cap) (\<lambda>(got, bs) s'. 0 < got \<longrightarrow>
    trace s' = Ev_ssl_read (conn_ssl c) bs # Ev_bio_write (rbio c) (take (nat n) d) # trace s) s"
proof -
  let ?Q = "\<lambda>(got :: int, bs) s'. 0 < got \<longrightarrow> trace s' = Ev_ssl_read (conn_ssl c) bs # Ev_bio_write (rbio c) (take (nat n) d) # trace s"
  have w: "wlp (BIO_write T (rbio c) d n) (\<lambda>w s'. 0 < w \<longrightarrow> trace s' = Ev_bio_write (rbio c) (take (nat n) d) # trace s) s"
    by (auto simp: wlp_def BIO_write_def exec_simps split: if_splits prod.splits)
  let ?tail = "\<lambda>(rd, bs, err). if err \<noteq> SSL_ERROR_NONE then
       (if err = SSL_ERROR_ZERO_RETURN then ret (-1, [])
        else bnd (dtls_get_error_string T (conn_ssl c) rd) (\<lambda>_. ret (-1, [])))
     else ret (rd, bs)"
  let ?ev = "Ev_bio_write (rbio c) (take (nat n) d) # trace s"
  have fin: "wlp (?tail x) ?Q s'" if "read_once (conn_ssl c) ?ev x s'" for x s'
    using that by (cases x) (auto simp: wlp_def read_once_def dtls_get_error_string_def SSL_get_error_def with_ssl_def exec_simps split: if_splits)
  have "wlp (bnd (bnd (SSL_read T (conn_ssl c) n) (\<lambda>(rd, bs). bnd (SSL_get_error T (conn_ssl c) rd) (\<lambda>err. ret (rd, bs, err))))
      (\<lambda>(rd, bs, err). bnd (if err = SSL_ERROR_WANT_READ then ssl_read_retry T (conn_ssl c) n 4 (rd, bs, err) else ret (rd, bs, err)) ?tail)) ?Q s1"
    if "trace s1 = ?ev" for s1
  proof (rule wlp_bndI [OF one_read [OF T]], goal_cases)
    case (1 x s2)
    obtain a b e where x: "x = (a, b, e)" by (cases x) auto
    have "wlp (if e = SSL_ERROR_WANT_READ then ssl_read_retry T (conn_ssl c) n 4 x else ret x) (read_once (conn_ssl c) ?ev) s2"
      using 1 that retry_io [OF T, of "conn_ssl c" ?ev a b e s2] by (auto simp: x wlp_prims ssl_error_defs)
    then have "wlp (bnd (if e = SSL_ERROR_WANT_READ then ssl_read_retry T (conn_ssl c) n 4 x else ret x) ?tail) ?Q s2"
      by (rule wlp_bndI) (rule fin)
    then show ?case unfolding x by simp
  qed
  then have body: "wlp (bnd (SSL_read T (conn_ssl c) n) (\<lambda>(rd, bs). bnd (SSL_get_error T (conn_ssl c) rd) (\<lambda>err.
      bnd (if err = SSL_ERROR_WANT_READ then ssl_read_retry T (conn_ssl c) n 4 (rd, bs, err) else ret (rd, bs, err)) ?tail))) ?Q s1"
    if "trace s1 = ?ev" for s1 using that by (simp add: bnd_assoc bnd_split bnd_ret)
  have "wlp (bnd (c_assert (n < cap)) (\<lambda>_. m)) ?Q s1" if "wlp m ?Q s1" for m s1
    by (rule wlp_bndI [where R = "\<lambda>_ s'. s' = s1"]) (use that in \<open>auto simp: wlp_prims\<close>)
  then show ?thesis unfolding dtls_decrypt_packet_def
    by (intro wlp_loadI [where h = conn_heap, OF c] wlp_bndI [OF w]) (use body in \<open>auto simp: wlp_prims\<close>)
qed

section \<open>Memory and submissions\<close>

lemma bytes_object:
  assumes "bytes_at_mem s m n = Some bs"
  shows "wlp (object_at m) (\<lambda>x s'. s' = s \<and> take n x = bs \<and> n \<le> length x) s"
  using assms by (cases m) (auto simp: wlp_def bytes_at_mem_def exec_simps split: if_splits option.splits)

lemma alloc_same_bytes:
  "wlp (io_op_alloc ctx typ fd False) (\<lambda>_ s'. bytes_at_mem s' m n = bytes_at_mem s m n) s"
  by (cases m) (auto simp: wlp_def io_op_alloc_def io_op_alloc_buf_def iouring_get_io_op_def iouring_get_buf_addr_def iouring_put_io_op_def
    exec_simps Let_def bytes_at_mem_def split: if_splits option.splits)

lemma store_bytes_trace: "store_bytes m bs s = Inr (u, s') \<Longrightarrow> trace s' = trace s"
  by (cases m) (auto simp: exec_simps split: if_splits option.splits)

text \<open>What a submission does, whether it succeeds or not: nothing, or one more entry.\<close>

lemma udp_send_io:
  assumes "op_heap s q = Some r" and "op_buffer r = MBuf b" and "op_addr r = MAddr b" and "buf_heap s b = Some y"
  shows "wlp (iouring_submit_udp_send U ctx q (Some adr) al None len) (\<lambda>rc s'. (rc = 0 \<or> rc = -1) \<and> tls_io (trace s') = tls_io (trace s) \<and>
    (rc = -1 \<and> outgoing (trace s') = outgoing (trace s) \<or>
     (\<exists>h v. outgoing (trace s') = Sqe_sendmsg (op_fd r) h v q # outgoing (trace s) \<and>
      iov_base v = MBuf b \<and> iov_len v = nat len \<and> msg_name h = MAddr b \<and> msg_namelen h = al \<and> al \<le> length adr \<and>
      buf_heap s' = (buf_heap s)(b \<mapsto> y\<lparr>ba_addr := overwrite 0 (take al adr) (ba_addr y)\<rparr>)))) s"
  using assms
  by (auto simp: wlp_def iouring_submit_udp_send_def copy_payload_def send_message_def memcpy_in_def uring_call_defs exec_simps
    split: if_splits prod.splits option.splits)

lemma tun_write_io:
  assumes "op_heap s q = Some r"
  shows "wlp (iouring_submit_tun_write U ctx q None len) (\<lambda>rc s'. (rc = 0 \<or> rc = -1) \<and> tls_io (trace s') = tls_io (trace s) \<and>
    buf_heap s' = buf_heap s \<and> (rc = -1 \<and> outgoing (trace s') = outgoing (trace s) \<or>
     outgoing (trace s') = Sqe_write (op_fd r) (op_buffer r) (nat len) q # outgoing (trace s))) s"
  using assms
  by (auto simp: wlp_def iouring_submit_tun_write_def copy_payload_def uring_call_defs exec_simps split: if_splits prod.splits option.splits)

lemma nothing_to_send:
  assumes "len \<le> 0"
  shows "wlp (iouring_submit_udp_send U ctx q adr al data len) (\<lambda>rc s'. rc = -1 \<and> s' = s) s"
    and "wlp (iouring_submit_tun_write U ctx q data len) (\<lambda>rc s'. rc = -1 \<and> s' = s) s"
  using assms by (simp_all add: wlp_prims iouring_submit_udp_send_def iouring_submit_tun_write_def)

text \<open>Releasing an operation changes neither what the kernel has to do nor the bytes it will find.\<close>

definition same_io :: "('k, 'z) uring_state_scheme \<Rightarrow> ('k, 'z) uring_state_scheme \<Rightarrow> bool" where
  "same_io s s' \<longleftrightarrow> outgoing (trace s') = outgoing (trace s) \<and> tls_io (trace s') = tls_io (trace s) \<and>
     (\<forall>m n. bytes_at_mem s' m n = bytes_at_mem s m n)"

lemma same_io_parts:
  "wlp (ret a) (\<lambda>_. same_io s) s" "wlp (c_assert b) (\<lambda>_. same_io s) s"
  by (simp_all add: wlp_prims same_io_def)

lemma same_io_then: "wlp m (\<lambda>_. same_io s) s \<Longrightarrow> (\<And>a s'. wlp (f a) (\<lambda>_. same_io s') s') \<Longrightarrow> wlp (bnd m f) (\<lambda>_. same_io s) s"
proof (rule wlp_bndI, assumption, goal_cases)
  case (1 a s1)
  from 1(2) show ?case by (rule wlp_conseq) (use 1(3) in \<open>simp add: same_io_def\<close>)
qed

lemma same_ioI:
  assumes "trace s' = trace s \<or> (\<exists>b i j n. trace s' = Ev_br_advance n # Ev_br_add b i j # trace s)"
    and "\<And>b. map_option (\<lambda>y. (ba_buf y, ba_addr y)) (buf_heap s' b) = map_option (\<lambda>y. (ba_buf y, ba_addr y)) (buf_heap s b)"
    and "\<And>c. map_option br_bufs (ctx_heap s' c) = map_option br_bufs (ctx_heap s c)"
  shows "same_io s s'"
proof -
  have "bytes_at_mem s' m n = bytes_at_mem s m n" for m n
    using assms(2) [of "case m of MBuf b \<Rightarrow> b | MAddr b \<Rightarrow> b | _ \<Rightarrow> 0"] assms(3) [of "case m of MRing c k \<Rightarrow> c | _ \<Rightarrow> 0"]
    by (cases m) (auto simp: bytes_at_mem_def exec_simps split: option.splits)
  then show ?thesis using assms(1) by (auto simp: same_io_def)
qed

lemma free_io_parts:
  "wlp (iouring_put_io_op ctx p) (\<lambda>_. same_io s) s" "wlp (iouring_put_buf_addr ctx b) (\<lambda>_. same_io s) s"
  "wlp (iouring_recycle_buffer U ctx p) (\<lambda>_. same_io s) s"
  by (auto simp: wlp_def iouring_put_io_op_def iouring_put_buf_addr_def iouring_recycle_buffer_def uring_call_defs exec_simps Let_def
    split: if_splits option.splits intro!: same_ioI)

lemma free_io: "wlp (io_op_free U ctx q) (\<lambda>_. same_io s) s"
proof (cases "op_heap s q")
  case None
  then show ?thesis by (simp add: io_op_free_def wlp_def exec_simps same_io_def)
next
  case (Some r)
  then show ?thesis unfolding io_op_free_def
    by (auto intro!: wlp_loadI [where h = op_heap, OF Some] same_io_then free_io_parts same_io_parts)
qed

lemma emits_cong: "same_io s s' \<Longrightarrow> emits s' e = emits s e"
  by (cases e) (auto simp: same_io_def)

lemma fill_op_effect:
  assumes "op_heap s q = Some r" and "op_buffer r = MBuf b" and "buf_heap s b = Some y"
  shows "wlp (fill_op q n bs) (\<lambda>_ s'. trace s' = trace s \<and> length bs \<le> length (ba_buf y) \<and>
    buf_heap s' = (buf_heap s)(b \<mapsto> y\<lparr>ba_buf := overwrite 0 bs (ba_buf y)\<rparr>) \<and> op_heap s' = (op_heap s)(q \<mapsto> r\<lparr>data_len := n\<rparr>)) s"
  using assms by (auto simp: wlp_def fill_op_def exec_simps split: if_splits)

section \<open>A packet through OpenSSL\<close>

text \<open>
  \<open>passed_on\<close>: one entry is new, it makes the kernel emit \<open>em bs\<close>, and the traffic with OpenSSL has grown by \<open>evs bs\<close>, for some bytes \<open>bs\<close>.
  A handler that fails may have done that too, when the submission of the entry has failed; otherwise no entry is new.
\<close>

definition passed_on :: "(byte list \<Rightarrow> emission) \<Rightarrow> (byte list \<Rightarrow> event list) \<Rightarrow> ('k, 't) net_state \<Rightarrow> ('k, 't) net_state \<Rightarrow> bool" where
  "passed_on em evs s s' \<longleftrightarrow> (\<exists>e bs. outgoing (trace s') = e # outgoing (trace s) \<and> emits s' e = Some (em bs) \<and>
     tls_io (trace s') = evs bs @ tls_io (trace s))"

definition passed_or_failed :: "(byte list \<Rightarrow> emission) \<Rightarrow> (byte list \<Rightarrow> event list) \<Rightarrow> ('k, 't) net_state \<Rightarrow> int \<Rightarrow> ('k, 't) net_state \<Rightarrow> bool" where
  "passed_or_failed em evs s rc s' \<longleftrightarrow> rc = -1 \<and> outgoing (trace s') = outgoing (trace s) \<or> (rc = 0 \<or> rc = -1) \<and> passed_on em evs s s'"

lemma passed_or_failed_free:
  assumes "passed_or_failed em evs s rc s1"
  shows "wlp (if rc < 0 then bnd (io_op_free U ctx q) (\<lambda>_. ret (-1)) else ret 0) (passed_or_failed em evs s) s1"
proof -
  have "wlp (bnd (io_op_free U ctx q) (\<lambda>_. ret (-1))) (passed_or_failed em evs s) s1" if "rc = -1"
  proof (rule wlp_bndI [OF free_io], goal_cases)
    case (1 _ s2)
    then have "emits s2 e = emits s1 e" for e by (rule emits_cong)
    then show ?case using assms 1 that by (auto simp: wlp_prims passed_or_failed_def passed_on_def same_io_def)
  qed
  then show ?thesis using assms by (auto simp: passed_or_failed_def wlp_prims)
qed

text \<open>A pool buffer has room for a packet and an address.\<close>

definition buf_full :: "buf_addr \<Rightarrow> bool" where
  "buf_full y \<longleftrightarrow> length (ba_buf y) = BUF_SIZE \<and> length (ba_addr y) = SOCKADDR_STORAGE"

text \<open>
  Both directions: a fresh operation is allocated, OpenSSL turns the packet in memory into \<open>bs\<close>, these bytes are put into the buffer of the operation,
  and it is submitted.
\<close>

lemma new_packet_flow:
  fixes s :: "('k, 't) net_state"
  assumes g: "gi ctx {p} s" and h: "held p s" and m: "bytes_at_mem s m k = Some packet"
    and prod: "\<And>s1 x. conn_heap s1 = conn_heap s \<Longrightarrow> take k x = packet \<Longrightarrow> k \<le> length x \<Longrightarrow>
      wlp (produce x) (\<lambda>(n, bs) s2. tls_step s1 s2 \<and> (0 < n \<longrightarrow> length bs = nat n \<and> trace s2 = evs bs @ trace s1)) s1"
    and evs: "\<And>bs. list_all tls_io_event (evs bs)"
    and sub: "\<And>q b y n bs s3. op_heap s3 q = Some ((new_op typ fd b)\<lparr>data_len := n\<rparr>) \<Longrightarrow> b \<noteq> NULL \<Longrightarrow> buf_heap s3 b = Some y \<Longrightarrow>
      buf_full y \<Longrightarrow> length bs = nat n \<Longrightarrow> bytes_at_mem s3 (MBuf b) (nat n) = Some bs \<Longrightarrow> 0 < n \<Longrightarrow>
      wlp (sub q n) (\<lambda>rc s'. (rc = 0 \<or> rc = -1) \<and> tls_io (trace s') = tls_io (trace s3) \<and>
        (rc = -1 \<and> outgoing (trace s') = outgoing (trace s3) \<or>
         (\<exists>e. outgoing (trace s') = e # outgoing (trace s3) \<and> emits s' e = Some (em bs)))) s3"
    and none: "\<And>q b y n s3. op_heap s3 q = Some ((new_op typ fd b)\<lparr>data_len := n\<rparr>) \<Longrightarrow> b \<noteq> NULL \<Longrightarrow> buf_heap s3 b = Some y \<Longrightarrow>
      buf_full y \<Longrightarrow> n \<le> 0 \<Longrightarrow> wlp (sub q n) (\<lambda>rc s'. rc = (-1 :: int) \<and> s' = s3) s3"
  shows "wlp (bnd (io_op_alloc ctx typ fd False) (\<lambda>op. if op = NULL then ret (-1) else
     bnd (read_src (Heap m)) (\<lambda>x. bnd (produce x) (\<lambda>(n, bs). bnd (fill_op op n bs) (\<lambda>_.
     if n < 0 then bnd (io_op_free U ctx op) (\<lambda>_. ret (-1)) else
     bnd (sub op n) (\<lambda>rc. if rc < 0 then bnd (io_op_free U ctx op) (\<lambda>_. ret (-1)) else ret 0))))))
    (passed_or_failed em evs s) s"
proof (rule wlp_bndI [OF wlp_conjI [OF wp_imp_wlp [OF g_alloc [OF g, where U = U]] alloc_same_bytes [where m = m and n = k]]], goal_cases)
  case (1 q s1)
  let ?send = "\<lambda>n. bnd (sub q n) (\<lambda>rc. if rc < 0 then bnd (io_op_free U ctx q) (\<lambda>_. ret (-1)) else ret 0)"
  have al: "allocated U ctx {p} typ fd s q s1" and bm: "bytes_at_mem s1 m k = Some packet" using 1 m by auto
  have s1: "conn_heap s1 = conn_heap s" "trace s1 = trace s" using al kept_conn by (auto simp: allocated_def)
  have tail: "wlp (bnd (fill_op q n bs) (\<lambda>_. if n < 0 then bnd (io_op_free U ctx q) (\<lambda>_. ret (-1)) else ?send n)) (passed_or_failed em evs s) s2"
    if q: "q \<noteq> NULL" and t: "tls_step s1 s2" and n: "0 < n \<longrightarrow> length bs = nat n \<and> trace s2 = evs bs @ trace s1" for n bs s2
  proof -
    note a2 = alloc_tls [OF al q t h]
    obtain b where b: "b \<noteq> NULL" "op_heap s2 q = Some (new_op typ fd b)" using a2(5) by blast
    obtain ops bufs where "ginv ctx ops bufs {q, p} s2" using a2(2) by (auto simp: gi_def)
    then have u: "uinv ctx ops bufs s2" "q \<notin> set ops" using ginvD(1) ginv_local(1) by blast+
    obtain y where y: "buf_heap s2 b = Some y" using live_buf(1) [OF u(1) b(2) u(2)] b(1) by (auto simp: new_op_def)
    have la: "buf_full y" using u(1) y by (auto simp: uinv_def buf_sizes_def buf_full_def)
    show ?thesis
    proof (rule wlp_bndI [OF fill_op_effect [OF b(2) _ y, where n = n and bs = bs]], simp add: new_op_def, goal_cases)
      case (1 _ s3)
      have s3: "buf_heap s3 b = Some (y\<lparr>ba_buf := overwrite 0 bs (ba_buf y)\<rparr>)" "op_heap s3 q = Some ((new_op typ fd b)\<lparr>data_len := n\<rparr>)" "trace s3 = trace s2"
        using 1 by simp_all
      have full: "buf_full (y\<lparr>ba_buf := overwrite 0 bs (ba_buf y)\<rparr>)" using la 1 by (simp add: buf_full_def)
      have i: "outgoing (trace s3) = outgoing (trace s)" using tls_step_outgoing [OF t] s1(2) s3(3) by simp
      have free: "wlp (if rc < 0 then bnd (io_op_free U ctx q) (\<lambda>_. ret (-1)) else ret 0) (passed_or_failed em evs s) s3" if "rc = -1" for rc :: int
        by (rule passed_or_failed_free) (simp add: passed_or_failed_def that i)
      consider "n < 0" | "n = 0" | "0 < n" by linarith
      then show ?case
      proof cases
        case 1
        then show ?thesis using free [of "-1"] by simp
      next
        case 2
        have "wlp (?send n) (passed_or_failed em evs s) s3" by (rule wlp_bndI [OF none [OF s3(2) b(1) s3(1) full]]) (use 2 free in auto)
        then show ?thesis using 2 by simp
      next
        case 3
        then have bs: "bytes_at_mem s3 (MBuf b) (nat n) = Some bs" and io: "tls_io (trace s3) = evs bs @ tls_io (trace s)"
          using s3 n 1 b(1) s1(2) evs [of bs] by (auto simp: bytes_at_mem_def exec_simps tls_io_def list_all_iff filter_id_conv)
        have "wlp (?send n) (passed_or_failed em evs s) s3"
          by (rule wlp_bndI [OF sub [OF s3(2) b(1) s3(1) full _ bs 3]], use n 3 in simp, rule passed_or_failed_free)
            (use i io in \<open>auto simp: passed_or_failed_def passed_on_def\<close>)
        then show ?thesis using 3 by simp
      qed
    qed
  qed
  have "wlp (bnd (object_at m) (\<lambda>x. bnd (produce x) (\<lambda>(n, bs). bnd (fill_op q n bs) (\<lambda>_. if n < 0 then bnd (io_op_free U ctx q) (\<lambda>_. ret (-1)) else ?send n))))
    (passed_or_failed em evs s) s1" if "q \<noteq> NULL"
    by (rule wlp_bndI [OF bytes_object [OF bm]], elim conjE, simp only:, rule wlp_bndI [OF prod]) (use s1 tail that in auto)
  then show ?case using s1(2) by (auto simp: wlp_prims passed_or_failed_def)
qed

section \<open>The two directions\<close>

text \<open>The traffic with OpenSSL that one packet causes, and what goes out: a datagram to the peer, or a packet for the TUN device.\<close>

fun packet_io :: "bool \<Rightarrow> connection \<Rightarrow> byte list \<Rightarrow> byte list \<Rightarrow> event list" where
  "packet_io True d packet bs = [Ev_bio_read (wbio d) bs, Ev_ssl_write (conn_ssl d) packet]"
| "packet_io False d packet bs = [Ev_ssl_read (conn_ssl d) bs, Ev_bio_write (rbio d) packet]"

fun packet_out :: "bool \<Rightarrow> connection \<Rightarrow> int \<Rightarrow> byte list \<Rightarrow> emission" where
  "packet_out True d tunfd bs = To_peer (udp_fd d) (take (conn_addr_len d) (conn_addr d)) bs"
| "packet_out False d tunfd bs = To_tun tunfd bs"

lemma encrypt_and_send_flow:
  assumes T: "openssl_ok T" and g: "gi ctx {p} s" "held p s" and c: "conn_tls conn s" "conn_heap s conn = Some d" and n: "n \<le> BUF_SIZE"
    and m: "bytes_at_mem s m n = Some packet" "src_ok ctx s (Heap m) (max 40 n)"
  shows "wlp (dtls_encrypt_and_send_udp T U conn (Heap m) n ctx) (passed_or_failed (packet_out True d tunfd) (packet_io True d packet) s) s"
proof -
  have d: "conn \<noteq> NULL" "conn_ssl d \<noteq> NULL" "length (conn_addr d) = SOCKADDR_STORAGE" "conn_addr_len d \<le> SOCKADDR_STORAGE"
    using c by (auto simp: conn_tls_def conn_ok_def)
  obtain ops bufs where u: "uinv ctx ops bufs s" using g(1) by (auto simp: gi_def ginv_def)
  have i: "nat (int_of_size n) = n" using n by (simp add: int_of_size_small)
  have "wlp (bnd (io_op_alloc ctx OP_TYPE_UDP_SEND (udp_fd d) False) (\<lambda>op. if op = NULL then ret (-1) else
     bnd (read_src (Heap m)) (\<lambda>x. bnd (dtls_encrypt_packet T conn x (int_of_size n) (int BUF_SIZE)) (\<lambda>(n, bs).
     bnd (fill_op op n bs) (\<lambda>_. if n < 0 then bnd (io_op_free U ctx op) (\<lambda>_. ret (-1)) else
     bnd (iouring_submit_udp_send U ctx op (Some (conn_addr d)) (conn_addr_len d) None n) (\<lambda>rc.
     if rc < 0 then bnd (io_op_free U ctx op) (\<lambda>_. ret (-1)) else ret 0))))))
    (passed_or_failed (packet_out True d tunfd) (packet_io True d packet) s) s"
  proof (rule new_packet_flow [OF g m(1)], goal_cases)
    case (1 s1 x)
    then have c1: "conn_heap s1 conn = Some d" and x: "nat (int_of_size n) \<le> length x" using c(2) i by simp_all
    show ?case
      by (rule wlp_conseq [OF wlp_conjI [OF wp_imp_wlp [OF encrypt_ok [OF T d(1) c1 d(2) x]] encrypt_io [OF c1]]]) (use 1 i in auto)
  next
    case (3 q b y n' bs s3)
    show ?case
    proof (rule wlp_conseq [OF udp_send_io [OF 3(1) _ _ 3(3)]], goal_cases)
      case (3 rc s')
      then show ?case using \<open>bytes_at_mem s3 (MBuf b) (nat n') = Some bs\<close> \<open>buf_heap s3 b = Some y\<close> \<open>b \<noteq> NULL\<close> \<open>buf_full y\<close> d(3,4)
        by (auto simp: new_op_def buf_full_def bytes_at_mem_def exec_simps split: if_splits)
    qed (simp_all add: new_op_def)
  next
    case (4 q b y n' s3)
    show ?case using 4(5) by (rule nothing_to_send)
  qed simp
  then show ?thesis unfolding dtls_encrypt_and_send_udp_def
    by (intro wlp_bndI [OF wp_imp_wlp [OF print_packet_ok [OF u m(2) max.cobounded1]]]) (auto intro: wlp_loadI [where h = conn_heap, OF c(2)])
qed

lemma print_own_buffer:
  assumes "buf_heap s b = Some y" and "buf_full y" and "b \<noteq> NULL"
  shows "wlp (print_packet (Heap (MBuf b)) k) (\<lambda>_ s'. s' = s) s"
proof -
  have "wp (print_ip_packet_info (ba_buf y) k) (\<lambda>_ s'. s' = s) s"
    using assms(2) by (intro print_ip_packet_info_wp) (simp add: buf_full_def BUF_SIZE_def)
  then show ?thesis using assms by (auto simp: print_packet_def wlp_def wp_def exec_simps split: sum.splits)
qed

lemma decrypt_and_write_flow:
  assumes T: "openssl_ok T" "ssl_error_exact T" and g: "gi ctx {p} s" "held p s" and c: "conn_tls conn s" "conn_heap s conn = Some d"
    and n: "n < int BUF_SIZE" and m: "bytes_at_mem s m (nat n) = Some packet"
  shows "wlp (dtls_decrypt_and_write_tun T U conn tunfd (Heap m) n ctx) (passed_or_failed (packet_out False d tunfd) (packet_io False d packet) s) s"
proof -
  have d: "conn \<noteq> NULL" "conn_ssl d \<noteq> NULL" using c by (auto simp: conn_tls_def conn_ok_def)
  let ?sub = "\<lambda>q (n :: int). bnd (load op_heap q) (\<lambda>r. bnd (print_packet (Heap (op_buffer r)) (size_of_int (data_len r))) (\<lambda>_.
     bnd (upd_op q (\<lambda>r. r\<lparr>op_fd := tunfd\<rparr>)) (\<lambda>_. iouring_submit_tun_write U ctx q None (data_len r))))"
  have sub: "wlp (?sub q n) Q s3" if o: "op_heap s3 q = Some ((new_op OP_TYPE_TUN_WRITE tunfd b)\<lparr>data_len := n\<rparr>)" (is "_ = Some ?r")
      and b: "buf_heap s3 b = Some y" "buf_full y" "b \<noteq> NULL" and w: "wlp (iouring_submit_tun_write U ctx q None n) Q s3" for q n Q s3 b y
  proof -
    have "(op_heap s3)(q \<mapsto> ?r\<lparr>op_fd := tunfd\<rparr>) = op_heap s3" using o by (auto simp: fun_eq_iff new_op_def)
    then have u: "wlp (upd_op q (\<lambda>r. r\<lparr>op_fd := tunfd\<rparr>)) (\<lambda>_ s'. s' = s3) s3"
      using o by (auto simp: wlp_def upd_op_def exec_simps split: if_splits)
    have "wlp (print_packet (Heap (op_buffer ?r)) k) (\<lambda>_ s'. s' = s3) s3" for k
      using print_own_buffer [OF b] by (simp add: new_op_def)
    then show ?thesis
      by (intro wlp_loadI [where h = op_heap, OF o]) (rule wlp_bndI, assumption, simp only:, rule wlp_bndI [OF u], use w in simp)
  qed
  have "wlp (bnd (io_op_alloc ctx OP_TYPE_TUN_WRITE tunfd False) (\<lambda>op. if op = NULL then ret (-1) else
     bnd (read_src (Heap m)) (\<lambda>x. bnd (dtls_decrypt_packet T conn x n (int BUF_SIZE)) (\<lambda>(n, bs).
     bnd (fill_op op n bs) (\<lambda>_. if n < 0 then bnd (io_op_free U ctx op) (\<lambda>_. ret (-1)) else
     bnd (?sub op n) (\<lambda>rc. if rc < 0 then bnd (io_op_free U ctx op) (\<lambda>_. ret (-1)) else ret 0))))))
    (passed_or_failed (packet_out False d tunfd) (packet_io False d packet) s) s"
  proof (rule new_packet_flow [OF g m], goal_cases)
    case (1 s1 x)
    then have c1: "conn_heap s1 conn = Some d" using c(2) by simp
    show ?case
      by (rule wlp_conseq [OF wlp_conjI [OF wp_imp_wlp [OF decrypt_ok [OF T(1) d(1) c1 d(2) 1(3) n]] decrypt_io [OF T(2) c1]]])
        (use 1 in \<open>auto simp: read_result_def\<close>)
  next
    case (3 q b y n' bs s3)
    show ?case
    proof (rule sub [OF 3(1,3,4,2)], rule wlp_conseq [OF tun_write_io [OF 3(1)]], goal_cases)
      case (1 rc s')
      then show ?case using 3(2,3,6) by (auto simp: new_op_def bytes_at_mem_def exec_simps split: if_splits)
    qed
  next
    case (4 q b y n' s3)
    show ?case by (rule sub [OF 4(1,3,4,2) nothing_to_send(2) [OF 4(5)]])
  qed simp
  then show ?thesis unfolding dtls_decrypt_and_write_tun_def by (simp only: bnd_assoc)
qed

lemma dtls_packet_flow:
  assumes T: "ssl_error_exact T" and rc: "received ctx p s" and r: "op_heap s p = Some r" and i: "dtls_inv T conn s" and d: "conn_heap s conn = Some d"
  shows "\<exists>rc s' packet. dtls_packet T U conn tunfd ctx p r s = Inr (rc, s') \<and> bytes_at_mem s (op_buffer r) (nat (data_len r)) = Some packet \<and>
    passed_or_failed (packet_out (op_type r = OP_TYPE_TUN_READ) d tunfd) (packet_io (op_type r = OP_TYPE_TUN_READ) d packet) s rc s'"
proof (rule receivedE [OF rc r], goal_cases)
  case (1 ops bufs)
  note gh = received_held [OF rc] and T' = i [unfolded dtls_inv_def]
  let ?n = "nat (data_len r)" and ?k = "size_of_int (data_len r)"
  have pk: "0 \<le> data_len r" "data_len r \<le> int BUF_SIZE" "valid_mem ctx s (op_buffer r) (max 40 ?n)" using 1(2) by (auto simp: packet_ok_def)
  then have k: "?k = ?n" "?n \<le> BUF_SIZE" by (auto intro: size_of_int_small)
  have v: "valid_mem ctx s (op_buffer r) ?n" using pk(3) by (cases "op_buffer r"; cases "ctx_heap s ctx") (auto simp: valid_mem_def)
  from wp_InrD [OF load_bytes_valid [OF ginvD(1) [OF 1(1)] v]]
  obtain packet where m: "bytes_at_mem s (op_buffer r) ?n = Some packet" by (auto simp: bytes_at_mem_def)
  have "wlp (dtls_packet T U conn tunfd ctx p r) (passed_or_failed (packet_out (op_type r = OP_TYPE_TUN_READ) d tunfd)
    (packet_io (op_type r = OP_TYPE_TUN_READ) d packet) s) s"
  proof (cases "op_type r = OP_TYPE_TUN_READ")
    case True
    then show ?thesis using encrypt_and_send_flow [of T ctx p s conn d ?n "op_buffer r" packet U tunfd] gh T' d k m pk(3)
      by (simp add: dtls_packet_def src_ok_def)
  next
    case False
    then have t: "op_type r = OP_TYPE_UDP_RECV" using 1(4) by auto
    moreover have "data_len r < int BUF_SIZE" using T' r 1(2) t by (auto simp: all_recv_def recv_on_def packet_ok_def)
    ultimately show ?thesis using decrypt_and_write_flow [of T ctx p s conn d "data_len r" "op_buffer r" packet U tunfd] gh T T' d m False
      by (simp add: dtls_packet_def)
  qed
  from wp_InrD [OF wp_wlp [OF dtls_packet_ok [OF rc r i] this]] m show ?case by blast
qed

text \<open>
  C7: The packet handler of the DTLS edge never faults, and every entry it hands to the kernel, even when it then reports a failure, carries what OpenSSL has made
  of the received packet: a TUN packet is written to the SSL object of the connection, and exactly the bytes then read from its write BIO go to the peer;
  a datagram is written to the read BIO, and exactly the bytes then read from the SSL object go to the TUN device. There is at most one such entry, and
  one when the handler succeeds.
\<close>

theorem dtls_packet_transforms:
  assumes T: "ssl_error_exact T" and rc: "received ctx p s" and r: "op_heap s p = Some r" and i: "dtls_inv T conn s" and d: "conn_heap s conn = Some d"
  shows "\<exists>rc s' packet. dtls_packet T U conn tunfd ctx p r s = Inr (rc, s') \<and> bytes_at_mem s (op_buffer r) (nat (data_len r)) = Some packet \<and>
    passed_or_failed (packet_out (op_type r = OP_TYPE_TUN_READ) d tunfd) (packet_io (op_type r = OP_TYPE_TUN_READ) d packet) s rc s'"
  by (rule dtls_packet_flow [OF assms])

section \<open>Witness\<close>

lemma sample_tun_tls: "dtls_inv sample_openssl 10 sample_tun_state"
proof -
  have "all_multi sample_tun_state"
    by (auto simp: all_recv_def recv_on_def sample_tun_state_def tun_packet_op_def sample_defs op_type_defs new_op_def split: if_splits)
  then show ?thesis using sample_dtls_inv by (auto simp: dtls_inv_def conn_tls_def conn_ok_def sample_tun_state_def)
qed

lemma sample_encrypts: "wp (dtls_packet sample_openssl sample_uring 10 8 1 3 tun_packet_op) (\<lambda>rc _. rc = 0) sample_tun_state"
proof -
  have f: "op_type tun_packet_op = OP_TYPE_TUN_READ" "op_buffer tun_packet_op = MBuf 4" "data_len tun_packet_op = 20"
    by (simp_all add: tun_packet_op_def new_op_def)
  have p: "wp (print_packet (Heap (MBuf 4)) k) (\<lambda>_ s'. s' = sample_tun_state) sample_tun_state" for k
    using print_received [OF sample_tun_received sample_packets(1), of k] f(2) by simp
  show ?thesis
    unfolding dtls_packet_def f dtls_encrypt_and_send_udp_def simp_thms if_True
    by (rule wp_skipI [OF p])
      (simp add: wp_simps io_op_alloc_def io_op_alloc_buf_def iouring_get_io_op_def iouring_get_buf_addr_def Let_def sample_tun_state_def sample_defs
        sample_conn_def sample_bufs_def zero_buf_addr_def dtls_encrypt_packet_def SSL_write_def BIO_read_def with_ssl_def sample_openssl_def queue_read_def
        fill_op_def iouring_submit_udp_send_def copy_payload_def send_message_def memcpy_in_def uring_call_defs sample_uring_def new_op_def zero_op_def
        BUF_SIZE_def SOCKADDR_STORAGE_def size_of_int_def int_of_size_def zero_conn_def op_type_defs)
qed

theorem dtls_packet_transforms_witness:
  "\<exists>s' e bs. dtls_packet sample_openssl sample_uring 10 8 1 3 tun_packet_op sample_tun_state = Inr (0, s') \<and>
    outgoing (trace s') = [e] \<and>
    emits s' e = Some (To_peer 9 (take 16 (conn_addr sample_conn)) bs) \<and>
    tls_io (trace s') = [Ev_bio_read 102 bs, Ev_ssl_write 100 (replicate 20 0)]"
proof -
  have m: "bytes_at_mem sample_tun_state (op_buffer tun_packet_op) (nat (data_len tun_packet_op)) = Some (replicate 20 0)"
    by (simp add: bytes_at_mem_def exec_simps tun_packet_op_def new_op_def sample_tun_state_def sample_state_def sample_bufs_def zero_buf_addr_def BUF_SIZE_def)
  have x: "ssl_error_exact sample_openssl" by (simp add: ssl_error_exact_def sample_openssl_def)
  have t: "op_type tun_packet_op = OP_TYPE_TUN_READ" by (simp add: tun_packet_op_def new_op_def)
  have s: "outgoing (trace sample_tun_state) = []" "tls_io (trace sample_tun_state) = []"
    by (simp_all add: sample_tun_state_def tls_io_def)
  obtain s' where s': "dtls_packet sample_openssl sample_uring 10 8 1 3 tun_packet_op sample_tun_state = Inr (0, s')"
    using sample_encrypts by (auto simp: wp_iff)
  with dtls_packet_transforms [OF x sample_tun_received sample_packets(1) sample_tun_tls sample_packets(4), of sample_uring 8]
  have "passed_or_failed (packet_out True sample_conn 8) (packet_io True sample_conn (replicate 20 0)) sample_tun_state 0 s'"
    using m t by auto
  then have "passed_on (packet_out True sample_conn 8) (packet_io True sample_conn (replicate 20 0)) sample_tun_state s'"
    by (simp add: passed_or_failed_def)
  then show ?thesis using s' s by (auto simp: passed_on_def sample_conn_def zero_conn_def)
qed

end
