(* ===== verification/Tunnel.thy ===== *)
theory Tunnel
  imports Cipher_Flow
begin

text \<open>
  The DTLS edge as a tunnel: its event loop refines an abstract one that does nothing but pass packets through OpenSSL, and a packet that has been read from
  the TUN device does leave, encrypted, in the same turn.
\<close>

section \<open>The event loop as a tunnel\<close>

text \<open>
  The abstract tunnel: one packet goes through OpenSSL, in one direction or the other, and one entry that carries the result leaves the program.
\<close>

definition tunnel_step :: "connection \<Rightarrow> int \<Rightarrow> ('k, 't) net_state \<Rightarrow> ('k, 't) net_state \<Rightarrow> bool" where
  "tunnel_step d tunfd s s' \<longleftrightarrow> (\<exists>out packet. passed_on (packet_out out d tunfd) (packet_io out d packet) s s')"

text \<open>A whole turn: wait, handle, release.\<close>

lemma turn_flow:
  assumes U: "recvmsg_ok U" "kernel_ok U ctx K" and T: "ssl_error_exact T" and b: "dtls.between ctx T conn K s" and d: "conn_heap s conn = Some d"
    and e: "wait_for_recv U w ctx s = Inr (Some op, s1)" "op \<noteq> NULL" "op_heap s1 op = Some r" "dtls_packet T U conn tunfd ctx op r s1 = Inr (rc, s2)"
      "0 \<le> rc" "io_op_free U ctx op s2 = Inr (op', s')"
  shows "\<exists>packet. bytes_at_mem s1 (op_buffer r) (nat (data_len r)) = Some packet \<and>
      passed_on (packet_out (op_type r = OP_TYPE_TUN_READ) d tunfd) (packet_io (op_type r = OP_TYPE_TUN_READ) d packet) s s'"
    and "conn_heap s' conn = Some d"
proof -
  from wp_result [OF dtls.wait_step [OF U b] e(1)] e(2) have s1: "received ctx op s1" "dtls_inv T conn s1" by (auto simp: outcome_def)
  have w: "no_output s s1" "no_output s2 s'" "same_io s2 s'"
    using receiving.keepsD [OF receiving.keeps_wait, of U w ctx s] receiving.keepsD [OF receiving.keeps_release, of U ctx op s2]
      free_io [of U ctx op s2] e(1,6) by (simp_all add: wlp_def)
  have d1: "conn_heap s1 conn = Some d" using w(1) d by (simp add: no_output_def)
  have "conn_heap s2 = conn_heap s1" using wp_result [OF dtls_packet_ok [OF s1(1) e(3) s1(2)] e(4)] by simp
  then show "conn_heap s' conn = Some d" using w d1 by (simp add: no_output_def)
  obtain packet where p: "bytes_at_mem s1 (op_buffer r) (nat (data_len r)) = Some packet"
    "passed_or_failed (packet_out (op_type r = OP_TYPE_TUN_READ) d tunfd) (packet_io (op_type r = OP_TYPE_TUN_READ) d packet) s1 rc s2"
    using dtls_packet_flow [OF T s1(1) e(3) s1(2) d1, of U tunfd] e(4) by auto
  from p(2) e(5) have "passed_on (packet_out (op_type r = OP_TYPE_TUN_READ) d tunfd) (packet_io (op_type r = OP_TYPE_TUN_READ) d packet) s1 s2"
    by (auto simp: passed_or_failed_def)
  then have "passed_on (packet_out (op_type r = OP_TYPE_TUN_READ) d tunfd) (packet_io (op_type r = OP_TYPE_TUN_READ) d packet) s s'"
    using w emits_cong [OF w(3)] unfolding passed_on_def no_output_def by auto
  then show "\<exists>packet. bytes_at_mem s1 (op_buffer r) (nat (data_len r)) = Some packet \<and>
      passed_on (packet_out (op_type r = OP_TYPE_TUN_READ) d tunfd) (packet_io (op_type r = OP_TYPE_TUN_READ) d packet) s s'" using p(1) by blast
qed

lemma turn_is_tunnel_step:
  assumes "recvmsg_ok U" and "kernel_ok U ctx K" and "ssl_error_exact T" and "dtls.between ctx T conn K s" and "conn_heap s conn = Some d"
    and t: "turn P U w ctx (dtls_packet T U conn tunfd ctx) s s'"
  shows "tunnel_step d tunfd s s' \<and> conn_heap s' conn = Some d"
  using t
proof (rule turnE)
  fix op s1 r rc s2 op'
  assume e: "wait_for_recv U w ctx s = Inr (Some op, s1)" "0 < op" "op_heap s1 op = Some r" "dtls_packet T U conn tunfd ctx op r s1 = Inr (rc, s2)"
    "0 \<le> rc" "io_op_free U ctx op s2 = Inr (op', s')"
  from turn_flow [OF assms(1-5) e(1) _ e(3-6)] e(2) show ?thesis unfolding tunnel_step_def by blast
qed

text \<open>
  C3: The event loop of the DTLS edge refines the abstract tunnel. However many turns it makes, in each of them it has written one received packet to
  OpenSSL, and the one entry with which it has made the kernel send something carries exactly what it has read from OpenSSL: the ciphertext from the write BIO
  to the peer of the connection, or the decrypted packet to the TUN device. Nothing else leaves the program.
\<close>

theorem dtls_edge_is_a_tunnel:
  assumes U: "recvmsg_ok U" "kernel_ok U ctx K" and T: "openssl_ok T" "ssl_error_exact T"
    and s: "gi ctx {} s" "conn_tls conn s" "all_multi s" "K (kw s) (trace s)" "conn_heap s conn = Some d"
    and t: "turns P U w ctx (dtls_packet T U conn tunfd ctx) s s'"
  shows "(tunnel_step d tunfd)\<^sup>*\<^sup>* s s'"
proof -
  have "dtls.between ctx T conn K s" using s T by (simp add: dtls.between_def dtls_inv_def)
  with t s(5) have "(tunnel_step d tunfd)\<^sup>*\<^sup>* s s' \<and> dtls.between ctx T conn K s' \<and> conn_heap s' conn = Some d"
  proof (induction rule: turns.induct)
    case (turns_step s s1 s2)
    then show ?case using turn_is_tunnel_step [OF U T(2), of conn s1 d P w tunfd s2] dtls.turn_between [OF U, of P w T conn tunfd s1 s2]
      by (auto intro: rtranclp.rtrancl_into_rtrancl)
  qed simp
  then show ?thesis by blast
qed

section \<open>Delivery with encryption\<close>

text \<open>An OpenSSL that encrypts: a packet is accepted, and its ciphertext is in the write BIO (documented behaviour of an established connection).\<close>

definition encrypting :: "'t openssl \<Rightarrow> connection \<Rightarrow> bool" where
  "encrypting T d \<longleftrightarrow> (\<forall>bs t w t'. bs \<noteq> [] \<and> ssl_write T (conn_ssl d) bs t = (w, t') \<longrightarrow>
     0 < w \<and> 0 < fst (fst (bio_read T (wbio d) BUF_SIZE t')))"

lemma encrypt_accepted:
  assumes T: "encrypting T d" and d: "conn_heap s conn = Some d" and n: "0 < nat n" "nat n \<le> length x"
  shows "wlp (dtls_encrypt_packet T conn x n (int BUF_SIZE)) (\<lambda>(got, _) _. 0 < got) s"
proof -
  have "take (nat n) x \<noteq> []" using n by auto
  with T have *: "ssl_write T (conn_ssl d) (take (nat n) x) t = (w, t') \<Longrightarrow> 0 < w \<and> 0 < fst (fst (bio_read T (wbio d) BUF_SIZE t'))" for t w t'
    unfolding encrypting_def by blast
  show ?thesis using d
    by (auto simp: wlp_def dtls_encrypt_packet_def SSL_write_def BIO_read_def with_ssl_def exec_simps dest!: * split: if_splits prod.splits)
qed

lemma encrypt_and_send_accepted:
  assumes U: "accepting U" and T: "openssl_ok T" "encrypting T d" and u: "uinv ctx (q # ops) (b # bufs) s" and g: "gi ctx {p} s" "held p s"
    and c: "conn_tls conn s" "conn_heap s conn = Some d" "0 \<le> udp_fd d" and n: "0 < n" "n \<le> BUF_SIZE"
    and m: "bytes_at_mem s m n = Some packet" "src_ok ctx s (Heap m) (max 40 n)"
  shows "wlp (dtls_encrypt_and_send_udp T U conn (Heap m) n ctx) (\<lambda>rc _. rc = 0) s"
proof -
  have d: "conn \<noteq> NULL" "conn_ssl d \<noteq> NULL" using c by (auto simp: conn_tls_def conn_ok_def)
  have i: "nat (int_of_size n) = n" using n by (simp add: int_of_size_small)
  have cx: "ctx \<noteq> NULL" using u by (simp add: uinv_def)
  have "wlp (bnd (io_op_alloc ctx OP_TYPE_UDP_SEND (udp_fd d) False) (\<lambda>op. if op = NULL then ret (-1) else
     bnd (read_src (Heap m)) (\<lambda>x. bnd (dtls_encrypt_packet T conn x (int_of_size n) (int BUF_SIZE)) (\<lambda>(n, bs).
     bnd (fill_op op n bs) (\<lambda>_. if n < 0 then bnd (io_op_free U ctx op) (\<lambda>_. ret (-1)) else
     bnd (iouring_submit_udp_send U ctx op (Some (conn_addr d)) (conn_addr_len d) None n) (\<lambda>rc.
     if rc < 0 then bnd (io_op_free U ctx op) (\<lambda>_. ret (-1)) else ret 0))))))
    (\<lambda>rc _. rc = (0 :: int)) s"
  proof (rule wlp_bndI [OF wlp_conjI [OF wp_imp_wlp [OF g_alloc [OF g(1), where U = U]] wlp_conjI [OF
      wp_imp_wlp [OF io_op_alloc_single [OF u]] alloc_same_bytes [where m = m and n = n]]]], goal_cases)
    case (1 a s1)
    then have al: "allocated U ctx {p} OP_TYPE_UDP_SEND (udp_fd d) s a s1" and a: "a \<noteq> NULL" and bm: "bytes_at_mem s1 m n = Some packet"
      using m(1) by auto
    have c1: "conn_heap s1 conn = Some d" using al kept_conn [of U ctx s s1] c(2) by (simp add: allocated_def)
    have tail: "wlp (bnd (fill_op a got bs) (\<lambda>_. if got < 0 then bnd (io_op_free U ctx a) (\<lambda>_. ret (-1)) else
       bnd (iouring_submit_udp_send U ctx a (Some (conn_addr d)) (conn_addr_len d) None got) (\<lambda>rc.
       if rc < 0 then bnd (io_op_free U ctx a) (\<lambda>_. ret (-1)) else ret 0))) (\<lambda>rc _. rc = (0 :: int)) s2"
      if t: "tls_step s1 s2" and n: "0 < got" "got \<le> int BUF_SIZE" "length bs = nat got" for got bs s2
    proof -
      note a2 = alloc_tls [OF al a t g(2)]
      obtain b where b: "b \<noteq> NULL" "op_heap s2 a = Some (new_op OP_TYPE_UDP_SEND (udp_fd d) b)" using a2(5) by blast
      have l: "length bs \<le> BUF_SIZE" "op_buf_addr (new_op OP_TYPE_UDP_SEND (udp_fd d) b) \<noteq> NULL" using n b by (simp_all add: new_op_def)
      show ?thesis
      proof (rule wlp_bndI [OF wp_imp_wlp [OF fill_op_ok [OF a2(2) insertI1 a2(4) b(2) l(2,1), where U = U and n = got]]], goal_cases)
        case (1 _ s3)
        then have o: "op_heap s3 a = Some ((new_op OP_TYPE_UDP_SEND (udp_fd d) b)\<lparr>data_len := got\<rparr>)" by simp
        have "wlp (bnd (iouring_submit_udp_send U ctx a (Some (conn_addr d)) (conn_addr_len d) None got) (\<lambda>rc.
          if rc < 0 then bnd (io_op_free U ctx a) (\<lambda>_. ret (-1)) else ret 0)) (\<lambda>rc _. rc = (0 :: int)) s3"
          by (rule wlp_bndI [OF udp_send_accepted [OF U o _ n(1,2) cx a]]) (use c(3) in \<open>simp_all add: new_op_def wlp_prims\<close>)
        then show ?case using n by simp
      qed
    qed
    have "wlp (bnd (object_at m) (\<lambda>x. bnd (dtls_encrypt_packet T conn x (int_of_size n) (int BUF_SIZE)) (\<lambda>(n, bs).
       bnd (fill_op a n bs) (\<lambda>_. if n < 0 then bnd (io_op_free U ctx a) (\<lambda>_. ret (-1)) else
       bnd (iouring_submit_udp_send U ctx a (Some (conn_addr d)) (conn_addr_len d) None n) (\<lambda>rc.
       if rc < 0 then bnd (io_op_free U ctx a) (\<lambda>_. ret (-1)) else ret 0))))) (\<lambda>rc _. rc = (0 :: int)) s1"
    proof (rule wlp_bndI [OF bytes_object [OF bm]], elim conjE, simp only:, goal_cases)
      case (1 x s')
      have x: "nat (int_of_size n) \<le> length x" "0 < nat (int_of_size n)" using 1 i n by simp_all
      show ?case
        by (rule wlp_bndI [OF wlp_conjI [OF wp_imp_wlp [OF encrypt_ok [OF T(1) d(1) c1 d(2) x(1)]] encrypt_accepted [OF T(2) c1 x(2,1)]]])
          (use tail in auto)
    qed
    then show ?case using a by simp
  qed
  then show ?thesis unfolding dtls_encrypt_and_send_udp_def
    by (intro wlp_bndI [OF wp_imp_wlp [OF print_packet_ok [OF u m(2) max.cobounded1]]]) (auto intro: wlp_loadI [where h = conn_heap, OF c(2)])
qed

lemma encrypted_turn:
  assumes U: "recvmsg_ok U" "kernel_ok U ctx K" "accepting U" and T: "openssl_ok T" "ssl_error_exact T" "encrypting T d"
    and g: "ginv ctx (q1 # q2 # ops) (b1 # b2 # bufs) {} s" "conn_tls conn s" "all_multi s" and k: "K (kw s) (trace s)"
    and run: "sig_running P (kw s)" and w: "wait_cqe_timeout U (kw s) = ((0, c), k')" and r: "op_heap s (cqe_data c) = Some r" "op_type r = OP_TYPE_TUN_READ"
    and wr: "cqe_writes c = [(op_buffer r, packet)]" "cqe_res c = int (length packet)" "packet \<noteq> []"
    and d: "conn_heap s conn = Some d" "0 \<le> udp_fd d"
  shows "\<exists>s' e bs. turn P U (Suc n) ctx (dtls_packet T U conn tunfd ctx) s s' \<and> outgoing (trace s') = e # outgoing (trace s) \<and>
    emits s' e = Some (To_peer (udp_fd d) (take (conn_addr_len d) (conn_addr d)) bs) \<and>
    tls_io (trace s') = Ev_bio_read (wbio d) bs # Ev_ssl_write (conn_ssl d) packet # tls_io (trace s)"
proof -
  let ?p = "cqe_data c" and ?r = "r\<lparr>data_len := cqe_res c\<rparr>" and ?n = "length packet"
  from wp_InrD [OF completed_read_is_returned [OF U g(1) k w r _ wr(1), of n]] wr(2)
  obtain s1 y where s1: "wait_for_recv U (Suc n) ctx s = Inr (Some ?p, s1)" "received ctx ?p s1" "uinv ctx (q2 # ops) (b2 # bufs) s1"
    "uring_state.more s1 = uring_state.more s" "op_heap s1 ?p = Some ?r" "buf_bytes s1 (op_buf_addr r) = Some y" "take ?n y = packet"
    by (auto simp del: wait_for_recv.simps)
  have b: "dtls.between ctx T conn K s" using g k T(1) by (auto simp: dtls.between_def dtls_inv_def gi_def)
  have i1: "dtls_inv T conn s1" using wp_result [OF dtls.wait_step [OF U(1,2) b] s1(1)] by simp
  have c1: "conn_tls conn s1" "conn_heap s1 conn = Some d" using i1 d(1) more_eqD(1) [OF s1(4)] by (simp_all add: dtls_inv_def)
  obtain ops' bufs' where l: "ginv ctx ops' bufs' {?p} s1" "packet_ok ctx ?r s1" "op_buf_addr r \<noteq> NULL" "?p \<noteq> NULL"
    by (rule receivedE [OF s1(2,5)]) (use r(2) in \<open>auto simp: op_type_defs\<close>)
  have buf: "op_buffer r = MBuf (op_buf_addr r)" using live_buf(2) [OF ginvD(1) [OF l(1)] s1(5) ginv_local(1) [OF l(1)]] l(3) by simp
  have n: "0 < ?n" "?n \<le> BUF_SIZE" "size_of_int (data_len ?r) = ?n" using l(2) wr by (auto simp: packet_ok_def size_of_int_small)
  have "?n \<le> length y" using s1(7) by (metis length_take min.cobounded1)
  then have m: "bytes_at_mem s1 (op_buffer r) ?n = Some packet" using s1(6,7) l(3) by (auto simp: buf bytes_at_mem_def buf_bytes_def exec_simps)
  have v: "src_ok ctx s1 (Heap (op_buffer r)) (max 40 ?n)" using l(2) wr(2) by (simp add: packet_ok_def src_ok_def)
  note gh = received_held [OF s1(2)]
  have "wlp (dtls_packet T U conn tunfd ctx ?p ?r) (\<lambda>rc _. rc = 0) s1"
    using encrypt_and_send_accepted [OF U(3) T(1,3) s1(3) conjunct1 [OF gh] conjunct2 [OF gh] c1 d(2) n(1,2) m v] r(2) n(3) by (simp add: dtls_packet_def)
  from wp_InrD [OF wp_wlp [OF dtls_packet_ok [OF s1(2,5) i1] this]]
  obtain s2 where s2: "dtls_packet T U conn tunfd ctx ?p ?r s1 = Inr (0, s2)" "handled U ctx ?p s1 0 s2" by auto
  then have "gi ctx {?p} s2" "held ?p s2" by (auto simp: handled_def)
  from wp_InrD [OF release_ok [OF this, where U = U]] obtain x s3 where s3: "io_op_free U ctx ?p s2 = Inr (x, s3)" by auto
  have "turn P U (Suc n) ctx (dtls_packet T U conn tunfd ctx) s s3"
    by (rule turn.intros [OF run s1(1) l(4) s1(5) _ _ s3, where rc = 0]) (use s2(1) in simp_all)
  moreover have "passed_on (packet_out True d tunfd) (packet_io True d packet) s s3"
    using turn_flow(1) [OF U(1,2) T(2) b d(1) s1(1) l(4) s1(5) s2(1) _ s3] m r(2) wr(2) by simp
  ultimately show ?thesis unfolding passed_on_def by auto
qed

text \<open>
  C4: When a TUN read completes, the event loop of the DTLS edge makes a whole turn: it writes exactly the packet to the SSL object of its connection,
  and hands the kernel one send, to the peer, of exactly the ciphertext that OpenSSL has put into the write BIO. Two free operations, two free buffers,
  a kernel that accepts submissions and an OpenSSL that encrypts are enough.
\<close>

theorem tun_packet_is_encrypted:
  assumes U: "recvmsg_ok U" "kernel_ok U ctx K" "accepting U" and T: "openssl_ok T" "ssl_error_exact T" "encrypting T d"
    and g: "ginv ctx (q1 # q2 # ops) (b1 # b2 # bufs) {} s" "conn_tls conn s" "all_multi s" and k: "K (kw s) (trace s)"
    and run: "sig_running P (kw s)" and w: "wait_cqe_timeout U (kw s) = ((0, c), k')" and r: "op_heap s (cqe_data c) = Some r" "op_type r = OP_TYPE_TUN_READ"
    and wr: "cqe_writes c = [(op_buffer r, packet)]" "cqe_res c = int (length packet)" "packet \<noteq> []"
    and d: "conn_heap s conn = Some d" "0 \<le> udp_fd d"
  shows "\<exists>s' e bs. turn P U (Suc n) ctx (dtls_packet T U conn tunfd ctx) s s' \<and> outgoing (trace s') = e # outgoing (trace s) \<and>
    emits s' e = Some (To_peer (udp_fd d) (take (conn_addr_len d) (conn_addr d)) bs) \<and>
    tls_io (trace s') = Ev_bio_read (wbio d) bs # Ev_ssl_write (conn_ssl d) packet # tls_io (trace s)"
  by (rule encrypted_turn [OF assms])

section \<open>Witnesses\<close>

lemma sample_encrypting: "encrypting sample_openssl sample_conn"
  by (auto simp: encrypting_def sample_openssl_def queue_read_def BUF_SIZE_def)

text \<open>In the sample world a TUN read completes, and the packet leaves encrypted.\<close>

lemma sample_read:
  fixes c :: cqe
  defines "c \<equiv> \<lparr>cqe_data = 3, cqe_res = 20, cqe_flags = 0, cqe_writes = [(MBuf 4, sample_packet)]\<rparr>"
  shows "sig_running sample_posix (kw sample_state)" and "wait_cqe_timeout sample_uring (kw sample_state) = ((0, c), sample_inflight)"
    and "op_heap sample_state (cqe_data c) = Some (new_op OP_TYPE_TUN_READ 8 4)" and "op_type (new_op OP_TYPE_TUN_READ 8 4) = OP_TYPE_TUN_READ"
    and "cqe_writes c = [(op_buffer (new_op OP_TYPE_TUN_READ 8 4), sample_packet)]" and "cqe_res c = int (length sample_packet)" and "sample_packet \<noteq> []"
    and "conn_heap sample_state 10 = Some sample_conn" and "0 \<le> udp_fd sample_conn" and "conn_tls 10 sample_state"
    and "ssl_error_exact sample_openssl"
  using sample_dtls_inv
  by (simp_all add: c_def sample_posix_def sample_uring_def sample_state_def sample_inflight_def sample_packet_def sample_ops_def new_op_def BUF_SIZE_def
    sample_conn_def ssl_error_exact_def sample_openssl_def dtls_inv_def)

theorem tun_packet_is_encrypted_witness:
  "\<exists>s' e bs. turn sample_posix sample_uring 1 1 (dtls_packet sample_openssl sample_uring 10 8 1) sample_state s' \<and> outgoing (trace s') = [e] \<and>
    emits s' e = Some (To_peer 9 (replicate 16 0) bs) \<and> tls_io (trace s') = [Ev_bio_read 102 bs, Ev_ssl_write 100 sample_packet]"
proof -
  from tun_packet_is_encrypted [OF sample_recvmsg_ok sample_kernel_ok sample_accepting sample_openssl_ok sample_read(11) sample_encrypting
      sample_ginv sample_read(10) sample_all_multi sample_knows_state sample_read(1-9), of 0 8]
  show ?thesis by (simp add: sample_conn_def zero_conn_def SOCKADDR_STORAGE_def sample_state_def sample_inflight_def tls_io_def)
qed

theorem dtls_edge_is_a_tunnel_witness:
  "\<exists>s'. turns sample_posix sample_uring 1 1 (dtls_packet sample_openssl sample_uring 10 8 1) sample_state s' \<and> outgoing (trace s') \<noteq> [] \<and>
    (tunnel_step sample_conn 8)\<^sup>*\<^sup>* sample_state s'"
proof -
  from encrypted_turn [OF sample_recvmsg_ok sample_kernel_ok sample_accepting sample_openssl_ok sample_read(11) sample_encrypting
      sample_ginv sample_read(10) sample_all_multi sample_knows_state sample_read(1-9), of 0 8]
  obtain s' where s': "turn sample_posix sample_uring 1 1 (dtls_packet sample_openssl sample_uring 10 8 1) sample_state s'" "outgoing (trace s') \<noteq> []" by auto
  then have t: "turns sample_posix sample_uring 1 1 (dtls_packet sample_openssl sample_uring 10 8 1) sample_state s'" by (blast intro: turns.intros)
  from dtls_edge_is_a_tunnel [OF sample_recvmsg_ok sample_kernel_ok sample_openssl_ok sample_read(11) sample_gi sample_read(10) sample_all_multi
      sample_knows_state sample_read(8) t] t s'(2)
  show ?thesis by blast
qed

end
