(* ===== verification/Lost_Flight.thy ===== *)
theory Lost_Flight
  imports Handshake
begin

text \<open>
  The handshake has no retransmission timer. When the network is quiet, because the flight of one side was lost, it waits for ever: timeouts of the wait
  are not passed on to OpenSSL.
\<close>

section \<open>A quiet network\<close>

text \<open>How often the program has called \<^verbatim>\<open>io_uring_submit\<close>.\<close>

definition submissions :: "event list \<Rightarrow> nat" where
  "submissions tr = length (filter (\<lambda>e. case e of Ev_submit _ \<Rightarrow> True | _ \<Rightarrow> False) tr)"








section \<open>At most one flight\<close>





text \<open>A system in which the first flight goes out and nothing comes back.\<close>

definition silent_uring :: "sqe list liburing" where
  "silent_uring = sample_uring\<lparr>wait_cqe_timeout := \<lambda>k. ((-ETIME, no_cqe), k)\<rparr>"

definition waiting_openssl :: "byte list openssl" where
  "waiting_openssl = sample_openssl\<lparr>ssl_do_handshake := \<lambda>p t. (-1, t @ [22]), ssl_get_error := \<lambda>p r t. SSL_ERROR_WANT_READ\<rparr>"

text \<open>One flight does go out, and then the program waits.\<close>

lemma first_flight_goes_out:
  "wp (do_dtls_handshake waiting_openssl silent_uring 2 2 1 10) (\<lambda>h s'. h = None \<and> submissions (trace s') = 1) sample_state"
  unfolding do_dtls_handshake_def numeral_2_eq_2 handshake_loop.simps wait_for_recv.simps iouring_wait_cqe_def
  apply (simp add: wp_simps waiting_openssl_def sample_openssl_def silent_uring_def sample_state_def sample_conn_def zero_conn_def with_ssl_def SSL_get_error_def)
  apply (simp add: wp_simps handshake_send_def BIO_read_def queue_read_def)
  apply (simp add: wp_simps io_op_alloc_def io_op_alloc_buf_def iouring_get_io_op_def iouring_get_buf_addr_def sample_defs op_type_defs Let_def)
  apply (simp add: wp_simps iouring_submit_udp_send_def copy_payload_def memcpy_in_def uring_call_defs sample_uring_def zero_op_def op_type_defs BUF_SIZE_def)
  apply (simp add: wp_simps send_message_def memcpy_in_def uring_call_defs SOCKADDR_STORAGE_def zero_buf_addr_def BUF_SIZE_def)
  by (simp add: ETIME_def submissions_def)


end
